(* ===== verification/Prelude.thy ===== *)
theory Prelude
  imports Main "HOL-Library.State_Monad" "HOL-Library.Word"
begin

text \<open>
  What every component shares: Go errors, the state monad in which effectful Go code is
  written, the string functions of the standard library the code calls, and the
  collections of facts the component theories feed to the simplifier.

  \<^item> An effectful Go function is a computation \<open>('w, 'a) state\<close> over a world \<open>'w\<close>. The
    world is never inspected by the code: a database, a broker or a clock is reached only
    through the functions an interface record provides, as in Go.
  \<^item> A Go result \<open>(T, error)\<close> is \<open>goerror + 'a\<close>; a bare \<open>error\<close> is \<open>goerror option\<close>,
    with \<open>None\<close> for \<open>nil\<close>.
  \<^item> A Go \<open>string\<close> is a list of bytes, HOL's \<open>char list\<close>.
\<close>

section \<open>Errors\<close>

text \<open>
  The sentinel errors the code compares against with \<open>errors.Is\<close>, and every other error
  by its message.
\<close>

datatype goerror =
    ErrRecordNotFound
  | ErrAlreadySettled
  | ErrUnknownEmailType string
  | RedisNil
  | EOF
  | Err string

fun err_text :: "goerror \<Rightarrow> string" where
  "err_text ErrRecordNotFound = ''record not found''"
| "err_text ErrAlreadySettled = ''saga already settled''"
| "err_text (ErrUnknownEmailType quoted_type) = ''unknown email type: '' @ quoted_type"
| "err_text RedisNil = ''redis: nil''"
| "err_text EOF = ''EOF''"
| "err_text (Err s) = s"

section \<open>Computations\<close>

abbreviation ret :: "'a \<Rightarrow> ('w, 'a) state" where
  "ret \<equiv> State_Monad.return"

abbreviation run :: "('w, 'a) state \<Rightarrow> 'w \<Rightarrow> 'a \<times> 'w" where
  "run \<equiv> run_state"

text \<open>Facts that give the result and the final world of a run, for \<open>simp\<close>.\<close>

named_theorems run_simps \<open>evaluation of a run\<close>

lemma run_bind: "run (State_Monad.bind m f) w = (case run m w of (a, w1) \<Rightarrow> run (f a) w1)"
  by simp

lemma run_bind_eq: "run m w = (a, w1) \<Longrightarrow> run (State_Monad.bind m f) w = run (f a) w1"
  by simp

lemma run_bindE:
  assumes "run (State_Monad.bind m f) w = (b, w2)"
  obtains a w1 where "run m w = (a, w1)" and "run (f a) w1 = (b, w2)"
  using assms by (auto split: prod.splits)

text \<open>\<open>for _, x := range xs { body x }\<close>: the body's results are dropped.\<close>

fun for_each :: "'a list \<Rightarrow> ('a \<Rightarrow> ('w, unit) state) \<Rightarrow> ('w, unit) state" where
  "for_each [] body = ret ()"
| "for_each (x # xs) body = do { body x; for_each xs body }"

text \<open>A property every body run keeps is kept by the loop.\<close>

lemma for_each_inv:
  assumes step: "\<And>x w r w'. x \<in> set xs \<Longrightarrow> I w \<Longrightarrow> run (body x) w = (r, w') \<Longrightarrow> I w'"
    and "I w" and "run (for_each xs body) w = (r, w')"
  shows "I w'"
  using assms
proof (induction xs arbitrary: w)
  case Nil
  then show ?case by simp
next
  case (Cons x xs)
  obtain a w1 where 1: "run (body x) w = (a, w1)" and 2: "run (for_each xs body) w1 = (r, w')"
    using Cons.prems(3) by (auto split: prod.splits)
  have "I w1" using Cons.prems(1)[OF _ Cons.prems(2) 1] by simp
  then show ?case using Cons.IH[OF _ _ 2] Cons.prems(1) by (meson list.set_intros(2))
qed

text \<open>What a body run establishes for its element, and no later one undoes, holds of every
  element when the loop is over.\<close>

lemma for_each_all:
  assumes inv: "\<And>x w r w'. x \<in> set xs \<Longrightarrow> I w \<Longrightarrow> run (body x) w = (r, w') \<Longrightarrow> I w'"
    and sets: "\<And>x w r w'. x \<in> set xs \<Longrightarrow> I w \<Longrightarrow> run (body x) w = (r, w') \<Longrightarrow> D x w'"
    and keep: "\<And>x y w r w'. x \<in> set xs \<Longrightarrow> I w \<Longrightarrow> D y w \<Longrightarrow> run (body x) w = (r, w') \<Longrightarrow> D y w'"
    and "I w" and "run (for_each xs body) w = (r, w')"
  shows "\<forall>x \<in> set xs. D x w'"
  using assms
proof (induction xs arbitrary: w)
  case Nil
  show ?case by simp
next
  case (Cons x xs)
  obtain a w1 where 1: "run (body x) w = (a, w1)" and 2: "run (for_each xs body) w1 = (r, w')"
    using Cons.prems(5) by (auto split: prod.splits)
  have I1: "I w1" and D1: "D x w1" using Cons.prems(1,2)[OF _ Cons.prems(4) 1] by simp_all
  have step: "I v' \<and> D x v'" if "y \<in> set xs" "I v \<and> D x v" "run (body y) v = (s, v')" for y v s v'
    using Cons.prems(1,3)[of y v] that by (metis list.set_intros(2))
  have "I w' \<and> D x w'"
    using step conjI[OF I1 D1] 2 by (rule for_each_inv)
  moreover have "\<forall>x \<in> set xs. D x w'"
    by (rule Cons.IH[OF _ _ _ I1 2])
       (rule Cons.prems(1) Cons.prems(2) Cons.prems(3), rule list.set_intros(2), assumption+)+
  ultimately show ?case by simp
qed

text \<open>
  The two ways Go code passes an error on: \<open>if err := m; err != nil { return err }; k\<close>, and
  \<open>if err := m; err != nil { return fmt.Errorf(msg + "%w", err) }\<close>.
\<close>

definition and_then ::
  "('w, goerror option) state \<Rightarrow> ('w, goerror option) state \<Rightarrow> ('w, goerror option) state" where
  "and_then m k = do { err \<leftarrow> m; case err of Some e \<Rightarrow> ret (Some e) | None \<Rightarrow> k }"

definition wrapping :: "string \<Rightarrow> ('w, goerror option) state \<Rightarrow> ('w, goerror option) state" where
  "wrapping msg m =
     do { err \<leftarrow> m; ret (case err of Some e \<Rightarrow> Some (Err (msg @ err_text e)) | None \<Rightarrow> None) }"

lemma and_then_nil [simp]: "and_then (ret None) k = k"
  by (simp add: and_then_def)

lemma and_then_nil_right [simp]: "and_then m (ret None) = m"
  by (rule state_ext) (auto simp: and_then_def split: prod.splits option.splits)

lemma and_then_assoc [simp]: "and_then (and_then m k) l = and_then m (and_then k l)"
  by (rule state_ext) (auto simp: and_then_def split: prod.splits option.splits)

text \<open>\<open>for _, x := range xs { if err := body x; err != nil { return err } }\<close>: the loop stops at
  the first error and returns it.\<close>

fun for_err :: "'a list \<Rightarrow> ('a \<Rightarrow> ('w, goerror option) state) \<Rightarrow> ('w, goerror option) state" where
  "for_err [] body = ret None"
| "for_err (x # xs) body = and_then (body x) (for_err xs body)"

lemma for_err_append: "for_err (xs @ ys) body = and_then (for_err xs body) (for_err ys body)"
  by (induction xs) simp_all

lemma for_err_map: "for_err (map g xs) body = for_err xs (\<lambda>x. body (g x))"
  by (induction xs) simp_all

lemma for_err_concat: "for_err (concat xss) body = for_err xss (\<lambda>xs. for_err xs body)"
  by (induction xss) (simp_all add: for_err_append)

section \<open>Machine integers\<close>

text \<open>Go's \<open>int\<close>, \<open>int64\<close> and \<open>time.Duration\<close> are 64-bit two's complement words, read with
  \<open>sint\<close>; their \<open>*\<close> and \<open>+\<close> wrap.\<close>

type_synonym int64 = "64 word"

text \<open>Go's integer division truncates towards zero.\<close>

definition quot :: "int \<Rightarrow> int \<Rightarrow> int" where
  "quot a b = (if (a < 0) \<noteq> (b < 0) then - (\<bar>a\<bar> div \<bar>b\<bar>) else \<bar>a\<bar> div \<bar>b\<bar>)"

lemma quot_nonneg [simp]: "0 \<le> a \<Longrightarrow> 0 < b \<Longrightarrow> quot a b = a div b"
  by (simp add: quot_def)

section \<open>Conditions on the surroundings\<close>

text \<open>In the worlds \<open>up\<close> a call gives a result with \<open>Q\<close> and stays in \<open>up\<close>: how a theorem says
  that a service works (or fails) for as long as it matters.\<close>

definition reliably :: "('w \<Rightarrow> bool) \<Rightarrow> ('w, 'a) state \<Rightarrow> ('a \<Rightarrow> bool) \<Rightarrow> bool" where
  "reliably up m Q \<longleftrightarrow> (\<forall>w r w'. up w \<longrightarrow> run m w = (r, w') \<longrightarrow> up w' \<and> Q r)"

lemma reliablyD:
  "reliably up m Q \<Longrightarrow> run m w = (r, w') \<Longrightarrow> up w \<Longrightarrow> up w'"
  "reliably up m Q \<Longrightarrow> run m w = (r, w') \<Longrightarrow> up w \<Longrightarrow> Q r"
  unfolding reliably_def by blast+

section \<open>Specifications of computations\<close>

text \<open>Whenever \<open>m\<close> starts in a world seen as \<open>v\<close>, its result and what is seen at the end
  satisfy \<open>Q\<close>.\<close>

definition spec :: "('w \<Rightarrow> 'v) \<Rightarrow> 'v \<Rightarrow> ('w, 'a) state \<Rightarrow> ('a \<Rightarrow> 'v \<Rightarrow> bool) \<Rightarrow> bool" where
  "spec view v m Q \<longleftrightarrow> (\<forall>w r w'. view w = v \<longrightarrow> run m w = (r, w') \<longrightarrow> Q r (view w'))"

lemma specI: "(\<And>w r w'. view w = v \<Longrightarrow> run m w = (r, w') \<Longrightarrow> Q r (view w')) \<Longrightarrow> spec view v m Q"
  by (simp add: spec_def)

lemma specD: "spec view v m Q \<Longrightarrow> view w = v \<Longrightarrow> run m w = (r, w') \<Longrightarrow> Q r (view w')"
  by (simp add: spec_def)

lemma spec_ret: "Q a v \<Longrightarrow> spec view v (ret a) Q"
  by (simp add: spec_def)

lemma spec_bind:
  assumes "spec view v m R" and "\<And>a u. R a u \<Longrightarrow> spec view u (f a) Q"
  shows "spec view v (State_Monad.bind m f) Q"
  using assms by (fastforce simp: spec_def split: prod.splits)

lemma spec_conseq: "spec view v m R \<Longrightarrow> (\<And>a u. R a u \<Longrightarrow> Q a u) \<Longrightarrow> spec view v m Q"
  by (simp add: spec_def)

text \<open>A call that only reads.\<close>

lemma spec_read:
  assumes "spec view v m (\<lambda>r u. u = v \<and> R r)" and "\<And>a. R a \<Longrightarrow> spec view v (f a) Q"
  shows "spec view v (State_Monad.bind m f) Q"
  using assms by (auto intro: spec_bind)

text \<open>A computation that leaves a view of the world alone.\<close>

definition keeps :: "('w \<Rightarrow> 'v) \<Rightarrow> ('w, 'a) state \<Rightarrow> bool" where
  "keeps view m \<longleftrightarrow> (\<forall>w r w'. run m w = (r, w') \<longrightarrow> view w' = view w)"

lemma keepsI: "(\<And>w r w'. run m w = (r, w') \<Longrightarrow> view w' = view w) \<Longrightarrow> keeps view m"
  by (simp add: keeps_def)

lemma keepsD: "keeps view m \<Longrightarrow> run m w = (r, w') \<Longrightarrow> view w' = view w"
  by (simp add: keeps_def)

lemma keeps_ret [simp]: "keeps view (ret x)"
  by (simp add: keeps_def)

lemma keeps_bind: "keeps view m \<Longrightarrow> (\<And>x. keeps view (f x)) \<Longrightarrow> keeps view (State_Monad.bind m f)"
  unfolding keeps_def by (fastforce split: prod.splits)

lemma keeps_and_then: "keeps view m \<Longrightarrow> keeps view k \<Longrightarrow> keeps view (and_then m k)"
  unfolding and_then_def by (auto intro!: keeps_bind split: option.splits)

lemma keeps_wrapping: "keeps view m \<Longrightarrow> keeps view (wrapping msg m)"
  unfolding wrapping_def by (auto intro!: keeps_bind)

lemma keeps_for_err: "(\<And>x. keeps view (body x)) \<Longrightarrow> keeps view (for_err xs body)"
  by (induction xs) (auto intro!: keeps_and_then)

lemma keeps_for_each: "(\<And>x. keeps view (body x)) \<Longrightarrow> keeps view (for_each xs body)"
  by (induction xs) (auto intro!: keeps_bind)

lemma keeps_spec: "keeps view m \<Longrightarrow> spec view v m (\<lambda>r u. u = v)"
  by (auto simp: keeps_def spec_def)

end
