(* ===== verification/Topology.thy ===== *)
theory Topology
  imports Retry_Policy
begin

text \<open>
  The broker topology of \<open>internal/infra/rabbitmq/topology.go\<close>: exchange, routing-key and
  queue names, the three endpoints, and the procedure that declares them on a channel. The
  channel is the AMQP client's, a parameter given as a record of its calls. The declaration
  is compared with \<open>topology_plan\<close>, the list of declarations in order.
\<close>

section \<open>Names\<close>

definition EventsExchange :: string where "EventsExchange = ''github_scanner.events''"
definition CommandsExchange :: string where "CommandsExchange = ''github_scanner.commands''"

definition RoutingKeyReleaseDetected :: string where
  "RoutingKeyReleaseDetected = ''release.detected''"
definition RoutingKeyRepositoryMoved :: string where
  "RoutingKeyRepositoryMoved = ''repository.moved''"
definition RoutingKeySubscriptionCreated :: string where
  "RoutingKeySubscriptionCreated = ''subscription.created''"
definition RoutingKeyVerificationDelivered :: string where
  "RoutingKeyVerificationDelivered = ''verification.delivered''"
definition RoutingKeyVerificationFailed :: string where
  "RoutingKeyVerificationFailed = ''verification.failed''"
definition RoutingKeyEmailSend :: string where "RoutingKeyEmailSend = ''email.send''"

definition HeaderAttempts :: string where "HeaderAttempts = ''x-attempts''"
definition HeaderDLQReason :: string where "HeaderDLQReason = ''x-dlq-reason''"

lemmas routing_keys =
  RoutingKeyReleaseDetected_def RoutingKeyRepositoryMoved_def RoutingKeySubscriptionCreated_def
  RoutingKeyVerificationDelivered_def RoutingKeyVerificationFailed_def RoutingKeyEmailSend_def

record QueueSet =
  MainQ :: string
  RetryQ :: string
  DLQ :: string

record Endpoint =
  Exchange :: string
  RoutingKeys :: "string list"
  Queues :: QueueSet

definition NotificationsEndpoint :: Endpoint where
  "NotificationsEndpoint =
     \<lparr>Exchange = EventsExchange,
      RoutingKeys =
        [RoutingKeyReleaseDetected, RoutingKeyRepositoryMoved, RoutingKeySubscriptionCreated],
      Queues = \<lparr>MainQ = ''notifications'', RetryQ = ''notifications.retry'',
                DLQ = ''notifications.dlq''\<rparr>\<rparr>"

definition CommandsEndpoint :: Endpoint where
  "CommandsEndpoint =
     \<lparr>Exchange = CommandsExchange,
      RoutingKeys = [RoutingKeyEmailSend],
      Queues = \<lparr>MainQ = ''email.delivery'', RetryQ = ''email.delivery.retry'',
                DLQ = ''email.delivery.dlq''\<rparr>\<rparr>"

definition OnboardingSagaEndpoint :: Endpoint where
  "OnboardingSagaEndpoint =
     \<lparr>Exchange = EventsExchange,
      RoutingKeys = [RoutingKeyVerificationDelivered, RoutingKeyVerificationFailed],
      Queues = \<lparr>MainQ = ''onboarding.saga'', RetryQ = ''onboarding.saga.retry'',
                DLQ = ''onboarding.saga.dlq''\<rparr>\<rparr>"

definition exchanges :: "string list" where
  "exchanges = [EventsExchange, CommandsExchange]"

definition endpoints :: "Endpoint list" where
  "endpoints = [NotificationsEndpoint, CommandsEndpoint, OnboardingSagaEndpoint]"

lemmas endpoint_defs = NotificationsEndpoint_def CommandsEndpoint_def OnboardingSagaEndpoint_def

section \<open>The declaration\<close>

text \<open>The values of an \<open>amqp.Table\<close> the code writes or reads.\<close>

datatype tableval = TStr string | TInt64 int64 | TInt32 "32 word" | TOther

type_synonym amqp_table = "string \<rightharpoonup> tableval"

text \<open>The declaring calls of a channel, with the arguments the code varies or fixes.\<close>

record 'w declare_channel =
  ExchangeDeclare :: "string \<Rightarrow> string \<Rightarrow> bool \<Rightarrow> bool \<Rightarrow> bool \<Rightarrow> bool \<Rightarrow> amqp_table
                        \<Rightarrow> ('w, goerror option) state"
  QueueDeclare :: "string \<Rightarrow> bool \<Rightarrow> bool \<Rightarrow> bool \<Rightarrow> bool \<Rightarrow> amqp_table
                        \<Rightarrow> ('w, goerror option) state"
  QueueBind :: "string \<Rightarrow> string \<Rightarrow> string \<Rightarrow> bool \<Rightarrow> amqp_table
                        \<Rightarrow> ('w, goerror option) state"

definition wait_queue_args :: "Endpoint \<Rightarrow> RetryPolicy \<Rightarrow> int \<Rightarrow> amqp_table" where
  "wait_queue_args ep retry tier =
     [''x-dead-letter-exchange'' \<mapsto> TStr '''',
      ''x-dead-letter-routing-key'' \<mapsto> TStr (MainQ (Queues ep)),
      ''x-message-ttl'' \<mapsto> TInt64 (tierTTLms retry tier)]"

definition declareEndpoint ::
  "'w declare_channel \<Rightarrow> Endpoint \<Rightarrow> RetryPolicy \<Rightarrow> ('w, goerror option) state" where
  "declareEndpoint ch ep retry =
     and_then
       (wrapping (''declare '' @ MainQ (Queues ep) @ '' queue: '')
         (QueueDeclare ch (MainQ (Queues ep)) True False False False Map.empty))
     (and_then
       (for_err (RoutingKeys ep) (\<lambda>rk.
         wrapping (''bind '' @ rk @ '' to '' @ MainQ (Queues ep) @ '': '')
           (QueueBind ch (MainQ (Queues ep)) rk (Exchange ep) False Map.empty)))
     (and_then
       (for_err [0..sint (Tiers retry) - 1] (\<lambda>tier.
         let args = wait_queue_args ep retry tier;
             name = retryQueueName (RetryQ (Queues ep)) tier
         in wrapping (''declare '' @ name @ '' queue: '')
              (QueueDeclare ch name True False False False args)))
       (wrapping (''declare '' @ DLQ (Queues ep) @ '' queue: '')
         (QueueDeclare ch (DLQ (Queues ep)) True False False False Map.empty))))"

definition declareTopology ::
  "'w declare_channel \<Rightarrow> RetryPolicy \<Rightarrow> ('w, goerror option) state" where
  "declareTopology ch retry =
     and_then
       (for_err exchanges (\<lambda>ex.
         wrapping (''declare exchange '' @ ex @ '': '')
           (ExchangeDeclare ch ex ''topic'' True False False False Map.empty)))
       (for_err endpoints (\<lambda>ep. declareEndpoint ch ep retry))"

section \<open>The plan\<close>

text \<open>What the declaration is meant to do: a list of declarations, each with the prefix its
  error is wrapped in.\<close>

datatype decl =
    DExchange string
  | DQueue string amqp_table
  | DBind string string string

fun perform :: "'w declare_channel \<Rightarrow> decl \<Rightarrow> ('w, goerror option) state" where
  "perform ch (DExchange ex) = ExchangeDeclare ch ex ''topic'' True False False False Map.empty"
| "perform ch (DQueue q args) = QueueDeclare ch q True False False False args"
| "perform ch (DBind q rk ex) = QueueBind ch q rk ex False Map.empty"

fun context_of :: "decl \<Rightarrow> string" where
  "context_of (DExchange ex) = ''declare exchange '' @ ex @ '': ''"
| "context_of (DQueue q args) = ''declare '' @ q @ '' queue: ''"
| "context_of (DBind q rk ex) = ''bind '' @ rk @ '' to '' @ q @ '': ''"

definition endpoint_plan :: "RetryPolicy \<Rightarrow> Endpoint \<Rightarrow> decl list" where
  "endpoint_plan retry ep =
     DQueue (MainQ (Queues ep)) Map.empty
     # map (\<lambda>rk. DBind (MainQ (Queues ep)) rk (Exchange ep)) (RoutingKeys ep)
     @ map (\<lambda>tier. DQueue (retryQueueName (RetryQ (Queues ep)) tier) (wait_queue_args ep retry tier))
         [0..sint (Tiers retry) - 1]
     @ [DQueue (DLQ (Queues ep)) Map.empty]"

definition topology_plan :: "RetryPolicy \<Rightarrow> decl list" where
  "topology_plan retry = map DExchange exchanges @ concat (map (endpoint_plan retry) endpoints)"

definition run_plan :: "'w declare_channel \<Rightarrow> decl list \<Rightarrow> ('w, goerror option) state" where
  "run_plan ch ds = for_err ds (\<lambda>d. wrapping (context_of d) (perform ch d))"

text \<open>The three loops of an endpoint are one pass over its plan.\<close>

lemma declareEndpoint_plan: "declareEndpoint ch ep retry = run_plan ch (endpoint_plan retry ep)"
  unfolding declareEndpoint_def endpoint_plan_def run_plan_def
  by (simp add: for_err_append for_err_map Let_def)


section \<open>The queues of the plan\<close>

fun queue_of :: "decl \<Rightarrow> string list" where
  "queue_of (DQueue q _) = [q]"
| "queue_of _ = []"

definition declared_queues :: "RetryPolicy \<Rightarrow> string list" where
  "declared_queues retry = concat (map queue_of (topology_plan retry))"

definition tier_queues :: "RetryPolicy \<Rightarrow> QueueSet \<Rightarrow> string list" where
  "tier_queues retry qs = map (retryQueueName (RetryQ qs)) [0..sint (Tiers retry) - 1]"

definition queue_set_queues :: "RetryPolicy \<Rightarrow> QueueSet \<Rightarrow> string list" where
  "queue_set_queues retry qs = MainQ qs # tier_queues retry qs @ [DLQ qs]"

lemma concat_map_nil [simp]: "concat (map (\<lambda>x. []) xs) = []"
  by (induction xs) simp_all

lemma declared_queues_eq:
  "declared_queues retry = concat (map (\<lambda>ep. queue_set_queues retry (Queues ep)) endpoints)"
proof -
  have "concat (map queue_of (endpoint_plan retry ep)) = queue_set_queues retry (Queues ep)" for ep
    by (simp add: endpoint_plan_def queue_set_queues_def tier_queues_def comp_def)
  then show ?thesis
    by (simp add: declared_queues_def topology_plan_def endpoints_def comp_def)
qed

lemma distinct_tier_queues: "distinct (tier_queues retry qs)"
  unfolding tier_queues_def distinct_map
  by (auto intro!: inj_onI dest: retryQueueName_inj[rotated 2])

lemma tier_queues_iff:
  "q \<in> set (tier_queues retry qs)
    \<longleftrightarrow> (\<exists>tier. 0 \<le> tier \<and> tier < sint (Tiers retry) \<and> q = retryQueueName (RetryQ qs) tier)"
  by (auto simp: tier_queues_def)

lemma queue_set_hd:
  assumes "RetryQ qs = c # cs" and "MainQ qs = c # ms" and "DLQ qs = c # ds"
    and "q \<in> set (queue_set_queues retry qs)"
  shows "\<exists>r. q = c # r"
  using assms by (auto simp: queue_set_queues_def tier_queues_iff retryQueueName_def)

lemma queue_set_distinct:
  assumes "RetryQ qs = b @ ''.retry''" and "MainQ qs = b" and "DLQ qs = b @ ''.dlq''"
  shows "distinct (queue_set_queues retry qs)"
  using distinct_tier_queues[of retry qs] assms
  by (auto simp: queue_set_queues_def tier_queues_iff retryQueueName_def)

lemma endpoint_queues_distinct:
  "distinct (queue_set_queues retry (Queues NotificationsEndpoint))"
  "distinct (queue_set_queues retry (Queues CommandsEndpoint))"
  "distinct (queue_set_queues retry (Queues OnboardingSagaEndpoint))"
  by (rule queue_set_distinct; simp add: endpoint_defs)+

lemma endpoint_queues_hd:
  "q \<in> set (queue_set_queues retry (Queues NotificationsEndpoint)) \<Longrightarrow> \<exists>r. q = CHR ''n'' # r"
  "q \<in> set (queue_set_queues retry (Queues CommandsEndpoint)) \<Longrightarrow> \<exists>r. q = CHR ''e'' # r"
  "q \<in> set (queue_set_queues retry (Queues OnboardingSagaEndpoint)) \<Longrightarrow> \<exists>r. q = CHR ''o'' # r"
  by (rule queue_set_hd[rotated 3], assumption, simp_all add: endpoint_defs)+

text \<open>
  No two declarations name the same queue, whatever the number of tiers: a wait queue can
  shadow neither a main queue, nor a dead-letter queue, nor another tier.
\<close>

theorem declared_queues_distinct: "distinct (declared_queues retry)"
  using endpoint_queues_distinct[of retry] endpoint_queues_hd[of _ retry]
  by (simp add: declared_queues_eq endpoints_def) fastforce

section \<open>Routing\<close>

text \<open>The queues an exchange routes a key to, after the plan has run.\<close>

definition routes_to :: "RetryPolicy \<Rightarrow> string \<Rightarrow> string \<Rightarrow> string list" where
  "routes_to retry ex rk =
     concat (map (\<lambda>d. case d of DBind q rk' ex' \<Rightarrow> if rk' = rk \<and> ex' = ex then [q] else []
                            | _ \<Rightarrow> []) (topology_plan retry))"

lemma routes_to_endpoints:
  "routes_to retry ex rk =
     concat (map (\<lambda>ep. if Exchange ep = ex
                       then concat (map (\<lambda>k. if k = rk then [MainQ (Queues ep)] else []) (RoutingKeys ep))
                       else []) endpoints)"
  by (simp add: routes_to_def topology_plan_def endpoint_plan_def endpoints_def comp_def)

text \<open>
  Every message the services publish reaches exactly one main queue, the one of the
  endpoint whose consumer handles that routing key: nothing published to the two exchanges is
  dropped by the broker or delivered twice, under any retry policy.
\<close>

theorem published_keys_are_routed:
  "routes_to retry EventsExchange RoutingKeyReleaseDetected = [MainQ (Queues NotificationsEndpoint)]
   \<and> routes_to retry EventsExchange RoutingKeyRepositoryMoved = [MainQ (Queues NotificationsEndpoint)]
   \<and> routes_to retry EventsExchange RoutingKeySubscriptionCreated
       = [MainQ (Queues NotificationsEndpoint)]
   \<and> routes_to retry EventsExchange RoutingKeyVerificationDelivered
       = [MainQ (Queues OnboardingSagaEndpoint)]
   \<and> routes_to retry EventsExchange RoutingKeyVerificationFailed
       = [MainQ (Queues OnboardingSagaEndpoint)]
   \<and> routes_to retry CommandsExchange RoutingKeyEmailSend = [MainQ (Queues CommandsEndpoint)]"
  by (simp add: routes_to_endpoints endpoints_def endpoint_defs routing_keys
      EventsExchange_def CommandsExchange_def)

end
