(* ===== verification/Amqp.thy ===== *)
theory Amqp
  imports Topology
begin

text \<open>
  The AMQP client the code calls (\<open>amqp091-go\<close>), as a parameter: the records \<open>channel\<close> and
  \<open>Connection\<close> hold the calls, and the locale \<open>amqp_history\<close> states what is assumed of
  them, that a history variable \<open>tr\<close> of the world records the publishes, confirms and
  settlements in the order they were made. Nothing is assumed of which calls fail.
\<close>

section \<open>The interface\<close>

record Delivery =
  Tag :: nat
  Body :: string
  Headers :: "amqp_table option"
  ContentType :: string
  CorrelationId :: string

datatype DeliveryMode = Transient | Persistent

record Publishing =
  pContentType :: string
  pDeliveryMode :: DeliveryMode
  pBody :: string
  pHeaders :: amqp_table
  pCorrelationId :: string

text \<open>What ends the wait for a publisher confirm: a confirmation (\<open>True\<close> for an ack), the
  closed confirms channel, the timer, or the cancelled context with its error.\<close>

datatype confirm_event =
    Confirmation bool
  | ConfirmsClosed
  | ConfirmTimeout
  | ConfirmCtxDone goerror

text \<open>What ends the wait for the next delivery: the cancelled context, a delivery, or the
  closed deliveries channel.\<close>

datatype recv_event =
    RecvCtxDone
  | RecvDelivery Delivery
  | RecvClosed

record 'w channel =
  declaring :: "'w declare_channel"
  chConfirm :: "('w, goerror option) state"
  chPublish :: "string \<Rightarrow> string \<Rightarrow> Publishing \<Rightarrow> ('w, goerror option) state"
  awaitConfirm :: "('w, confirm_event) state"
  chQos :: "int \<Rightarrow> int \<Rightarrow> bool \<Rightarrow> ('w, goerror option) state"
  chConsume :: "string \<Rightarrow> string \<Rightarrow> bool \<Rightarrow> bool \<Rightarrow> bool \<Rightarrow> bool \<Rightarrow> amqp_table
                  \<Rightarrow> ('w, goerror option) state"
  chRecv :: "('w, recv_event) state"
  chClose :: "('w, goerror option) state"

record 'w Connection =
  Channel :: "('w, goerror + 'w channel) state"
  dAck :: "Delivery \<Rightarrow> bool \<Rightarrow> ('w, goerror option) state"
  dNack :: "Delivery \<Rightarrow> bool \<Rightarrow> bool \<Rightarrow> ('w, goerror option) state"

section \<open>The history\<close>

datatype amqp_event =
    EvPublish string string Publishing
  | EvConfirm confirm_event
  | EvAck nat
  | EvNack nat bool

text \<open>A call appends its event (a failed one may or may not have reached the broker, so it
  too is recorded), and any other call leaves the history as it is.\<close>

definition channel_ok :: "('w \<Rightarrow> amqp_event list) \<Rightarrow> 'w channel \<Rightarrow> bool" where
  "channel_ok tr ch \<longleftrightarrow>
     (\<forall>w r w'. run (chConfirm ch) w = (r, w') \<longrightarrow> tr w' = tr w)
   \<and> (\<forall>ex rk p w r w'. run (chPublish ch ex rk p) w = (r, w')
        \<longrightarrow> tr w' = tr w @ [EvPublish ex rk p])
   \<and> (\<forall>w c w'. run (awaitConfirm ch) w = (c, w') \<longrightarrow> tr w' = tr w @ [EvConfirm c])
   \<and> (\<forall>w r w'. run (chClose ch) w = (r, w') \<longrightarrow> tr w' = tr w)"

locale amqp_history =
  fixes C :: "'w Connection" and tr :: "'w \<Rightarrow> amqp_event list"
  assumes channel_tr: "\<And>w r w'. run (Channel C) w = (r, w') \<Longrightarrow> tr w' = tr w"
    and channel_opened: "\<And>w ch w'. run (Channel C) w = (Inr ch, w') \<Longrightarrow> channel_ok tr ch"
    and ack_tr: "\<And>d m w r w'. run (dAck C d m) w = (r, w') \<Longrightarrow> tr w' = tr w @ [EvAck (Tag d)]"
    and nack_tr: "\<And>d m rq w r w'. run (dNack C d m rq) w = (r, w')
      \<Longrightarrow> tr w' = tr w @ [EvNack (Tag d) rq]"

lemma channel_okD:
  assumes "channel_ok tr ch"
  shows "run (chConfirm ch) w = (r, w') \<Longrightarrow> tr w' = tr w"
    and "run (chPublish ch ex rk p) w = (r, w') \<Longrightarrow> tr w' = tr w @ [EvPublish ex rk p]"
    and "run (awaitConfirm ch) w = (c, w') \<Longrightarrow> tr w' = tr w @ [EvConfirm c]"
    and "run (chClose ch) w = (r, w') \<Longrightarrow> tr w' = tr w"
  using assms unfolding channel_ok_def by blast+

section \<open>An in-memory broker\<close>

text \<open>
  A concrete client for the theorems' witnesses: it records the history and takes from a
  schedule whether the next call fails (\<open>True\<close>); an exhausted schedule fails no call.
\<close>

record mem_broker =
  hist :: "amqp_event list"
  schedule :: "bool list"

definition next_call :: "(mem_broker, bool) state" where
  "next_call = State (\<lambda>w. case schedule w of
     [] \<Rightarrow> (False, w) | b # bs \<Rightarrow> (b, w\<lparr>schedule := bs\<rparr>))"

definition record_event :: "amqp_event \<Rightarrow> (mem_broker, unit) state" where
  "record_event ev = State (\<lambda>w. ((), w\<lparr>hist := hist w @ [ev]\<rparr>))"

definition mem_result :: "(mem_broker, goerror option) state" where
  "mem_result = do { fails \<leftarrow> next_call; ret (if fails then Some (Err ''broker'') else None) }"

definition mem_channel :: "mem_broker channel" where
  "mem_channel =
     \<lparr>declaring = \<lparr>ExchangeDeclare = (\<lambda>_ _ _ _ _ _ _. mem_result),
                   QueueDeclare = (\<lambda>_ _ _ _ _ _. mem_result),
                   QueueBind = (\<lambda>_ _ _ _ _. mem_result)\<rparr>,
      chConfirm = mem_result,
      chPublish = (\<lambda>ex rk p. do { record_event (EvPublish ex rk p); mem_result }),
      awaitConfirm = do {
        fails \<leftarrow> next_call;
        let ev = (if fails then ConfirmTimeout else Confirmation True);
        record_event (EvConfirm ev);
        ret ev },
      chQos = (\<lambda>_ _ _. mem_result),
      chConsume = (\<lambda>_ _ _ _ _ _ _. mem_result),
      chRecv = do { fails \<leftarrow> next_call; ret (if fails then RecvClosed else RecvCtxDone) },
      chClose = mem_result\<rparr>"

definition mem_conn :: "mem_broker Connection" where
  "mem_conn =
     \<lparr>Channel = do { fails \<leftarrow> next_call;
                     ret (if fails then Inl (Err ''not connected'') else Inr mem_channel) },
      dAck = (\<lambda>d _. do { record_event (EvAck (Tag d)); mem_result }),
      dNack = (\<lambda>d _ rq. do { record_event (EvNack (Tag d) rq); mem_result })\<rparr>"

lemma mem_result_hist: "run mem_result w = (r, w') \<Longrightarrow> hist w' = hist w"
  by (auto simp: mem_result_def next_call_def split: list.splits)

lemma mem_channel_ok: "channel_ok hist mem_channel"
  by (auto simp: channel_ok_def mem_channel_def record_event_def next_call_def Let_def
      dest!: mem_result_hist split: list.splits)

interpretation mem_amqp: amqp_history mem_conn hist
  by unfold_locales
     (auto simp: mem_conn_def record_event_def next_call_def mem_channel_ok
      dest!: mem_result_hist split: list.splits if_splits)

end
