(* ===== verification/Consumer.thy ===== *)
theory Consumer
  imports Amqp
begin

text \<open>
  \<open>internal/infra/rabbitmq/consumer.go\<close>: a consumer settles each delivery by \<open>Ack\<close>,
  \<open>Retry\<close> (republish to the wait queue of the attempt's tier, then ack) or \<open>DeadLetter\<close>
  (republish to the dead-letter queue, then ack); a republish that is not confirmed is
  answered by a requeueing nack. The theorems: a delivery is settled exactly once, it is
  acked only after a confirmed copy is in a queue the topology declares, and the attempt
  counter grows by one per retry until the dead-letter queue is reached.
\<close>

section \<open>Settlers\<close>

record 'w Settler =
  sAck :: "('w, unit) state"
  sRetry :: "string \<Rightarrow> ('w, unit) state"
  sDeadLetter :: "string \<Rightarrow> ('w, unit) state"

type_synonym 'w DeliveryHandler = "string \<Rightarrow> 'w Settler \<Rightarrow> ('w, unit) state"

record 'w Consumer =
  cConn :: "'w Connection"
  cQueues :: QueueSet
  cPrefetch :: int
  cRetry :: RetryPolicy
  cHandler :: "'w DeliveryHandler"

definition NewConsumer ::
  "'w Connection \<Rightarrow> QueueSet \<Rightarrow> int \<Rightarrow> RetryPolicy \<Rightarrow> 'w DeliveryHandler \<Rightarrow> 'w Consumer" where
  "NewConsumer c qs p r h =
     \<lparr>cConn = c, cQueues = qs, cPrefetch = p, cRetry = r, cHandler = h\<rparr>"

section \<open>Settlement\<close>

text \<open>\<open>Consumer.Ack\<close>: the error of the broker call is only logged.\<close>

definition consumer_Ack :: "'w Consumer \<Rightarrow> Delivery \<Rightarrow> ('w, unit) state" where
  "consumer_Ack c d = do { dAck (cConn c) d False; ret () }"

definition attempts :: "Delivery \<Rightarrow> int64" where
  "attempts d =
     (case Headers d of
        None \<Rightarrow> 0
      | Some h \<Rightarrow>
          (case h HeaderAttempts of
             Some (TInt32 val) \<Rightarrow> signed val
           | Some (TInt64 val) \<Rightarrow> val
           | _ \<Rightarrow> 0))"

definition publishConfirmed ::
  "'w channel \<Rightarrow> string \<Rightarrow> Publishing \<Rightarrow> ('w, goerror option) state" where
  "publishConfirmed ch queue pub =
     and_then (wrapping ''enable confirms: '' (chConfirm ch))
     (and_then (wrapping ''publish: '' (chPublish ch '''' queue pub))
       (do { ev \<leftarrow> awaitConfirm ch;
             ret (case ev of
                    ConfirmsClosed \<Rightarrow> Some (Err ''confirms channel closed'')
                  | Confirmation ok \<Rightarrow>
                      if \<not> ok then Some (Err (''nack received for queue '' @ queue)) else None
                  | ConfirmTimeout \<Rightarrow> Some (Err (''confirm timeout for queue '' @ queue))
                  | ConfirmCtxDone e \<Rightarrow> Some e) }))"

definition nackRequeue :: "'w Consumer \<Rightarrow> Delivery \<Rightarrow> ('w, unit) state" where
  "nackRequeue c d = do { dNack (cConn c) d False True; ret () }"

text \<open>\<open>maps.Copy(headers, d.Headers)\<close> into a fresh table.\<close>

definition copied_headers :: "Delivery \<Rightarrow> amqp_table" where
  "copied_headers d = (case Headers d of None \<Rightarrow> Map.empty | Some h \<Rightarrow> h)"

text \<open>The deferred \<open>ch.Close()\<close> of the two republishing settlements runs on every path after
  the channel was opened; its error is only logged.\<close>

definition consumer_DeadLetter :: "'w Consumer \<Rightarrow> Delivery \<Rightarrow> string \<Rightarrow> ('w, unit) state" where
  "consumer_DeadLetter c d reason = do {
     opened \<leftarrow> Channel (cConn c);
     case opened of
       Inl err \<Rightarrow> nackRequeue c d
     | Inr ch \<Rightarrow> do {
         let headers = (copied_headers d)(HeaderDLQReason \<mapsto> TStr reason);
         let pub = \<lparr>pContentType = ContentType d, pDeliveryMode = Persistent, pBody = Body d,
                    pHeaders = headers, pCorrelationId = ''''\<rparr>;
         pubErr \<leftarrow> publishConfirmed ch (DLQ (cQueues c)) pub;
         (case pubErr of
            Some e \<Rightarrow> nackRequeue c d
          | None \<Rightarrow> do { ackErr \<leftarrow> dAck (cConn c) d False; ret () });
         closeErr \<leftarrow> chClose ch;
         ret () } }"

definition consumer_Retry :: "'w Consumer \<Rightarrow> Delivery \<Rightarrow> string \<Rightarrow> ('w, unit) state" where
  "consumer_Retry c d reason =
     (let att = attempts d + 1 in
      if sint (Tiers (cRetry c)) < sint att
      then consumer_DeadLetter c d (''max retry attempts exceeded: '' @ reason)
      else let tierQueue = retryQueueName (RetryQ (cQueues c)) (sint (att - 1)) in do {
        opened \<leftarrow> Channel (cConn c);
        case opened of
          Inl err \<Rightarrow> nackRequeue c d
        | Inr ch \<Rightarrow> do {
            let headers = (copied_headers d)(HeaderAttempts \<mapsto> TInt64 att);
            let pub = \<lparr>pContentType = ContentType d, pDeliveryMode = Persistent,
                       pBody = Body d, pHeaders = headers,
                       pCorrelationId = CorrelationId d\<rparr>;
            pubErr \<leftarrow> publishConfirmed ch tierQueue pub;
            (case pubErr of
               Some e \<Rightarrow> nackRequeue c d
             | None \<Rightarrow> do { ackErr \<leftarrow> dAck (cConn c) d False; ret () });
            closeErr \<leftarrow> chClose ch;
            ret () } })"

text \<open>The settler handed to a handler binds a delivery to its consumer.\<close>

definition settler_of :: "'w Consumer \<Rightarrow> Delivery \<Rightarrow> 'w Settler" where
  "settler_of c d =
     \<lparr>sAck = consumer_Ack c d,
      sRetry = consumer_Retry c d,
      sDeadLetter = consumer_DeadLetter c d\<rparr>"

text \<open>A settlement as a value, and the call of the settler that performs it.\<close>

datatype settle_action = ActAck | ActRetry string | ActDeadLetter string

fun settle_with :: "'w Settler \<Rightarrow> settle_action \<Rightarrow> ('w, unit) state" where
  "settle_with s ActAck = sAck s"
| "settle_with s (ActRetry reason) = sRetry s reason"
| "settle_with s (ActDeadLetter reason) = sDeadLetter s reason"

section \<open>What a settlement does to the broker\<close>

text \<open>The events of a republish-and-ack to a queue: nothing sent, sent without a positive
  confirm, or sent and confirmed; the delivery is acked in the last case only.\<close>

definition republish_events :: "nat \<Rightarrow> string \<Rightarrow> Publishing \<Rightarrow> amqp_event list set" where
  "republish_events tag q pub =
     {[EvNack tag True], [EvPublish '''' q pub, EvNack tag True]}
     \<union> {[EvPublish '''' q pub, EvConfirm ev, EvNack tag True] | ev. ev \<noteq> Confirmation True}
     \<union> {[EvPublish '''' q pub, EvConfirm (Confirmation True), EvAck tag]}"

definition dead_letter_copy :: "Delivery \<Rightarrow> string \<Rightarrow> Publishing" where
  "dead_letter_copy d reason =
     \<lparr>pContentType = ContentType d, pDeliveryMode = Persistent, pBody = Body d,
      pHeaders = (copied_headers d)(HeaderDLQReason \<mapsto> TStr reason), pCorrelationId = ''''\<rparr>"

definition retry_copy :: "Delivery \<Rightarrow> Publishing" where
  "retry_copy d =
     \<lparr>pContentType = ContentType d, pDeliveryMode = Persistent, pBody = Body d,
      pHeaders = (copied_headers d)(HeaderAttempts \<mapsto> TInt64 (attempts d + 1)),
      pCorrelationId = CorrelationId d\<rparr>"

text \<open>The common tail of \<open>Retry\<close> and \<open>DeadLetter\<close>.\<close>

definition republish_then_ack ::
  "'w Connection \<Rightarrow> 'w channel \<Rightarrow> Delivery \<Rightarrow> string \<Rightarrow> Publishing \<Rightarrow> ('w, unit) state" where
  "republish_then_ack C ch d queue pub = do {
     pubErr \<leftarrow> publishConfirmed ch queue pub;
     (case pubErr of
        Some e \<Rightarrow> do { dNack C d False True; ret () }
      | None \<Rightarrow> do { ackErr \<leftarrow> dAck C d False; ret () });
     closeErr \<leftarrow> chClose ch;
     ret () }"

lemma consumer_DeadLetter_tail:
  "consumer_DeadLetter c d reason = do {
     opened \<leftarrow> Channel (cConn c);
     case opened of
       Inl err \<Rightarrow> nackRequeue c d
     | Inr ch \<Rightarrow> republish_then_ack (cConn c) ch d (DLQ (cQueues c)) (dead_letter_copy d reason) }"
  by (simp add: consumer_DeadLetter_def republish_then_ack_def dead_letter_copy_def
      nackRequeue_def Let_def cong: sum.case_cong option.case_cong)

lemma consumer_Retry_tail:
  "consumer_Retry c d reason =
     (if sint (Tiers (cRetry c)) < sint (attempts d + 1)
      then consumer_DeadLetter c d (''max retry attempts exceeded: '' @ reason)
      else do {
        opened \<leftarrow> Channel (cConn c);
        case opened of
          Inl err \<Rightarrow> nackRequeue c d
        | Inr ch \<Rightarrow> republish_then_ack (cConn c) ch d
            (retryQueueName (RetryQ (cQueues c)) (sint (attempts d))) (retry_copy d) })"
  by (simp add: consumer_Retry_def republish_then_ack_def retry_copy_def nackRequeue_def Let_def
      cong: sum.case_cong option.case_cong)

context amqp_history begin

lemma publishConfirmed_tr:
  assumes ok: "channel_ok tr ch" and run: "run (publishConfirmed ch q pub) w = (r, w')"
  shows "\<exists>es. tr w' = tr w @ es
     \<and> (if r = None then es = [EvPublish '''' q pub, EvConfirm (Confirmation True)]
        else es = [] \<or> es = [EvPublish '''' q pub]
           \<or> (\<exists>ev. ev \<noteq> Confirmation True \<and> es = [EvPublish '''' q pub, EvConfirm ev]))"
  using run channel_okD[OF ok]
  by (fastforce simp: publishConfirmed_def and_then_def wrapping_def
      split: prod.splits option.splits confirm_event.splits if_splits)

lemma republish_tr:
  assumes ok: "channel_ok tr ch" and run: "run (republish_then_ack C ch d q pub) w = (r, w')"
  shows "\<exists>es \<in> republish_events (Tag d) q pub. tr w' = tr w @ es"
proof -
  obtain e w1 where 1: "run (publishConfirmed ch q pub) w = (e, w1)"
    by (cases "run (publishConfirmed ch q pub) w") auto
  obtain w2 where 2: "run (case e of
        Some e \<Rightarrow> do { dNack C d False True; ret () }
      | None \<Rightarrow> do { ackErr \<leftarrow> dAck C d False; ret () }) w1 = ((), w2)"
    by (metis old.unit.exhaust surj_pair)
  have 3: "tr w' = tr w2"
    using run 1 2 channel_okD(4)[OF ok]
    by (auto simp: republish_then_ack_def split: prod.splits)
  have "tr w2 = tr w1 @ (if e = None then [EvAck (Tag d)] else [EvNack (Tag d) True])"
    using 2 ack_tr nack_tr by (auto split: prod.splits option.splits)
  then show ?thesis
    using publishConfirmed_tr[OF ok 1] 3 by (fastforce simp: republish_events_def)
qed

lemma nackRequeue_tr:
  "cConn c = C \<Longrightarrow> run (nackRequeue c d) w = (r, w') \<Longrightarrow> tr w' = tr w @ [EvNack (Tag d) True]"
  using nack_tr by (auto simp: nackRequeue_def split: prod.splits)

text \<open>Opening the channel fails, or the tail runs on the opened one.\<close>

lemma opened_republish_tr:
  assumes "cConn c = C" and "run (do {
       opened \<leftarrow> Channel (cConn c);
       case opened of
         Inl err \<Rightarrow> nackRequeue c d
       | Inr ch \<Rightarrow> republish_then_ack (cConn c) ch d q pub }) w = (r, w')"
  shows "\<exists>es \<in> republish_events (Tag d) q pub. tr w' = tr w @ es"
proof -
  obtain o1 w1 where 1: "run (Channel C) w = (o1, w1)"
    by (cases "run (Channel C) w") auto
  show ?thesis
  proof (cases o1)
    case (Inl err)
    then have "run (nackRequeue c d) w1 = (r, w')" using assms 1 by simp
    from nackRequeue_tr[OF assms(1) this] channel_tr[OF 1] show ?thesis
      by (auto simp: republish_events_def)
  next
    case (Inr ch)
    then have "run (republish_then_ack C ch d q pub) w1 = (r, w')" using assms 1 by simp
    from republish_tr[OF _ this] channel_opened channel_tr[OF 1] 1 Inr show ?thesis by auto
  qed
qed

lemma DeadLetter_tr:
  assumes "cConn c = C" and "run (consumer_DeadLetter c d reason) w = (r, w')"
  shows "\<exists>es \<in> republish_events (Tag d) (DLQ (cQueues c)) (dead_letter_copy d reason).
           tr w' = tr w @ es"
  by (rule opened_republish_tr[OF assms(1)])
     (use assms(2) in \<open>simp only: consumer_DeadLetter_tail\<close>)

lemma Retry_tr:
  assumes "cConn c = C" and "sint (attempts d + 1) \<le> sint (Tiers (cRetry c))"
    and "run (consumer_Retry c d reason) w = (r, w')"
  shows "\<exists>es \<in> republish_events (Tag d)
                 (retryQueueName (RetryQ (cQueues c)) (sint (attempts d))) (retry_copy d).
           tr w' = tr w @ es"
  by (rule opened_republish_tr[OF assms(1)])
     (use assms(2,3) in \<open>simp only: consumer_Retry_tail not_less[symmetric] if_False\<close>)

lemma Ack_tr:
  "cConn c = C \<Longrightarrow> run (consumer_Ack c d) w = (r, w') \<Longrightarrow> tr w' = tr w @ [EvAck (Tag d)]"
  using ack_tr by (auto simp: consumer_Ack_def split: prod.splits)

end

section \<open>Settlement is safe\<close>

fun settlement :: "amqp_event \<Rightarrow> bool" where
  "settlement (EvAck _) = True"
| "settlement (EvNack _ _) = True"
| "settlement _ = False"

text \<open>The events of one safe settlement of a delivery: settled once, and acked only right
  after a positively confirmed copy of its body went to one of the queues \<open>qs\<close>; otherwise
  requeued.\<close>

definition safe_settlement :: "Delivery \<Rightarrow> string set \<Rightarrow> amqp_event list \<Rightarrow> bool" where
  "safe_settlement d qs es \<longleftrightarrow>
     length (filter settlement es) = 1
   \<and> (last es = EvNack (Tag d) True
      \<or> (\<exists>q \<in> qs. \<exists>pub. pBody pub = Body d \<and> pDeliveryMode pub = Persistent
           \<and> es = [EvPublish '''' q pub, EvConfirm (Confirmation True), EvAck (Tag d)]))"

lemma republish_safe:
  "es \<in> republish_events (Tag d) q pub \<Longrightarrow> q \<in> qs \<Longrightarrow> pBody pub = Body d
    \<Longrightarrow> pDeliveryMode pub = Persistent \<Longrightarrow> safe_settlement d qs es"
  by (auto simp: republish_events_def safe_settlement_def)

lemma sint_succ:
  assumes "sint (a :: int64) < 2 ^ 63 - 1"
  shows "sint (a + 1) = sint a + 1"
proof -
  have "int64_in_range (sint a + 1)"
    using sint_ge[of a] assms by (simp add: int64_in_range_def)
  moreover have "a + 1 = word_of_int (sint a + 1)" by simp
  ultimately show ?thesis by (metis sint_word_of_int64)
qed

text \<open>The wait queue \<open>Retry\<close> uses exists in every topology of the same policy.\<close>

lemma retry_queue_declared:
  assumes "ep \<in> set endpoints" and "cQueues c = Queues ep"
    and "0 \<le> sint (attempts d)" and "sint (attempts d) < 2 ^ 63 - 1"
    and "sint (attempts d + 1) \<le> sint (Tiers (cRetry c))"
  shows "retryQueueName (RetryQ (cQueues c)) (sint (attempts d)) \<in> set (declared_queues (cRetry c))"
  using assms sint_succ[of "attempts d"]
  by (force simp: declared_queues_eq queue_set_queues_def tier_queues_iff)

lemma dlq_declared:
  "ep \<in> set endpoints \<Longrightarrow> cQueues c = Queues ep
    \<Longrightarrow> DLQ (cQueues c) \<in> set (declared_queues (cRetry c))"
  by (auto simp: declared_queues_eq queue_set_queues_def)

text \<open>
  C5: Neither \<open>Retry\<close> nor \<open>DeadLetter\<close> can lose a message: whatever calls fail, the delivery is
  settled exactly once, and it is acked only after the broker confirmed a persistent copy of
  its body in a queue that the topology declares for the same policy; in every other case it
  is requeued.
\<close>

theorem settlement_loses_nothing:
  assumes "amqp_history (cConn c) tr"
    and "ep \<in> set endpoints" and "cQueues c = Queues ep"
    and "0 \<le> sint (attempts d)" and "sint (attempts d) < 2 ^ 63 - 1"
    and "m = sRetry (settler_of c d) reason \<or> m = sDeadLetter (settler_of c d) reason"
    and "run m w = (r, w')"
  shows "\<exists>es. tr w' = tr w @ es \<and> safe_settlement d (set (declared_queues (cRetry c))) es"
proof -
  have dl: ?thesis if "run (consumer_DeadLetter c d rs) w = (r, w')" for rs
    using amqp_history.DeadLetter_tr[OF assms(1) refl that] dlq_declared[OF assms(2,3)]
    by (auto simp: dead_letter_copy_def intro!: republish_safe)
  show ?thesis
  proof (cases "m = sDeadLetter (settler_of c d) reason
      \<or> sint (Tiers (cRetry c)) < sint (attempts d + 1)")
    case True
    then show ?thesis
      using assms(6,7) dl by (auto simp: settler_of_def consumer_Retry_tail)
  next
    case False
    then have le: "sint (attempts d + 1) \<le> sint (Tiers (cRetry c))"
      and "run (consumer_Retry c d reason) w = (r, w')"
      using assms(6,7) by (auto simp: settler_of_def)
    from amqp_history.Retry_tr[OF assms(1) refl this] show ?thesis
      using retry_queue_declared[OF assms(2-5) le]
      by (auto simp: retry_copy_def intro!: republish_safe)
  qed
qed

section \<open>The attempt counter\<close>

text \<open>The copy \<open>Retry\<close> publishes, as the broker delivers it again after the wait.\<close>

definition redelivered :: "nat \<Rightarrow> Delivery \<Rightarrow> Delivery" where
  "redelivered tag d =
     \<lparr>Tag = tag, Body = pBody (retry_copy d), Headers = Some (pHeaders (retry_copy d)),
      ContentType = pContentType (retry_copy d), CorrelationId = pCorrelationId (retry_copy d)\<rparr>"

lemma attempts_redelivered [simp]: "attempts (redelivered tag d) = attempts d + 1"
  by (simp add: attempts_def redelivered_def retry_copy_def)

fun after_retries :: "nat \<Rightarrow> Delivery \<Rightarrow> Delivery" where
  "after_retries 0 d = d"
| "after_retries (Suc n) d = redelivered n (after_retries n d)"

lemma attempts_after_retries: "attempts (after_retries n d) = attempts d + of_nat n"
  by (induction n) (simp_all add: algebra_simps)

lemma Body_after_retries [simp]: "Body (after_retries n d) = Body d"
  by (induction n) (simp_all add: redelivered_def retry_copy_def)

lemma attempts_fresh: "Headers d = None \<Longrightarrow> attempts d = 0"
  by (simp add: attempts_def)

lemma sint_of_nat64: "int n < 2 ^ 63 \<Longrightarrow> sint (of_nat n :: int64) = int n"
  using sint_word_of_int64[of "int n"] by (simp add: int64_in_range_def)

text \<open>
  C11: A message enters the wait queues in order and at most \<open>Tiers\<close> times: its \<open>n\<close>-th failure
  (from 0) is published to tier \<open>n\<close> with \<open>x-attempts = n + 1\<close>, and the failure after the
  last tier to the dead-letter queue with its reason.
\<close>

theorem retries_are_bounded:
  assumes "amqp_history (cConn c) tr"
    and "Headers d = None" and "int n \<le> sint (Tiers (cRetry c))"
    and "sint (Tiers (cRetry c)) < 2 ^ 63 - 1"
    and "run (sRetry (settler_of c (after_retries n d)) reason) w = (r, w')"
  shows "\<exists>es. tr w' = tr w @ es \<and> (\<forall>q pub. EvPublish '''' q pub \<in> set es \<longrightarrow>
     (if int n < sint (Tiers (cRetry c))
      then q = retryQueueName (RetryQ (cQueues c)) (int n)
         \<and> pHeaders pub HeaderAttempts = Some (TInt64 (of_nat (n + 1)))
      else q = DLQ (cQueues c)
         \<and> pHeaders pub HeaderDLQReason
             = Some (TStr (''max retry attempts exceeded: '' @ reason))))"
proof -
  have n: "int n < 2 ^ 63" using assms(3) sint_lt[of "Tiers (cRetry c)"] by simp
  have a: "attempts (after_retries n d) = of_nat n"
    using assms(2) by (simp add: attempts_after_retries attempts_fresh)
  have run: "run (consumer_Retry c (after_retries n d) reason) w = (r, w')"
    using assms(5) by (simp add: settler_of_def)
  show ?thesis
  proof (cases "int n < sint (Tiers (cRetry c))")
    case True
    then have n1: "int (Suc n) < 2 ^ 63" using sint_lt[of "Tiers (cRetry c)"] by simp
    have "of_nat n + 1 = (of_nat (Suc n) :: int64)" by simp
    then have s: "sint (of_nat n + 1 :: int64) = int n + 1"
      using sint_of_nat64[OF n1] by (simp del: of_nat_Suc)
    with True a have "sint (attempts (after_retries n d) + 1) \<le> sint (Tiers (cRetry c))" by simp
    from amqp_history.Retry_tr[OF assms(1) refl this run] True show ?thesis
      using n by (fastforce simp: republish_events_def retry_copy_def a sint_of_nat64 add.commute)
  next
    case False
    with assms(3) have eq: "int n = sint (Tiers (cRetry c))" by simp
    have "run (consumer_DeadLetter c (after_retries n d)
        (''max retry attempts exceeded: '' @ reason)) w = (r, w')"
      using run a eq n assms(4) sint_succ[of "of_nat n :: int64"]
      by (simp add: consumer_Retry_tail sint_of_nat64)
    from amqp_history.DeadLetter_tr[OF assms(1) refl this] False show ?thesis
      by (fastforce simp: republish_events_def dead_letter_copy_def)
  qed
qed

section \<open>The consuming loop\<close>

text \<open>
  \<open>consume\<close> and \<open>Start\<close> run until the context is cancelled, so both take fuel, the number of
  channel receives (of restarts) to unroll; \<open>None\<close> is a loop that is still running.
\<close>

fun deliver_loop :: "nat \<Rightarrow> 'w Consumer \<Rightarrow> 'w channel \<Rightarrow> ('w, goerror option option) state" where
  "deliver_loop 0 c ch = ret None"
| "deliver_loop (Suc n) c ch = do {
     ev \<leftarrow> chRecv ch;
     case ev of
       RecvCtxDone \<Rightarrow> ret (Some None)
     | RecvClosed \<Rightarrow> ret (Some (Some (Err ''deliveries channel closed'')))
     | RecvDelivery d \<Rightarrow> do {
         cHandler c (Body d) (settler_of c d);
         deliver_loop n c ch } }"

definition consumer_consume :: "nat \<Rightarrow> 'w Consumer \<Rightarrow> ('w, goerror option option) state" where
  "consumer_consume fuel c = do {
     opened \<leftarrow> Channel (cConn c);
     case opened of
       Inl e \<Rightarrow> ret (Some (Some (Err (''open channel: '' @ err_text e))))
     | Inr ch \<Rightarrow> do {
         started \<leftarrow> and_then (wrapping ''set QoS: '' (chQos ch (cPrefetch c) 0 False))
                      (wrapping ''start consuming: ''
                        (chConsume ch (MainQ (cQueues c)) '''' False False False False Map.empty));
         result \<leftarrow> (case started of
                     Some e \<Rightarrow> ret (Some (Some e))
                   | None \<Rightarrow> deliver_loop fuel c ch);
         (case result of
            None \<Rightarrow> ret ()
          | Some _ \<Rightarrow> do { closeErr \<leftarrow> chClose ch; ret () });
         ret result } }"

text \<open>\<open>ctxErr\<close> is \<open>ctx.Err() != nil\<close>; \<open>True\<close> as the result is a return.\<close>

fun consumer_Start :: "nat \<Rightarrow> nat \<Rightarrow> ('w, bool) state \<Rightarrow> 'w Consumer \<Rightarrow> ('w, bool) state" where
  "consumer_Start 0 fuel ctxErr c = ret False"
| "consumer_Start (Suc n) fuel ctxErr c = do {
     done \<leftarrow> ctxErr;
     if done then ret True
     else do {
       err \<leftarrow> consumer_consume fuel c;
       case err of
         None \<Rightarrow> ret False
       | Some _ \<Rightarrow> consumer_Start n fuel ctxErr c } }"

section \<open>The theorems at work\<close>

definition sample_consumer :: "mem_broker Consumer" where
  "sample_consumer =
     NewConsumer mem_conn (Queues CommandsEndpoint) 1 (NewRetryPolicy 1000000000 2 3)
       (\<lambda>body s. sAck s)"

definition sample_delivery :: Delivery where
  "sample_delivery = \<lparr>Tag = 7, Body = ''{}'', Headers = None,
     ContentType = ''application/json'', CorrelationId = ''c''\<rparr>"

lemma sample_consumer_simps [simp]:
  "cConn sample_consumer = mem_conn"
  "cQueues sample_consumer = Queues CommandsEndpoint"
  "sint (Tiers (cRetry sample_consumer)) = 3"
  "Headers sample_delivery = None"
  "attempts sample_delivery = 0"
  by (simp_all add: sample_consumer_def NewConsumer_def NewRetryPolicy_def Let_def
      sample_delivery_def attempts_def)

theorem settlement_loses_nothing_witness:
  "\<exists>es. hist (snd (run (sRetry (settler_of sample_consumer sample_delivery) ''smtp'')
                    \<lparr>hist = [], schedule = [False, False, False, True]\<rparr>)) = [] @ es
     \<and> safe_settlement sample_delivery (set (declared_queues (cRetry sample_consumer))) es"
  using settlement_loses_nothing[of sample_consumer hist CommandsEndpoint sample_delivery
      "sRetry (settler_of sample_consumer sample_delivery) ''smtp''" "''smtp''"
      "\<lparr>hist = [], schedule = [False, False, False, True]\<rparr>", OF _ _ _ _ _ _ surjective_pairing]
    mem_amqp.amqp_history_axioms
  by (simp add: endpoints_def)

theorem retries_are_bounded_witness:
  "\<exists>es. hist (snd (run (sRetry (settler_of sample_consumer (after_retries 2 sample_delivery)) ''smtp'')
                    \<lparr>hist = [], schedule = []\<rparr>)) = [] @ es
     \<and> (\<forall>q pub. EvPublish '''' q pub \<in> set es \<longrightarrow>
          q = retryQueueName (RetryQ (cQueues sample_consumer)) 2
          \<and> pHeaders pub HeaderAttempts = Some (TInt64 3))"
  using retries_are_bounded[of sample_consumer hist sample_delivery 2 "''smtp''"
      "\<lparr>hist = [], schedule = []\<rparr>", OF _ _ _ _ surjective_pairing]
    mem_amqp.amqp_history_axioms
  by simp

end
