(* ===== verification/Json.thy ===== *)
theory Json
  imports Go_Strings
begin

text \<open>
  What the code uses of \<open>encoding/json\<close>: documents, \<open>Marshal\<close>'s compact text with its HTML
  escapes, the parser behind \<open>Unmarshal\<close>, and the decoding of an object into the string
  fields of a struct (case-insensitive keys, \<open>null\<close> as a no-op, the last duplicate wins).
  The main theorem is the round trip \<open>json_parse_print\<close>. A number is kept as its literal
  text. Bytes from 0x80 up are copied as they are, which is \<open>Marshal\<close> on valid UTF-8 up to
  the escapes of U+2028 and U+2029; the parser's nesting limit is not modelled.
\<close>

datatype json =
    JNull
  | JBool bool
  | JNum string
  | JStr string
  | JArr "json list"
  | JObj "(string \<times> json) list"

section \<open>Printing\<close>

definition json_escape :: "char \<Rightarrow> string" where
  "json_escape c =
     (if c = CHR 0x22 then [CHR 0x5C, CHR 0x22]
      else if c = CHR 0x5C then [CHR 0x5C, CHR 0x5C]
      else if c = CHR 0x08 then [CHR 0x5C, CHR ''b'']
      else if c = CHR 0x0C then [CHR 0x5C, CHR ''f'']
      else if c = CHR 0x0A then [CHR 0x5C, CHR ''n'']
      else if c = CHR 0x0D then [CHR 0x5C, CHR ''r'']
      else if c = CHR 0x09 then [CHR 0x5C, CHR ''t'']
      else if (of_char c :: nat) < 0x20 \<or> c \<in> {CHR ''<'', CHR ''>'', CHR ''&''}
      then [CHR 0x5C, CHR ''u'', CHR ''0'', CHR ''0'',
            hex_digit (of_char c div 16), hex_digit (of_char c mod 16)]
      else [c])"

definition json_quote :: "string \<Rightarrow> string" where
  "json_quote s = CHR 0x22 # concat (map json_escape s) @ [CHR 0x22]"

fun sep_by :: "string \<Rightarrow> string list \<Rightarrow> string" where
  "sep_by sep [] = []"
| "sep_by sep [x] = x"
| "sep_by sep (x # y # xs) = x @ sep @ sep_by sep (y # xs)"

fun json_print :: "json \<Rightarrow> string" where
  "json_print JNull = ''null''"
| "json_print (JBool b) = (if b then ''true'' else ''false'')"
| "json_print (JNum s) = s"
| "json_print (JStr s) = json_quote s"
| "json_print (JArr js) = ''['' @ sep_by '','' (map json_print js) @ '']''"
| "json_print (JObj kvs) =
     ''{'' @ sep_by '','' (map (\<lambda>(k, v). json_quote k @ '':'' @ json_print v) kvs) @ ''}''"

section \<open>Parsing\<close>

definition is_ws :: "char \<Rightarrow> bool" where
  "is_ws c = (c \<in> {CHR '' '', CHR 0x09, CHR 0x0A, CHR 0x0D})"

definition skip_ws :: "string \<Rightarrow> string" where
  "skip_ws s = dropWhile is_ws s"

text \<open>UTF-8 of a code point; a surrogate half that is not paired is U+FFFD.\<close>

definition utf8 :: "nat \<Rightarrow> string" where
  "utf8 v =
     (if v < 0x80 then [char_of v]
      else if v < 0x800 then map char_of [0xC0 + v div 64, 0x80 + v mod 64]
      else if 0xD800 \<le> v \<and> v < 0xE000 then map char_of [0xEF, 0xBF, 0xBD :: nat]
      else if v < 0x10000
      then map char_of [0xE0 + v div 4096, 0x80 + v div 64 mod 64, 0x80 + v mod 64]
      else map char_of [0xF0 + v div 262144, 0x80 + v div 4096 mod 64,
                        0x80 + v div 64 mod 64, 0x80 + v mod 64])"

definition hex4 :: "string \<Rightarrow> (nat \<times> string) option" where
  "hex4 s = (case s of
     a # b # c # d # r \<Rightarrow>
       (case (hex_val a, hex_val b, hex_val c, hex_val d) of
          (Some a, Some b, Some c, Some d) \<Rightarrow> Some (4096 * a + 256 * b + 16 * c + d, r)
        | _ \<Rightarrow> None)
   | _ \<Rightarrow> None)"

text \<open>After a backslash-u: the code point's bytes and the rest; a high surrogate takes the
  escaped low surrogate that follows it, if there is one.\<close>

definition unescape_u :: "string \<Rightarrow> (string \<times> string) option" where
  "unescape_u s = (case hex4 s of
     None \<Rightarrow> None
   | Some (v, r) \<Rightarrow>
       (if 0xD800 \<le> v \<and> v < 0xDC00 then
          (case r of
             b # u # r' \<Rightarrow>
               (if b = CHR 0x5C \<and> u = CHR ''u'' then
                  (case hex4 r' of
                     Some (l, r'') \<Rightarrow>
                       (if 0xDC00 \<le> l \<and> l < 0xE000
                        then Some (utf8 (0x10000 + (v - 0xD800) * 1024 + (l - 0xDC00)), r'')
                        else Some (utf8 v, r))
                   | None \<Rightarrow> Some (utf8 v, r))
                else Some (utf8 v, r))
           | _ \<Rightarrow> Some (utf8 v, r))
        else Some (utf8 v, r)))"

definition unescape :: "string \<Rightarrow> (string \<times> string) option" where
  "unescape s = (case s of
     [] \<Rightarrow> None
   | e # r \<Rightarrow>
       if e \<in> {CHR 0x22, CHR 0x5C, CHR ''/''} then Some ([e], r)
       else if e = CHR ''b'' then Some ([CHR 0x08], r)
       else if e = CHR ''f'' then Some ([CHR 0x0C], r)
       else if e = CHR ''n'' then Some ([CHR 0x0A], r)
       else if e = CHR ''r'' then Some ([CHR 0x0D], r)
       else if e = CHR ''t'' then Some ([CHR 0x09], r)
       else if e = CHR ''u'' then unescape_u r
       else None)"

lemma hex4_length: "hex4 s = Some (v, r) \<Longrightarrow> length r < length s"
  by (auto simp: hex4_def split: list.splits option.splits)

lemma unescape_u_length: "unescape_u s = Some (v, r) \<Longrightarrow> length r < length s"
  by (auto simp: unescape_u_def split: list.splits option.splits if_splits dest!: hex4_length)

lemma unescape_length: "unescape s = Some (v, r) \<Longrightarrow> length r < length s"
  by (auto simp: unescape_def split: list.splits if_splits dest!: unescape_u_length)

text \<open>The rest of a string literal after its opening quote.\<close>

function parse_str :: "string \<Rightarrow> (string \<times> string) option" where
  "parse_str s = (case s of
     [] \<Rightarrow> None
   | c # cs \<Rightarrow>
       if c = CHR 0x22 then Some ([], cs)
       else if c = CHR 0x5C then
         (case unescape cs of
            None \<Rightarrow> None
          | Some (a, r) \<Rightarrow> map_option (\<lambda>(t, r'). (a @ t, r')) (parse_str r))
       else if (of_char c :: nat) < 0x20 then None
       else map_option (\<lambda>(t, r). (c # t, r)) (parse_str cs))"
  by pat_completeness auto
termination
  by (relation "measure length") (auto dest!: unescape_length)

declare parse_str.simps [simp del]

definition number_char :: "char \<Rightarrow> bool" where
  "number_char c = (is_digit c \<or> c \<in> {CHR ''-'', CHR ''+'', CHR ''.'', CHR ''e'', CHR ''E''})"

definition drop_digits :: "string \<Rightarrow> string option" where
  "drop_digits s = (if s \<noteq> [] \<and> is_digit (hd s) then Some (dropWhile is_digit s) else None)"

text \<open>A number literal: an optional minus, digits without a leading zero, an optional fraction
  and an optional exponent.\<close>

definition valid_exponent :: "string \<Rightarrow> bool" where
  "valid_exponent s = (case s of
     [] \<Rightarrow> True
   | c # cs \<Rightarrow>
       c \<in> {CHR ''e'', CHR ''E''}
       \<and> drop_digits (case cs of [] \<Rightarrow> []
                      | d # ds \<Rightarrow> if d \<in> {CHR ''+'', CHR ''-''} then ds else cs) = Some [])"

definition valid_fraction :: "string \<Rightarrow> bool" where
  "valid_fraction s = (case s of
     [] \<Rightarrow> True
   | c # cs \<Rightarrow>
       if c = CHR ''.''
       then (case drop_digits cs of None \<Rightarrow> False | Some r \<Rightarrow> valid_exponent r)
       else valid_exponent s)"

definition valid_number :: "string \<Rightarrow> bool" where
  "valid_number s =
     (let t = (case s of [] \<Rightarrow> [] | c # cs \<Rightarrow> if c = CHR ''-'' then cs else s)
      in case t of
           [] \<Rightarrow> False
         | c # cs \<Rightarrow>
             if c = CHR ''0'' then valid_fraction cs
             else (case drop_digits t of None \<Rightarrow> False | Some r \<Rightarrow> valid_fraction r))"

definition parse_word :: "string \<Rightarrow> json \<Rightarrow> string \<Rightarrow> (json \<times> string) option" where
  "parse_word word j s = (if prefix word s then Some (j, drop (length word) s) else None)"

definition parse_number :: "string \<Rightarrow> (json \<times> string) option" where
  "parse_number s =
     (let lit = takeWhile number_char s
      in if valid_number lit then Some (JNum lit, dropWhile number_char s) else None)"

text \<open>The fuel bounds the nesting of calls, each of which consumes input.\<close>

fun parse_value :: "nat \<Rightarrow> string \<Rightarrow> (json \<times> string) option"
and parse_elems :: "nat \<Rightarrow> string \<Rightarrow> (json list \<times> string) option"
and parse_members :: "nat \<Rightarrow> string \<Rightarrow> ((string \<times> json) list \<times> string) option" where
  "parse_value 0 s = None"
| "parse_value (Suc n) s = (case skip_ws s of
     [] \<Rightarrow> None
   | c # cs \<Rightarrow>
       if c = CHR 0x22 then map_option (\<lambda>(t, r). (JStr t, r)) (parse_str cs)
       else if c = CHR ''{'' then
         (case skip_ws cs of
            [] \<Rightarrow> None
          | d # r \<Rightarrow> if d = CHR ''}'' then Some (JObj [], r)
                    else map_option (\<lambda>(m, r'). (JObj m, r')) (parse_members n (d # r)))
       else if c = CHR ''['' then
         (case skip_ws cs of
            [] \<Rightarrow> None
          | d # r \<Rightarrow> if d = CHR '']'' then Some (JArr [], r)
                    else map_option (\<lambda>(m, r'). (JArr m, r')) (parse_elems n (d # r)))
       else if c = CHR ''n'' then parse_word ''null'' JNull (c # cs)
       else if c = CHR ''t'' then parse_word ''true'' (JBool True) (c # cs)
       else if c = CHR ''f'' then parse_word ''false'' (JBool False) (c # cs)
       else parse_number (c # cs))"
| "parse_elems 0 s = None"
| "parse_elems (Suc n) s = (case parse_value n s of
     None \<Rightarrow> None
   | Some (v, r) \<Rightarrow>
       (case skip_ws r of
          [] \<Rightarrow> None
        | d # r' \<Rightarrow> if d = CHR '','' then map_option (\<lambda>(vs, q). (v # vs, q)) (parse_elems n r')
                   else if d = CHR '']'' then Some ([v], r')
                   else None))"
| "parse_members 0 s = None"
| "parse_members (Suc n) s = (case skip_ws s of
     [] \<Rightarrow> None
   | c # cs \<Rightarrow>
       if c \<noteq> CHR 0x22 then None
       else (case parse_str cs of
          None \<Rightarrow> None
        | Some (k, r) \<Rightarrow>
            (case skip_ws r of
               [] \<Rightarrow> None
             | d # r1 \<Rightarrow>
                 if d \<noteq> CHR '':'' then None
                 else (case parse_value n r1 of
                    None \<Rightarrow> None
                  | Some (v, r2) \<Rightarrow>
                      (case skip_ws r2 of
                         [] \<Rightarrow> None
                       | e # r3 \<Rightarrow>
                           if e = CHR '','' then
                             map_option (\<lambda>(m, q). ((k, v) # m, q)) (parse_members n r3)
                           else if e = CHR ''}'' then Some ([(k, v)], r3)
                           else None)))))"

definition json_parse :: "string \<Rightarrow> json option" where
  "json_parse s = (case parse_value (2 * length s + 2) s of
     Some (j, r) \<Rightarrow> if skip_ws r = [] then Some j else None
   | None \<Rightarrow> None)"

section \<open>Parsing what was printed\<close>

fun wf_json :: "json \<Rightarrow> bool" where
  "wf_json (JNum s) = valid_number s"
| "wf_json (JArr js) = list_all wf_json js"
| "wf_json (JObj kvs) = list_all (\<lambda>(k, v). wf_json v) kvs"
| "wf_json _ = True"

lemma parse_escape:
  "parse_str (json_escape c @ s) = map_option (\<lambda>(t, r). (c # t, r)) (parse_str s)"
proof -
  have small: ?thesis
    if "(of_char c :: nat) < 0x20 \<or> c \<in> {CHR ''<'', CHR ''>'', CHR ''&''}"
      and "json_escape c = [CHR 0x5C, CHR ''u'', CHR ''0'', CHR ''0'',
            hex_digit (of_char c div 16), hex_digit (of_char c mod 16)]"
  proof -
    have lt: "(of_char c :: nat) < 0x80" using that(1) by auto
    then have "(of_char c :: nat) div 16 < 16" by simp
    moreover have "hex_val (CHR ''0'') = Some 0" by (simp add: hex_val_def is_digit_def digit_val_def)
    ultimately have "hex4 (CHR ''0'' # CHR ''0'' # hex_digit (of_char c div 16)
        # hex_digit (of_char c mod 16) # s) = Some (of_char c, s)"
      by (simp add: hex4_def)
    with lt that(2) show ?thesis
      by (simp add: parse_str.simps[of "CHR 0x5C # _"] unescape_def unescape_u_def utf8_def)
  qed
  show ?thesis
    using small
    by (auto simp: json_escape_def parse_str.simps[of "CHR 0x5C # _"] parse_str.simps[of "c # _"]
        unescape_def)
qed

lemma parse_quoted: "parse_str (concat (map json_escape s) @ CHR 0x22 # r) = Some (s, r)"
  by (induction s) (simp_all add: parse_escape parse_str.simps[of "CHR 0x22 # _"])

lemma skip_ws_nonws [simp]: "\<not> is_ws c \<Longrightarrow> skip_ws (c # s) = c # s"
  by (simp add: skip_ws_def)

lemma is_ws_punct [simp]:
  "\<not> is_ws (CHR '','')" "\<not> is_ws (CHR '':'')" "\<not> is_ws (CHR ''['')" "\<not> is_ws (CHR '']'')"
  "\<not> is_ws (CHR ''{'')" "\<not> is_ws (CHR ''}'')" "\<not> is_ws (CHR 0x22)"
  "\<not> is_ws (CHR ''n'')" "\<not> is_ws (CHR ''t'')" "\<not> is_ws (CHR ''f'')"
  by (simp_all add: is_ws_def)

lemma digits_number_char: "drop_digits s = Some r \<Longrightarrow> list_all number_char r \<Longrightarrow> list_all number_char s"
proof -
  assume "drop_digits s = Some r" and r: "list_all number_char r"
  then have r_eq: "r = dropWhile is_digit s" by (simp add: drop_digits_def split: if_splits)
  have "list_all number_char (takeWhile is_digit s)"
    by (auto simp: list_all_iff number_char_def dest: set_takeWhileD)
  then show "list_all number_char s"
    using r r_eq by (metis list_all_append takeWhile_dropWhile_id)
qed

lemma valid_exponent_chars: "valid_exponent s \<Longrightarrow> list_all number_char s"
  by (auto simp: valid_exponent_def split: list.splits if_splits
      dest!: digits_number_char[where r = "[]"])
     (simp_all add: number_char_def)

lemma valid_fraction_chars: "valid_fraction s \<Longrightarrow> list_all number_char s"
  by (auto simp: valid_fraction_def split: list.splits if_splits option.splits
      dest!: valid_exponent_chars digits_number_char)
     (simp_all add: number_char_def)

lemma valid_number_chars: "valid_number s \<Longrightarrow> s \<noteq> [] \<and> list_all number_char s"
  by (auto simp: valid_number_def Let_def split: list.splits if_splits option.splits
      dest!: valid_fraction_chars digits_number_char)
     (simp_all add: number_char_def is_digit_def)

lemma valid_number_start:
  assumes "valid_number (c # cs)" shows "c = CHR ''-'' \<or> is_digit c"
  using assms
  by (auto simp: valid_number_def Let_def drop_digits_def is_digit_def
      split: list.splits if_splits option.splits)

lemma number_end:
  assumes "list_all number_char s" and "rest = [] \<or> \<not> number_char (hd rest)"
  shows "takeWhile number_char (s @ rest) = s" and "dropWhile number_char (s @ rest) = rest"
proof -
  have "takeWhile number_char rest = []" and "dropWhile number_char rest = rest"
    using assms(2) by (cases rest; simp)+
  then show "takeWhile number_char (s @ rest) = s" and "dropWhile number_char (s @ rest) = rest"
    using assms(1) by (simp_all add: list_all_iff takeWhile_append2 dropWhile_append2)
qed

text \<open>What may follow a printed value: nothing, or a character that cannot extend a number.\<close>

definition ends_value :: "string \<Rightarrow> bool" where
  "ends_value rest = (rest = [] \<or> \<not> number_char (hd rest))"

lemma ends_value_punct [simp]:
  "ends_value []" "ends_value (CHR '','' # s)" "ends_value (CHR '']'' # s)" "ends_value (CHR ''}'' # s)"
  by (simp_all add: ends_value_def number_char_def is_digit_def)

lemma parse_number_print:
  assumes "valid_number s" and "ends_value rest"
  shows "parse_value (Suc n) (s @ rest) = Some (JNum s, rest)"
proof -
  obtain c cs where s: "s = c # cs" using valid_number_chars[OF assms(1)] by (cases s) auto
  have start: "c = CHR ''-'' \<or> is_digit c" using assms(1) valid_number_start s by blast
  have c: "\<not> is_ws c" "c \<noteq> CHR 0x22" "c \<noteq> CHR ''{''" "c \<noteq> CHR ''[''"
      "c \<noteq> CHR ''n''" "c \<noteq> CHR ''t''" "c \<noteq> CHR ''f''"
    using start by (auto simp: is_ws_def is_digit_def)
  have "parse_number (s @ rest) = Some (JNum s, rest)"
    using number_end[of s rest] assms valid_number_chars[OF assms(1)]
    by (simp add: parse_number_def ends_value_def)
  with c show ?thesis by (simp add: s)
qed

text \<open>No printed value starts with a closing bracket or white space.\<close>

lemma print_start:
  assumes "wf_json j"
  shows "\<exists>c cs. json_print j = c # cs \<and> \<not> is_ws c \<and> c \<noteq> CHR '']'' \<and> c \<noteq> CHR ''}''"
proof (cases j)
  case (JNum s)
  then obtain c cs where s: "s = c # cs" using assms valid_number_chars by (cases s) auto
  then have "c = CHR ''-'' \<or> is_digit c" using assms JNum valid_number_start by auto
  then show ?thesis using s JNum by (auto simp: is_ws_def is_digit_def)
qed (auto simp: json_quote_def)

lemma sep_by_Cons: "xs \<noteq> [] \<Longrightarrow> sep_by sep (x # xs) = x @ sep @ sep_by sep xs"
  by (cases xs) simp_all

text \<open>A printed value is read back, and nothing of what follows it is consumed; the fuel
  needed is bounded by the length of the text.\<close>

definition reads_back :: "json \<Rightarrow> bool" where
  "reads_back j \<longleftrightarrow> (\<forall>n rest. 2 * length (json_print j) < n \<longrightarrow> ends_value rest
     \<longrightarrow> parse_value n (json_print j @ rest) = Some (j, rest))"

lemma reads_backI:
  assumes "\<And>n rest. 2 * length (json_print j) \<le> n \<Longrightarrow> ends_value rest
    \<Longrightarrow> parse_value (Suc n) (json_print j @ rest) = Some (j, rest)"
  shows "reads_back j"
  unfolding reads_back_def
proof (intro allI impI)
  fix n rest
  assume n: "2 * length (json_print j) < n" and "ends_value rest"
  then show "parse_value n (json_print j @ rest) = Some (j, rest)"
    using assms by (cases n) auto
qed

lemma parse_elems_print:
  assumes "js \<noteq> []" and "\<And>j. j \<in> set js \<Longrightarrow> reads_back j"
    and "2 * length (sep_by '','' (map json_print js)) + 1 < n"
  shows "parse_elems n (sep_by '','' (map json_print js) @ CHR '']'' # rest) = Some (js, rest)"
  using assms
proof (induction js arbitrary: n)
  case (Cons j js)
  then obtain m where n: "n = Suc m" by (cases n) auto
  show ?case
  proof (cases "js = []")
    case True
    then show ?thesis using Cons.prems n by (simp add: reads_back_def)
  next
    case False
    let ?tail = "sep_by '','' (map json_print js)"
    have "parse_value m (json_print j @ CHR '','' # ?tail @ CHR '']'' # rest)
        = Some (j, CHR '','' # ?tail @ CHR '']'' # rest)"
      using Cons.prems n False by (simp add: reads_back_def sep_by_Cons)
    moreover have "parse_elems m (?tail @ CHR '']'' # rest) = Some (js, rest)"
      by (rule Cons.IH) (use Cons.prems n False in \<open>simp_all add: sep_by_Cons\<close>)
    ultimately show ?thesis using n False by (simp add: sep_by_Cons)
  qed
qed simp

lemma json_quote_app: "json_quote k @ s = CHR 0x22 # concat (map json_escape k) @ CHR 0x22 # s"
  by (simp add: json_quote_def)

abbreviation print_member :: "string \<times> json \<Rightarrow> string" where
  "print_member \<equiv> \<lambda>(k, v). json_quote k @ '':'' @ json_print v"

lemma parse_members_print:
  assumes "kvs \<noteq> []" and "\<And>k v. (k, v) \<in> set kvs \<Longrightarrow> reads_back v"
    and "2 * length (sep_by '','' (map print_member kvs)) + 1 < n"
  shows "parse_members n (sep_by '','' (map print_member kvs) @ CHR ''}'' # rest) = Some (kvs, rest)"
  using assms
proof (induction kvs arbitrary: n)
  case (Cons kv kvs)
  obtain k v where kv: "kv = (k, v)" by (cases kv)
  obtain m where n: "n = Suc m" using Cons.prems by (cases n) auto
  have len: "2 * length (json_print v) < m"
    using Cons.prems(3) n kv by (cases "kvs = []") (simp_all add: sep_by_Cons)
  have "reads_back v" using Cons.prems(2)[of k v] kv by simp
  with len have v: "parse_value m (json_print v @ r) = Some (v, r)" if "ends_value r" for r
    using that by (simp add: reads_back_def)
  show ?case
  proof (cases "kvs = []")
    case True
    then show ?thesis using n kv v by (simp add: json_quote_app parse_quoted)
  next
    case False
    let ?tail = "sep_by '','' (map print_member kvs)"
    have "parse_members m (?tail @ CHR ''}'' # rest) = Some (kvs, rest)"
      by (rule Cons.IH) (use Cons.prems n False in \<open>auto simp: sep_by_Cons\<close>)
    then show ?thesis using n kv v False by (simp add: sep_by_Cons json_quote_app parse_quoted)
  qed
qed simp

lemma bracketed:
  assumes "xs \<noteq> []" and "list_all (\<lambda>x. \<exists>c cs. pr x = c # cs \<and> P c) xs"
  shows "\<exists>c cs. sep_by sep (map pr xs) = c # cs \<and> P c"
  using assms by (cases xs) (auto, cases "map pr (tl xs)", auto simp: sep_by_Cons)

lemma print_reads_back: "wf_json j \<Longrightarrow> reads_back j"
proof (induction j)
  case (JNum s)
  then show ?case
    by (auto simp: reads_back_def parse_number_print simp del: parse_value.simps elim!: less_natE)
next
  case (JStr s)
  then show ?case
    by (auto simp: reads_back_def json_quote_app parse_quoted elim!: less_natE)
next
  case (JArr js)
  show ?case
  proof (cases "js = []")
    case True
    then show ?thesis by (intro reads_backI) simp
  next
    case False
    have "list_all (\<lambda>j. \<exists>c cs. json_print j = c # cs \<and> (\<not> is_ws c \<and> c \<noteq> CHR '']'')) js"
      using JArr.prems print_start by (fastforce simp: list_all_iff)
    from bracketed[OF False this]
    obtain c cs where c: "sep_by '','' (map json_print js) = c # cs" "\<not> is_ws c" "c \<noteq> CHR '']''"
      by blast
    have rb: "j \<in> set js \<Longrightarrow> reads_back j" for j
      using JArr by (simp add: list_all_iff)
    show ?thesis
      unfolding reads_back_def
    proof (intro allI impI)
      fix n rest
      assume n: "2 * length (json_print (JArr js)) < n"
      then obtain m where m: "n = Suc m" by (cases n) auto
      with n have "parse_elems m (sep_by '','' (map json_print js) @ CHR '']'' # rest) = Some (js, rest)"
        by (intro parse_elems_print[OF False rb]) simp_all
      then show "parse_value n (json_print (JArr js) @ rest) = Some (JArr js, rest)"
        using c m by simp
    qed
  qed
next
  case (JObj kvs)
  show ?case
  proof (cases "kvs = []")
    case True
    then show ?thesis by (intro reads_backI) simp
  next
    case False
    have "list_all (\<lambda>kv. \<exists>c cs. print_member kv = c # cs \<and> c = CHR 0x22) kvs"
      by (auto simp: list_all_iff json_quote_def)
    from bracketed[OF False this]
    obtain cs where c: "sep_by '','' (map print_member kvs) = CHR 0x22 # cs" by blast
    have rb: "(k, v) \<in> set kvs \<Longrightarrow> reads_back v" for k v
      using JObj by (force simp: list_all_iff)
    show ?thesis
      unfolding reads_back_def
    proof (intro allI impI)
      fix n rest
      assume n: "2 * length (json_print (JObj kvs)) < n"
      then obtain m where m: "n = Suc m" by (cases n) auto
      with n have "parse_members m (sep_by '','' (map print_member kvs) @ CHR ''}'' # rest) = Some (kvs, rest)"
        by (intro parse_members_print[OF False rb]) simp_all
      then show "parse_value n (json_print (JObj kvs) @ rest) = Some (JObj kvs, rest)"
        using c m by simp
    qed
  qed
qed (auto intro!: reads_backI simp: parse_word_def)

theorem json_parse_print:
  assumes "wf_json j"
  shows "json_parse (json_print j) = Some j"
proof -
  have "parse_value (2 * length (json_print j) + 2) (json_print j @ []) = Some (j, [])"
    using print_reads_back[OF assms] unfolding reads_back_def
    by (metis ends_value_punct(1) less_add_same_cancel1 zero_less_numeral)
  then show ?thesis by (simp add: json_parse_def skip_ws_def)
qed

lemma json_print_inj: "wf_json a \<Longrightarrow> wf_json b \<Longrightarrow> json_print a = json_print b \<Longrightarrow> a = b"
  by (metis json_parse_print option.inject)

section \<open>Structs\<close>

text \<open>
  \<open>Unmarshal\<close> into a struct runs over the object's members in order; a member sets the field
  whose name equals its key up to letter case (the fold of \<open>encoding/json\<close>, in which the
  Kelvin sign and the long s fold to ASCII letters), an unknown key is ignored and a later
  member overwrites an earlier one. A field is given by its name and its setter; a setter's
  \<open>None\<close> is a type error. The text of the library's errors is not modelled.
\<close>

fun fold_key :: "string \<Rightarrow> string" where
  "fold_key [] = []"
| "fold_key (c # cs) =
     (if take 3 (c # cs) = [CHR 0xE2, CHR 0x84, CHR 0xAA] then CHR ''k'' # fold_key (drop 2 cs)
      else if take 2 (c # cs) = [CHR 0xC5, CHR 0xBF] then CHR ''s'' # fold_key (drop 1 cs)
      else (if 65 \<le> (of_char c :: nat) \<and> (of_char c :: nat) \<le> 90
            then char_of (of_char c + 32 :: nat) else c)
           # fold_key cs)"

type_synonym 's field = "string \<times> (json \<Rightarrow> 's \<Rightarrow> 's option)"

definition set_member :: "'s field list \<Rightarrow> string \<times> json \<Rightarrow> 's \<Rightarrow> 's option" where
  "set_member fields kv s =
     (case List.find (\<lambda>f. fold_key (fst f) = fold_key (fst kv)) fields of
        None \<Rightarrow> Some s
      | Some f \<Rightarrow> snd f (snd kv) s)"

fun set_members :: "'s field list \<Rightarrow> (string \<times> json) list \<Rightarrow> 's \<Rightarrow> 's option" where
  "set_members fields [] s = Some s"
| "set_members fields (kv # kvs) s =
     (case set_member fields kv s of None \<Rightarrow> None | Some s' \<Rightarrow> set_members fields kvs s')"

definition decode_struct :: "'s field list \<Rightarrow> 's \<Rightarrow> json \<Rightarrow> 's option" where
  "decode_struct fields zero j =
     (case j of
        JNull \<Rightarrow> Some zero
      | JObj kvs \<Rightarrow> set_members fields kvs zero
      | _ \<Rightarrow> None)"

definition string_field :: "(string \<Rightarrow> 's \<Rightarrow> 's) \<Rightarrow> json \<Rightarrow> 's \<Rightarrow> 's option" where
  "string_field upd j s =
     (case j of JStr t \<Rightarrow> Some (upd t s) | JNull \<Rightarrow> Some s | _ \<Rightarrow> None)"

definition int_field :: "(int \<Rightarrow> 's \<Rightarrow> 's) \<Rightarrow> json \<Rightarrow> 's \<Rightarrow> 's option" where
  "int_field upd j s =
     (case j of
        JNum lit \<Rightarrow> map_option (\<lambda>i. upd i s) (ParseInt lit)
      | JNull \<Rightarrow> Some s
      | _ \<Rightarrow> None)"

definition raw_field :: "(json \<Rightarrow> 's \<Rightarrow> 's) \<Rightarrow> json \<Rightarrow> 's \<Rightarrow> 's option" where
  "raw_field upd j s = Some (upd j s)"

definition map_field :: "((string \<times> json) list \<Rightarrow> 's \<Rightarrow> 's) \<Rightarrow> json \<Rightarrow> 's \<Rightarrow> 's option" where
  "map_field upd j s =
     (case j of JObj kvs \<Rightarrow> Some (upd kvs s) | JNull \<Rightarrow> Some s | _ \<Rightarrow> None)"

definition Unmarshal :: "'s field list \<Rightarrow> 's \<Rightarrow> string \<Rightarrow> 's option" where
  "Unmarshal fields zero body =
     (case json_parse body of None \<Rightarrow> None | Some j \<Rightarrow> decode_struct fields zero j)"

text \<open>\<open>Marshal\<close> writes the fields in order; an \<open>omitempty\<close> string is left out when empty.\<close>

definition omitempty :: "string \<Rightarrow> string \<Rightarrow> (string \<times> json) list" where
  "omitempty key v = (if v = '''' then [] else [(key, JStr v)])"

lemma Unmarshal_print:
  "wf_json j \<Longrightarrow> Unmarshal fields zero (json_print j) = decode_struct fields zero j"
  by (simp add: Unmarshal_def json_parse_print)

lemma nat_digits_lead: "nat_digits n = CHR ''0'' # cs \<Longrightarrow> n = 0 \<and> cs = []"
proof (induction n arbitrary: cs rule: nat_digits.induct)
  case (1 n)
  show ?case
  proof (cases "n < 10")
    case True
    then have "digit_char n = CHR ''0'' \<Longrightarrow> n = 0"
      using digit_val_digit[of n] by (simp add: digit_val_def)
    with True have "digit_char n = CHR ''0'' \<Longrightarrow> n = 0" by blast
    then show ?thesis using 1 True by (simp add: nat_digits.simps[of n])
  next
    case False
    obtain d ds where d: "nat_digits (n div 10) = d # ds" using nat_digits_hd by blast
    with 1(2) False have "d = CHR ''0''" by (subst (asm) nat_digits.simps) simp
    with 1(1)[OF False] d False show ?thesis by fastforce
  qed
qed

lemma valid_number_digits: "valid_number (nat_digits n)"
proof -
  obtain c cs where c: "nat_digits n = c # cs" "is_digit c" using nat_digits_hd by blast
  have all: "list_all is_digit (c # cs)"
    using Itoa_nat_digits[of n] c by (simp add: Itoa_def)
  then have rest: "dropWhile is_digit (c # cs) = []" by (simp add: list_all_iff dropWhile_eq_Nil_conv)
  have "c = CHR ''0'' \<Longrightarrow> cs = []" using nat_digits_lead c by blast
  moreover have dw: "dropWhile is_digit cs = []"
    using all by (simp add: list_all_iff dropWhile_eq_Nil_conv)
  ultimately show ?thesis
    using c digit_not_sign[of c]
    by (auto simp: valid_number_def Let_def drop_digits_def valid_fraction_def valid_exponent_def
        dw simp del: dropWhile_eq_Nil_conv)
qed

lemma valid_number_Itoa [simp]: "valid_number (Itoa i)"
  using valid_number_digits[of "nat i"] valid_number_digits[of "nat (- i)"] nat_digits_hd[of "nat (- i)"]
  by (auto simp: Itoa_def valid_number_def Let_def dest: digit_not_sign split: list.splits)

declare json_print.simps [simp del]

end
