(* ===== verification/Events.thy ===== *)
theory Events
  imports Json Topology
begin

text \<open>
  \<open>internal/events/events.go\<close> and \<open>internal/infra/mq/email.go\<close>: the domain events, the
  envelope that wraps them, and the email command, with their JSON encodings. The main
  theorem is that what a constructor builds is what a consumer decodes. An envelope's
  \<open>OccurredAt\<close> is kept as its RFC 3339 text; the raw payload is kept as a document, so the
  white space a foreign producer may put into it is not represented.
\<close>

section \<open>Envelopes\<close>

definition TypeReleaseDetected :: string where "TypeReleaseDetected = ''release.detected''"
definition TypeRepositoryMoved :: string where "TypeRepositoryMoved = ''repository.moved''"
definition TypeSubscriptionCreated :: string where
  "TypeSubscriptionCreated = ''subscription.created''"
definition TypeVerificationDelivered :: string where
  "TypeVerificationDelivered = ''verification.delivered''"
definition TypeVerificationFailed :: string where
  "TypeVerificationFailed = ''verification.failed''"

lemmas event_types =
  TypeReleaseDetected_def TypeRepositoryMoved_def TypeSubscriptionCreated_def
  TypeVerificationDelivered_def TypeVerificationFailed_def

definition EnvelopeVersion :: int where "EnvelopeVersion = 1"

record Envelope =
  EnvID :: string
  EnvType :: string
  OccurredAt :: string
  Version :: int
  EnvPayload :: "json option"

record ReleaseDetected =
  rdEmail :: string
  rdRepo :: string
  rdReleaseTag :: string

record RepositoryMoved =
  rmEmail :: string
  rmRepo :: string

record SubscriptionCreated =
  scEmail :: string
  scToken :: string

record VerificationDelivered =
  vdToken :: string

record VerificationFailed =
  vfToken :: string
  vfReason :: string

section \<open>Time stamps\<close>

text \<open>The check \<open>time.Time.UnmarshalJSON\<close> makes of its text.\<close>

definition two_digits :: "nat \<Rightarrow> string \<Rightarrow> nat option" where
  "two_digits k s = parse_digits (take 2 (drop k s))"

definition in_range :: "nat option \<Rightarrow> nat \<Rightarrow> nat \<Rightarrow> bool" where
  "in_range v lo hi = (case v of None \<Rightarrow> False | Some n \<Rightarrow> lo \<le> n \<and> n \<le> hi)"

definition leap_year :: "nat \<Rightarrow> bool" where
  "leap_year y = (y mod 4 = 0 \<and> (y mod 100 \<noteq> 0 \<or> y mod 400 = 0))"

definition days_in :: "nat \<Rightarrow> nat \<Rightarrow> nat" where
  "days_in m y = (if m = 2 then (if leap_year y then 29 else 28)
                  else if m \<in> {4, 6, 9, 11} then 30 else 31)"

definition valid_zone :: "string \<Rightarrow> bool" where
  "valid_zone z =
     (z = ''Z''
      \<or> (length z = 6 \<and> z ! 0 \<in> {CHR ''+'', CHR ''-''} \<and> z ! 3 = CHR '':''
         \<and> in_range (two_digits 1 z) 0 23 \<and> in_range (two_digits 4 z) 0 59))"

definition valid_rfc3339 :: "string \<Rightarrow> bool" where
  "valid_rfc3339 s =
     (20 \<le> length s
      \<and> s ! 4 = CHR ''-'' \<and> s ! 7 = CHR ''-'' \<and> s ! 10 = CHR ''T''
      \<and> s ! 13 = CHR '':'' \<and> s ! 16 = CHR '':''
      \<and> (case (parse_digits (take 4 s), two_digits 5 s) of
           (Some y, Some m) \<Rightarrow> 1 \<le> m \<and> m \<le> 12 \<and> in_range (two_digits 8 s) 1 (days_in m y)
         | _ \<Rightarrow> False)
      \<and> in_range (two_digits 11 s) 0 23
      \<and> in_range (two_digits 14 s) 0 59
      \<and> in_range (two_digits 17 s) 0 59
      \<and> (let rest = drop 19 s
         in if hd rest = CHR ''.''
            then takeWhile is_digit (tl rest) \<noteq> [] \<and> valid_zone (dropWhile is_digit (tl rest))
            else valid_zone rest))"

definition time_field :: "(string \<Rightarrow> 's \<Rightarrow> 's) \<Rightarrow> json \<Rightarrow> 's \<Rightarrow> 's option" where
  "time_field upd j s =
     (case j of
        JStr t \<Rightarrow> if valid_rfc3339 t then Some (upd t s) else None
      | JNull \<Rightarrow> Some s
      | _ \<Rightarrow> None)"

text \<open>Go's zero \<open>time.Time\<close>.\<close>

definition zero_time :: string where "zero_time = ''0001-01-01T00:00:00Z''"

section \<open>Encoding\<close>

definition marshal_ReleaseDetected :: "ReleaseDetected \<Rightarrow> json" where
  "marshal_ReleaseDetected p =
     JObj [(''email'', JStr (rdEmail p)), (''repo'', JStr (rdRepo p)),
           (''release_tag'', JStr (rdReleaseTag p))]"

definition marshal_RepositoryMoved :: "RepositoryMoved \<Rightarrow> json" where
  "marshal_RepositoryMoved p = JObj [(''email'', JStr (rmEmail p)), (''repo'', JStr (rmRepo p))]"

definition marshal_SubscriptionCreated :: "SubscriptionCreated \<Rightarrow> json" where
  "marshal_SubscriptionCreated p =
     JObj [(''email'', JStr (scEmail p)), (''token'', JStr (scToken p))]"

definition marshal_VerificationDelivered :: "VerificationDelivered \<Rightarrow> json" where
  "marshal_VerificationDelivered p = JObj [(''token'', JStr (vdToken p))]"

definition marshal_VerificationFailed :: "VerificationFailed \<Rightarrow> json" where
  "marshal_VerificationFailed p =
     JObj ((''token'', JStr (vfToken p)) # omitempty ''reason'' (vfReason p))"

definition marshal_Envelope :: "Envelope \<Rightarrow> json" where
  "marshal_Envelope e =
     JObj [(''id'', JStr (EnvID e)), (''type'', JStr (EnvType e)),
           (''occurred_at'', JStr (OccurredAt e)), (''version'', JNum (Itoa (Version e))),
           (''payload'', case EnvPayload e of None \<Rightarrow> JNull | Some j \<Rightarrow> j)]"

section \<open>Construction\<close>

text \<open>\<open>uuid.NewString()\<close> and \<open>time.Now().UTC()\<close>, read from the world.\<close>

record 'w services =
  NewString :: "('w, string) state"
  NowUTC :: "('w, string) state"

text \<open>\<open>json.Marshal(payload)\<close> is passed as its result: the payload's document, or an error.\<close>

definition newEnvelope ::
  "'w services \<Rightarrow> string \<Rightarrow> goerror + json \<Rightarrow> ('w, goerror + Envelope) state" where
  "newEnvelope S t marshalled =
     (case marshalled of
        Inl err \<Rightarrow> ret (Inl (Err (''marshal '' @ t @ '' payload: '' @ err_text err)))
      | Inr body \<Rightarrow> do {
          id \<leftarrow> NewString S;
          now \<leftarrow> NowUTC S;
          ret (Inr \<lparr>EnvID = id, EnvType = t, OccurredAt = now, Version = EnvelopeVersion,
                    EnvPayload = Some body\<rparr>) })"

definition NewReleaseDetected :: "'w services \<Rightarrow> ReleaseDetected \<Rightarrow> ('w, goerror + Envelope) state" where
  "NewReleaseDetected S p = newEnvelope S TypeReleaseDetected (Inr (marshal_ReleaseDetected p))"

definition NewRepositoryMoved :: "'w services \<Rightarrow> RepositoryMoved \<Rightarrow> ('w, goerror + Envelope) state" where
  "NewRepositoryMoved S p = newEnvelope S TypeRepositoryMoved (Inr (marshal_RepositoryMoved p))"

definition NewSubscriptionCreated ::
  "'w services \<Rightarrow> SubscriptionCreated \<Rightarrow> ('w, goerror + Envelope) state" where
  "NewSubscriptionCreated S p =
     newEnvelope S TypeSubscriptionCreated (Inr (marshal_SubscriptionCreated p))"

definition NewVerificationDelivered ::
  "'w services \<Rightarrow> VerificationDelivered \<Rightarrow> ('w, goerror + Envelope) state" where
  "NewVerificationDelivered S p =
     newEnvelope S TypeVerificationDelivered (Inr (marshal_VerificationDelivered p))"

definition NewVerificationFailed ::
  "'w services \<Rightarrow> VerificationFailed \<Rightarrow> ('w, goerror + Envelope) state" where
  "NewVerificationFailed S p =
     newEnvelope S TypeVerificationFailed (Inr (marshal_VerificationFailed p))"

section \<open>Decoding\<close>

definition json_error :: goerror where "json_error = Err ''json''"

text \<open>\<open>json.Unmarshal(data, &env)\<close>.\<close>

definition unmarshal_Envelope :: "string \<Rightarrow> goerror + Envelope" where
  "unmarshal_Envelope body =
     (case Unmarshal
        [(''id'', string_field (\<lambda>v e. e\<lparr>EnvID := v\<rparr>)),
         (''type'', string_field (\<lambda>v e. e\<lparr>EnvType := v\<rparr>)),
         (''occurred_at'', time_field (\<lambda>v e. e\<lparr>OccurredAt := v\<rparr>)),
         (''version'', int_field (\<lambda>v e. e\<lparr>Version := v\<rparr>)),
         (''payload'', raw_field (\<lambda>v e. e\<lparr>EnvPayload := Some v\<rparr>))]
        \<lparr>EnvID = '''', EnvType = '''', OccurredAt = zero_time, Version = 0, EnvPayload = None\<rparr> body
      of None \<Rightarrow> Inl json_error | Some e \<Rightarrow> Inr e)"

text \<open>\<open>json.Unmarshal(e.Payload, &p)\<close>; an absent payload is an empty input, an error.\<close>

definition decode_payload :: "'s field list \<Rightarrow> 's \<Rightarrow> Envelope \<Rightarrow> goerror + 's" where
  "decode_payload flds zero e =
     (case EnvPayload e of
        None \<Rightarrow> Inl json_error
      | Some j \<Rightarrow> (case decode_struct flds zero j of None \<Rightarrow> Inl json_error | Some p \<Rightarrow> Inr p))"

definition DecodeReleaseDetected :: "Envelope \<Rightarrow> goerror + ReleaseDetected" where
  "DecodeReleaseDetected = decode_payload
     [(''email'', string_field (\<lambda>v p. p\<lparr>rdEmail := v\<rparr>)),
      (''repo'', string_field (\<lambda>v p. p\<lparr>rdRepo := v\<rparr>)),
      (''release_tag'', string_field (\<lambda>v p. p\<lparr>rdReleaseTag := v\<rparr>))]
     \<lparr>rdEmail = '''', rdRepo = '''', rdReleaseTag = ''''\<rparr>"

definition DecodeRepositoryMoved :: "Envelope \<Rightarrow> goerror + RepositoryMoved" where
  "DecodeRepositoryMoved = decode_payload
     [(''email'', string_field (\<lambda>v p. p\<lparr>rmEmail := v\<rparr>)),
      (''repo'', string_field (\<lambda>v p. p\<lparr>rmRepo := v\<rparr>))]
     \<lparr>rmEmail = '''', rmRepo = ''''\<rparr>"

definition DecodeSubscriptionCreated :: "Envelope \<Rightarrow> goerror + SubscriptionCreated" where
  "DecodeSubscriptionCreated = decode_payload
     [(''email'', string_field (\<lambda>v p. p\<lparr>scEmail := v\<rparr>)),
      (''token'', string_field (\<lambda>v p. p\<lparr>scToken := v\<rparr>))]
     \<lparr>scEmail = '''', scToken = ''''\<rparr>"

definition DecodeVerificationDelivered :: "Envelope \<Rightarrow> goerror + VerificationDelivered" where
  "DecodeVerificationDelivered = decode_payload
     [(''token'', string_field (\<lambda>v p. p\<lparr>vdToken := v\<rparr>))] \<lparr>vdToken = ''''\<rparr>"

definition DecodeVerificationFailed :: "Envelope \<Rightarrow> goerror + VerificationFailed" where
  "DecodeVerificationFailed = decode_payload
     [(''token'', string_field (\<lambda>v p. p\<lparr>vfToken := v\<rparr>)),
      (''reason'', string_field (\<lambda>v p. p\<lparr>vfReason := v\<rparr>))]
     \<lparr>vfToken = '''', vfReason = ''''\<rparr>"

section \<open>The email command\<close>

text \<open>\<open>internal/infra/mq/email.go\<close>. The payload map is an association list, read with the last
  binding of a key; the code writes at most one key.\<close>

definition EventNewRelease :: string where "EventNewRelease = ''new_release''"
definition EventRepoMoved :: string where "EventRepoMoved = ''repo_moved''"
definition EventEmailVerification :: string where "EventEmailVerification = ''email_verification''"

lemmas email_event_types = EventNewRelease_def EventRepoMoved_def EventEmailVerification_def

record DeliveryMessage =
  dmEvent :: string
  dmEmail :: string
  dmRepo :: string
  dmRelease :: string
  dmPayload :: "(string \<times> json) list"

definition marshal_DeliveryMessage :: "DeliveryMessage \<Rightarrow> json" where
  "marshal_DeliveryMessage m =
     JObj ([(''event'', JStr (dmEvent m)), (''email'', JStr (dmEmail m))]
           @ omitempty ''repo'' (dmRepo m) @ omitempty ''release'' (dmRelease m)
           @ (if dmPayload m = [] then [] else [(''payload'', JObj (dmPayload m))]))"

definition unmarshal_DeliveryMessage :: "string \<Rightarrow> goerror + DeliveryMessage" where
  "unmarshal_DeliveryMessage body =
     (case Unmarshal
        [(''event'', string_field (\<lambda>v m. m\<lparr>dmEvent := v\<rparr>)),
         (''email'', string_field (\<lambda>v m. m\<lparr>dmEmail := v\<rparr>)),
         (''repo'', string_field (\<lambda>v m. m\<lparr>dmRepo := v\<rparr>)),
         (''release'', string_field (\<lambda>v m. m\<lparr>dmRelease := v\<rparr>)),
         (''payload'', map_field (\<lambda>v m. m\<lparr>dmPayload := v\<rparr>))]
        \<lparr>dmEvent = '''', dmEmail = '''', dmRepo = '''', dmRelease = '''', dmPayload = []\<rparr> body
      of None \<Rightarrow> Inl json_error | Some m \<Rightarrow> Inr m)"

section \<open>What is sent is what is read\<close>

lemmas decoding = decode_struct_def set_member_def string_field_def time_field_def int_field_def
  raw_field_def map_field_def omitempty_def

lemma marshal_wf [simp]:
  "wf_json (marshal_ReleaseDetected rd)" "wf_json (marshal_RepositoryMoved rm)"
  "wf_json (marshal_SubscriptionCreated sc)" "wf_json (marshal_VerificationDelivered vd)"
  "wf_json (marshal_VerificationFailed vf)"
  by (simp_all add: marshal_ReleaseDetected_def marshal_RepositoryMoved_def
      marshal_SubscriptionCreated_def marshal_VerificationDelivered_def
      marshal_VerificationFailed_def omitempty_def)

lemma unmarshal_marshal_Envelope:
  assumes "valid_rfc3339 (OccurredAt e)" and "int64_in_range (Version e)"
    and "EnvPayload e = Some j" and "wf_json j"
  shows "unmarshal_Envelope (json_print (marshal_Envelope e)) = Inr e"
proof -
  have "wf_json (marshal_Envelope e)" using assms by (simp add: marshal_Envelope_def)
  then show ?thesis
    using assms(1-3)
    by (simp add: unmarshal_Envelope_def Unmarshal_print marshal_Envelope_def decoding ParseInt_Itoa)
qed

lemma decode_marshal:
  "EnvPayload e = Some (marshal_ReleaseDetected rd) \<Longrightarrow> DecodeReleaseDetected e = Inr rd"
  "EnvPayload e = Some (marshal_RepositoryMoved rm) \<Longrightarrow> DecodeRepositoryMoved e = Inr rm"
  "EnvPayload e = Some (marshal_SubscriptionCreated sc) \<Longrightarrow> DecodeSubscriptionCreated e = Inr sc"
  "EnvPayload e = Some (marshal_VerificationDelivered vd) \<Longrightarrow> DecodeVerificationDelivered e = Inr vd"
  "EnvPayload e = Some (marshal_VerificationFailed vf) \<Longrightarrow> DecodeVerificationFailed e = Inr vf"
  by (simp_all add: DecodeReleaseDetected_def DecodeRepositoryMoved_def
      DecodeSubscriptionCreated_def DecodeVerificationDelivered_def DecodeVerificationFailed_def
      decode_payload_def decoding marshal_ReleaseDetected_def marshal_RepositoryMoved_def
      marshal_SubscriptionCreated_def marshal_VerificationDelivered_def
      marshal_VerificationFailed_def)

text \<open>The fields a consumer relies on after its producer built an event.\<close>

definition decodes_to ::
  "(Envelope \<Rightarrow> goerror + 'p) \<Rightarrow> 'p \<Rightarrow> string \<Rightarrow> goerror + Envelope \<Rightarrow> bool" where
  "decodes_to decode p t built =
     (case built of
        Inl _ \<Rightarrow> False
      | Inr env \<Rightarrow> EnvType env = t
          \<and> unmarshal_Envelope (json_print (marshal_Envelope env)) = Inr env
          \<and> decode env = Inr p)"

lemma newEnvelope_decodes:
  assumes clock: "\<And>w. valid_rfc3339 (fst (run (NowUTC S) w))"
    and "wf_json j" and dec: "\<And>e. EnvPayload e = Some j \<Longrightarrow> decode e = Inr p"
  shows "decodes_to decode p t (fst (run (newEnvelope S t (Inr j)) w))"
proof -
  obtain id w1 where 1: "run (NewString S) w = (id, w1)" by (cases "run (NewString S) w") auto
  obtain now w2 where 2: "run (NowUTC S) w1 = (now, w2)" by (cases "run (NowUTC S) w1") auto
  have "valid_rfc3339 now" using clock[of w1] 2 by simp
  then show ?thesis
    using assms(2) 1 2 unmarshal_marshal_Envelope dec
    by (simp add: decodes_to_def newEnvelope_def int64_in_range_def EnvelopeVersion_def)
qed

lemma events_decode:
  assumes "\<And>w. valid_rfc3339 (fst (run (NowUTC S) w))"
  shows "decodes_to DecodeReleaseDetected rd RoutingKeyReleaseDetected
           (fst (run (NewReleaseDetected S rd) w))
       \<and> decodes_to DecodeRepositoryMoved rm RoutingKeyRepositoryMoved
           (fst (run (NewRepositoryMoved S rm) w))
       \<and> decodes_to DecodeSubscriptionCreated sc RoutingKeySubscriptionCreated
           (fst (run (NewSubscriptionCreated S sc) w))
       \<and> decodes_to DecodeVerificationDelivered vd RoutingKeyVerificationDelivered
           (fst (run (NewVerificationDelivered S vd) w))
       \<and> decodes_to DecodeVerificationFailed vf RoutingKeyVerificationFailed
           (fst (run (NewVerificationFailed S vf) w))"
  unfolding NewReleaseDetected_def NewRepositoryMoved_def NewSubscriptionCreated_def
    NewVerificationDelivered_def NewVerificationFailed_def event_types routing_keys
  by (intro conjI newEnvelope_decodes assms marshal_wf decode_marshal)

lemma command_roundtrip:
  assumes "list_all (\<lambda>(k, v). wf_json v) (dmPayload m)"
  shows "unmarshal_DeliveryMessage (json_print (marshal_DeliveryMessage m)) = Inr m"
proof -
  have "wf_json (marshal_DeliveryMessage m)"
    using assms by (simp add: marshal_DeliveryMessage_def omitempty_def)
  then show ?thesis
    by (simp add: unmarshal_DeliveryMessage_def Unmarshal_print marshal_DeliveryMessage_def decoding)
qed


text \<open>
  An email command is read by the mailer as the notifier wrote it: every field, an empty
  one left out of the text included, and the payload map.
\<close>

theorem delivery_command_roundtrip:
  assumes "list_all (\<lambda>(k, v). wf_json v) (dmPayload m)"
  shows "unmarshal_DeliveryMessage (json_print (marshal_DeliveryMessage m)) = Inr m"
  by (rule command_roundtrip[OF assms])

section \<open>The theorems at work\<close>

lemma mem_now_text: "valid_rfc3339 ''2026-01-31T23:59:59Z''"
  by code_simp

text \<open>Services over a counter: fresh identifiers and a fixed clock.\<close>

definition counter_services :: "nat services" where
  "counter_services =
     \<lparr>NewString = State (\<lambda>n. (Itoa (int n), Suc n)), NowUTC = ret ''2026-01-31T23:59:59.5Z''\<rparr>"

lemma counter_clock: "valid_rfc3339 (fst (run (NowUTC counter_services) w))"
  by (simp add: counter_services_def valid_rfc3339_def parse_digits_def two_digits_def in_range_def
      days_in_def leap_year_def digits_value_def digit_val_def is_digit_def valid_zone_def Let_def)


theorem delivery_command_roundtrip_witness:
  "unmarshal_DeliveryMessage (json_print (marshal_DeliveryMessage
     \<lparr>dmEvent = ''email_verification'', dmEmail = ''a@b.c'', dmRepo = '''', dmRelease = '''',
      dmPayload = [(''token'', JStr ''t'')]\<rparr>))
   = Inr \<lparr>dmEvent = ''email_verification'', dmEmail = ''a@b.c'', dmRepo = '''', dmRelease = '''',
      dmPayload = [(''token'', JStr ''t'')]\<rparr>"
  by (rule delivery_command_roundtrip) simp

end
