(* ===== verification/Db.thy ===== *)
theory Db
  imports Events "HOL-Library.Multiset"
begin

text \<open>
  \<open>internal/infra/db/db.go\<close> and the row type of \<open>internal/infra/outbox/outbox.go\<close>: the models, the
  state of the four tables with the unique indexes their struct tags declare, and GORM as a
  parameter. The locale \<open>gorm_table\<close> states what is assumed of the GORM calls on one table
  and \<open>gorm\<close> joins the four tables and the transactions. Any call may fail; a failed call
  leaves the tables as they were.
\<close>

section \<open>Models\<close>

text \<open>\<open>gorm.Model\<close> (its \<open>UpdatedAt\<close> is never read by the code). A zero \<open>ID\<close> is unset.\<close>

record gorm_model =
  ID :: nat
  CreatedAt :: int
  DeletedAt :: "int option"

record Release =
  relGitHubID :: int
  TagName :: string
  relETag :: string

type_synonym RepositoryStatus = string

definition StatusIdle :: RepositoryStatus where "StatusIdle = ''idle''"
definition StatusProcessing :: RepositoryStatus where "StatusProcessing = ''processing''"

record Repository = gorm_model +
  repoGitHubID :: int
  repoETag :: string
  Owner :: string
  Name :: string
  LastRelease :: Release
  repoStatus :: RepositoryStatus
  LastScannedAt :: "int option"

type_synonym SubscriptionStatus = string

definition StatusPending :: SubscriptionStatus where "StatusPending = ''pending''"
definition StatusActive :: SubscriptionStatus where "StatusActive = ''active''"
definition StatusUnsubscribed :: SubscriptionStatus where "StatusUnsubscribed = ''unsubscribed''"

lemmas subscription_statuses = StatusPending_def StatusActive_def StatusUnsubscribed_def

record Subscription = gorm_model +
  subEmail :: string
  RepositoryID :: nat
  subStatus :: SubscriptionStatus
  ConfirmToken :: string
  APIToken :: string

type_synonym SagaState = string

definition SagaAwaitingDelivery :: SagaState where "SagaAwaitingDelivery = ''awaiting_delivery''"
definition SagaCompleted :: SagaState where "SagaCompleted = ''completed''"
definition SagaCompensated :: SagaState where "SagaCompensated = ''compensated''"

lemmas saga_states = SagaAwaitingDelivery_def SagaCompleted_def SagaCompensated_def

record OnboardingSaga = gorm_model +
  sagaToken :: string
  sagaState :: SagaState

text \<open>An outbox row; its \<open>jsonb\<close> payload is the document.\<close>

record Row = gorm_model +
  RoutingKey :: string
  Payload :: json

section \<open>The tables\<close>

record tables =
  repositories :: "Repository list"
  subscriptions :: "Subscription list"
  sagas :: "OnboardingSaga list"
  outbox_rows :: "Row list"

text \<open>GORM's soft delete: every query is restricted to the rows that are not deleted.\<close>

definition live :: "'r gorm_model_scheme \<Rightarrow> bool" where
  "live r = (DeletedAt r = None)"

definition rows_where :: "('r gorm_model_scheme \<Rightarrow> bool) \<Rightarrow> 'r gorm_model_scheme list \<Rightarrow> 'r gorm_model_scheme list" where
  "rows_where P xs = filter (\<lambda>r. live r \<and> P r) xs"

definition update_where ::
  "('r gorm_model_scheme \<Rightarrow> bool) \<Rightarrow> ('r gorm_model_scheme \<Rightarrow> 'r gorm_model_scheme)
     \<Rightarrow> 'r gorm_model_scheme list \<Rightarrow> 'r gorm_model_scheme list" where
  "update_where P f xs = map (\<lambda>r. if live r \<and> P r then f r else r) xs"

definition soft_delete :: "int \<Rightarrow> 'r gorm_model_scheme \<Rightarrow> 'r gorm_model_scheme" where
  "soft_delete t r = r\<lparr>DeletedAt := Some t\<rparr>"

definition upsert :: "'r gorm_model_scheme \<Rightarrow> 'r gorm_model_scheme list \<Rightarrow> 'r gorm_model_scheme list" where
  "upsert r xs = (if ID r \<in> set (map ID xs) then map (\<lambda>x. if ID x = ID r then r else x) xs
                  else xs @ [r])"

text \<open>\<open>Order("id").Limit(n)\<close>: a negative limit is no limit.\<close>

definition first_by_id :: "int \<Rightarrow> 'r gorm_model_scheme list \<Rightarrow> 'r gorm_model_scheme list" where
  "first_by_id n xs = (let ys = sort_key ID (rows_where (\<lambda>_. True) xs)
                       in if n < 0 then ys else take (nat n) ys)"

text \<open>A unique index over the live rows.\<close>

definition unique_live :: "('r gorm_model_scheme \<Rightarrow> 'k) \<Rightarrow> 'r gorm_model_scheme list \<Rightarrow> bool" where
  "unique_live key xs = distinct (map key (rows_where (\<lambda>_. True) xs))"

text \<open>The constraints of the schema: primary keys and the indexes of the struct tags.\<close>

definition db_ok :: "'v tables_scheme \<Rightarrow> bool" where
  "db_ok t \<longleftrightarrow>
     distinct (map ID (repositories t)) \<and> distinct (map ID (subscriptions t))
   \<and> distinct (map ID (sagas t)) \<and> distinct (map ID (outbox_rows t))
   \<and> unique_live repoGitHubID (repositories t)
   \<and> unique_live (\<lambda>r. (Owner r, Name r)) (repositories t)
   \<and> unique_live (\<lambda>s. (subEmail s, RepositoryID s)) (subscriptions t)
   \<and> unique_live ConfirmToken (subscriptions t)
   \<and> unique_live sagaToken (sagas t)"

section \<open>GORM\<close>

text \<open>
  The calls the code makes on one table, a condition \<open>Where(...)\<close> being a predicate on rows.
  \<open>gCreate\<close> and \<open>gCreateAll\<close> give back the rows with the keys the database assigned.
  \<open>TransactionIDs\<close> is \<open>Transaction\<close> with a body that leaves a list of keys in a variable of its caller.
  \<open>gPluckUnlocked P key n\<close> is \<open>SELECT id ... WHERE P ORDER BY key ASC LIMIT n FOR UPDATE SKIP LOCKED\<close>.
\<close>

record ('w, 'r) gtable =
  gFind :: "('r \<Rightarrow> bool) \<Rightarrow> ('w, goerror + 'r list) state"
  gFirst :: "('r \<Rightarrow> bool) \<Rightarrow> ('w, goerror + 'r) state"
  gFindByID :: "int \<Rightarrow> ('w, goerror + 'r list) state"
  gCount :: "('r \<Rightarrow> bool) \<Rightarrow> ('w, goerror + nat) state"
  gUpdates :: "('r \<Rightarrow> bool) \<Rightarrow> ('r \<Rightarrow> 'r) \<Rightarrow> ('w, goerror + nat) state"
  gDelete :: "('r \<Rightarrow> bool) \<Rightarrow> ('w, goerror option) state"
  gCreate :: "'r \<Rightarrow> ('w, goerror + 'r) state"
  gCreateAll :: "'r list \<Rightarrow> ('w, goerror + 'r list) state"
  gSave :: "'r \<Rightarrow> ('w, goerror option) state"
  gPluckUnlocked :: "('r \<Rightarrow> bool) \<Rightarrow> ('r \<Rightarrow> int option) \<Rightarrow> nat \<Rightarrow> ('w, goerror + nat list) state"

record 'w gorm_db =
  Repositories :: "('w, Repository) gtable"
  Subscriptions :: "('w, Subscription) gtable"
  Sagas :: "('w, OnboardingSaga) gtable"
  Rows :: "('w, Row) gtable"
  Transaction :: "('w, goerror option) state \<Rightarrow> ('w, goerror option) state"
  TransactionIDs :: "('w, goerror + nat list) state \<Rightarrow> ('w, goerror + nat list) state"

text \<open>An error of the database, as opposed to the sentinels the code tests for.\<close>

definition db_error :: "goerror \<Rightarrow> bool" where
  "db_error e = (case e of Err _ \<Rightarrow> True | _ \<Rightarrow> False)"

lemma db_error_simps [simp]:
  "db_error (Err s)" "\<not> db_error ErrRecordNotFound" "\<not> db_error ErrAlreadySettled"
  by (simp_all add: db_error_def)

definition assigned :: "'r gorm_model_scheme list \<Rightarrow> 'r gorm_model_scheme \<Rightarrow> 'r gorm_model_scheme \<Rightarrow> bool" where
  "assigned xs r r' = (\<exists>i t. i \<noteq> 0 \<and> i \<notin> set (map ID xs) \<and> r' = r\<lparr>ID := i, CreatedAt := t\<rparr>)"

text \<open>The rows of one \<open>INSERT\<close> get increasing keys.\<close>

definition all_assigned ::
  "'r gorm_model_scheme list \<Rightarrow> 'r gorm_model_scheme list \<Rightarrow> 'r gorm_model_scheme list \<Rightarrow> bool" where
  "all_assigned xs rs rs' = (list_all2 (assigned xs) rs rs' \<and> sorted_wrt (<) (map ID rs'))"

text \<open>Postgres sorts nulls last.\<close>

definition nulls_last :: "int option \<Rightarrow> int option \<Rightarrow> bool" where
  "nulls_last a b = (case (a, b) of (Some x, Some y) \<Rightarrow> x \<le> y | (None, Some _) \<Rightarrow> False | _ \<Rightarrow> True)"

locale gorm_table =
  fixes T :: "('w, 'r gorm_model_scheme) gtable"
    and view :: "'w \<Rightarrow> 'v tables_scheme"
    and get :: "'v tables_scheme \<Rightarrow> 'r gorm_model_scheme list"
    and upd :: "('r gorm_model_scheme list \<Rightarrow> 'r gorm_model_scheme list)
                  \<Rightarrow> 'v tables_scheme \<Rightarrow> 'v tables_scheme"
  assumes find: "\<And>P w r w'. run (gFind T P) w = (r, w') \<Longrightarrow> view w' = view w
      \<and> (case r of Inl e \<Rightarrow> db_error e | Inr rs \<Rightarrow> mset rs = mset (rows_where P (get (view w))))"
    and first: "\<And>P w r w'. run (gFirst T P) w = (r, w') \<Longrightarrow> view w' = view w
      \<and> (case r of
           Inl e \<Rightarrow> db_error e \<or> (e = ErrRecordNotFound \<and> rows_where P (get (view w)) = [])
         | Inr x \<Rightarrow> x \<in> set (rows_where P (get (view w)))
             \<and> (\<forall>y \<in> set (rows_where P (get (view w))). ID x \<le> ID y))"
    and by_id: "\<And>n w r w'. run (gFindByID T n) w = (r, w') \<Longrightarrow> view w' = view w
      \<and> (case r of Inl e \<Rightarrow> db_error e | Inr rs \<Rightarrow> rs = first_by_id n (get (view w)))"
    and count: "\<And>P w r w'. run (gCount T P) w = (r, w') \<Longrightarrow> view w' = view w
      \<and> (case r of Inl e \<Rightarrow> db_error e | Inr n \<Rightarrow> n = length (rows_where P (get (view w))))"
    and updates: "\<And>P f w r w'. run (gUpdates T P f) w = (r, w') \<Longrightarrow>
      (case r of
         Inl e \<Rightarrow> db_error e \<and> view w' = view w
       | Inr n \<Rightarrow> n = length (rows_where P (get (view w)))
           \<and> view w' = upd (update_where P f) (view w) \<and> db_ok (view w'))"
    and deletes: "\<And>P w r w'. run (gDelete T P) w = (r, w') \<Longrightarrow>
      (case r of
         Some e \<Rightarrow> db_error e \<and> view w' = view w
       | None \<Rightarrow> (\<exists>t. view w' = upd (update_where P (soft_delete t)) (view w)) \<and> db_ok (view w'))"
    and create: "\<And>x w r w'. run (gCreate T x) w = (r, w') \<Longrightarrow>
      (case r of
         Inl e \<Rightarrow> db_error e \<and> view w' = view w
       | Inr x' \<Rightarrow> assigned (get (view w)) x x'
           \<and> view w' = upd (\<lambda>xs. xs @ [x']) (view w) \<and> db_ok (view w'))"
    and create_all: "\<And>ys w r w'. run (gCreateAll T ys) w = (r, w') \<Longrightarrow>
      (case r of
         Inl e \<Rightarrow> db_error e \<and> view w' = view w
       | Inr ys' \<Rightarrow> all_assigned (get (view w)) ys ys'
           \<and> view w' = upd (\<lambda>xs. xs @ ys') (view w) \<and> db_ok (view w'))"
    and save: "\<And>x w r w'. run (gSave T x) w = (r, w') \<Longrightarrow>
      (case r of
         Some e \<Rightarrow> db_error e \<and> view w' = view w
       | None \<Rightarrow> view w' = upd (upsert x) (view w) \<and> db_ok (view w'))"
    and pluck: "\<And>P key n w r w'. run (gPluckUnlocked T P key n) w = (r, w') \<Longrightarrow> view w' = view w
      \<and> (case r of
           Inl e \<Rightarrow> db_error e
         | Inr ids \<Rightarrow> \<exists>xs. ids = map ID xs \<and> mset xs \<subseteq># mset (rows_where P (get (view w)))
             \<and> length xs \<le> n \<and> sorted_wrt (\<lambda>x y. nulls_last (key x) (key y)) xs)"

text \<open>
  \<open>db.Transaction(body)\<close>: if it begins, the body runs on the current tables; its error rolls
  the tables back (not what the body did outside the database) and is returned, and without
  one they are committed, unless the commit fails.
\<close>

definition rolled_back :: "'v tables_scheme \<Rightarrow> 'v tables_scheme \<Rightarrow> 'v tables_scheme" where
  "rolled_back before after =
     after\<lparr>repositories := repositories before, subscriptions := subscriptions before,
           sagas := sagas before, outbox_rows := outbox_rows before\<rparr>"

definition transaction_ok :: "('w \<Rightarrow> 'v tables_scheme) \<Rightarrow> 'w gorm_db \<Rightarrow> bool" where
  "transaction_ok view G \<longleftrightarrow>
     (\<forall>body w r w'. run (Transaction G body) w = (r, w') \<longrightarrow>
        (\<exists>e. r = Some e \<and> db_error e \<and> view w' = view w)
      \<or> (\<exists>w0 r1 w1. view w0 = view w \<and> run body w0 = (r1, w1)
           \<and> (case r1 of
                Some e \<Rightarrow> r = Some e \<and> view w' = rolled_back (view w) (view w1)
              | None \<Rightarrow> (r = None \<and> view w' = view w1)
                  \<or> (\<exists>e. r = Some e \<and> db_error e
                       \<and> view w' = rolled_back (view w) (view w1)))))"

definition tx_ok :: "('w \<Rightarrow> 'v tables_scheme) \<Rightarrow> (('w, goerror + 'a) state \<Rightarrow> ('w, goerror + 'a) state) \<Rightarrow> bool" where
  "tx_ok view tx \<longleftrightarrow>
     (\<forall>body w r w'. run (tx body) w = (r, w') \<longrightarrow>
        (\<exists>e. r = Inl e \<and> db_error e \<and> view w' = view w)
      \<or> (\<exists>w0 r1 w1. view w0 = view w \<and> run body w0 = (r1, w1)
           \<and> (case r1 of
                Inl e \<Rightarrow> r = Inl e \<and> view w' = rolled_back (view w) (view w1)
              | Inr a \<Rightarrow> (r = Inr a \<and> view w' = view w1)
                  \<or> (\<exists>e. r = Inl e \<and> db_error e
                       \<and> view w' = rolled_back (view w) (view w1)))))"

locale gorm =
  repos: gorm_table "Repositories G" view repositories repositories_update +
  subs: gorm_table "Subscriptions G" view subscriptions subscriptions_update +
  sagas: gorm_table "Sagas G" view sagas sagas_update +
  rows: gorm_table "Rows G" view outbox_rows outbox_rows_update
  for G :: "'w gorm_db" and view :: "'w \<Rightarrow> 'v tables_scheme" +
  assumes transaction: "transaction_ok view G" and transaction_ids: "tx_ok view (TransactionIDs G)"

text \<open>The one follows from the other.\<close>

definition error_of :: "goerror + 'a \<Rightarrow> goerror option" where
  "error_of r = (case r of Inl e \<Rightarrow> Some e | Inr _ \<Rightarrow> None)"

definition tx_of_option :: "(('w, goerror + unit) state \<Rightarrow> ('w, goerror + unit) state)
    \<Rightarrow> ('w, goerror option) state \<Rightarrow> ('w, goerror option) state" where
  "tx_of_option tx body = do {
     r \<leftarrow> tx (do { err \<leftarrow> body; ret (case err of Some e \<Rightarrow> Inl e | None \<Rightarrow> Inr ()) });
     ret (error_of r) }"

lemma tx_of_option_ok:
  assumes "tx_ok view tx" and "Transaction G = tx_of_option tx"
  shows "transaction_ok view G"
  unfolding transaction_ok_def
proof (intro allI impI)
  fix body w r w'
  assume "run (Transaction G body) w = (r, w')"
  then obtain a where tx: "run (tx (do { err \<leftarrow> body; ret (case err of Some e \<Rightarrow> Inl e | None \<Rightarrow> Inr ()) })) w = (a, w')"
    and r: "r = error_of a"
    by (auto simp: assms(2) tx_of_option_def split: prod.splits)
  show "(\<exists>e. r = Some e \<and> db_error e \<and> view w' = view w)
      \<or> (\<exists>w0 r1 w1. view w0 = view w \<and> run body w0 = (r1, w1)
           \<and> (case r1 of
                Some e \<Rightarrow> r = Some e \<and> view w' = rolled_back (view w) (view w1)
              | None \<Rightarrow> (r = None \<and> view w' = view w1)
                  \<or> (\<exists>e. r = Some e \<and> db_error e
                       \<and> view w' = rolled_back (view w) (view w1))))"
    using assms(1)[unfolded tx_ok_def, rule_format, OF tx]
  proof (elim disjE exE conjE)
    fix w0 r1 w1
    assume w0: "view w0 = view w"
      and run: "run (do { err \<leftarrow> body; ret (case err of Some e \<Rightarrow> Inl e | None \<Rightarrow> Inr ()) }) w0 = (r1, w1)"
      and c: "case r1 of
                Inl e \<Rightarrow> a = Inl e \<and> view w' = rolled_back (view w) (view w1)
              | Inr x \<Rightarrow> (a = Inr x \<and> view w' = view w1)
                  \<or> (\<exists>e. a = Inl e \<and> db_error e \<and> view w' = rolled_back (view w) (view w1))"
    from run obtain q where "run body w0 = (q, w1)" and "r1 = (case q of Some e \<Rightarrow> Inl e | None \<Rightarrow> Inr ())"
      by (auto split: prod.splits)
    with c r w0 show ?thesis by (cases q) (auto simp: error_of_def intro!: exI[of _ w0])
  qed (simp add: r error_of_def)
qed

section \<open>Transactions\<close>

lemma rolled_back_self [simp]: "rolled_back v v = v"
  by (simp add: rolled_back_def)

lemma rolled_back_writes [simp]:
  "rolled_back v (sagas_update f u) = rolled_back v u"
  "rolled_back v (subscriptions_update g u) = rolled_back v u"
  "rolled_back v (repositories_update h u) = rolled_back v u"
  "rolled_back v (outbox_rows_update k u) = rolled_back v u"
  by (simp_all add: rolled_back_def)

context gorm begin

text \<open>What a body does on success is what its transaction does; otherwise nothing happens.\<close>

lemma transaction_run:
  assumes run: "run (Transaction G body) w = (r, w')"
    and body: "\<And>w0 r1 w1. view w0 = view w \<Longrightarrow> run body w0 = (r1, w1) \<Longrightarrow>
      rolled_back (view w) (view w1) = view w
      \<and> (case r1 of Some e \<Rightarrow> E e | None \<Rightarrow> Q (view w1))"
    and err: "\<And>e. db_error e \<Longrightarrow> E e"
  shows "case r of Some e \<Rightarrow> E e \<and> view w' = view w | None \<Rightarrow> Q (view w')"
proof -
  have "(\<exists>e. r = Some e \<and> db_error e \<and> view w' = view w)
      \<or> (\<exists>w0 r1 w1. view w0 = view w \<and> run body w0 = (r1, w1)
           \<and> (case r1 of
                Some e \<Rightarrow> r = Some e \<and> view w' = rolled_back (view w) (view w1)
              | None \<Rightarrow> (r = None \<and> view w' = view w1)
                  \<or> (\<exists>e. r = Some e \<and> db_error e \<and> view w' = rolled_back (view w) (view w1))))"
    using transaction run unfolding transaction_ok_def by blast
  then show ?thesis
  proof (elim disjE exE conjE)
    fix w0 r1 w1
    assume w0: "view w0 = view w" and run: "run body w0 = (r1, w1)"
      and "case r1 of
                Some e \<Rightarrow> r = Some e \<and> view w' = rolled_back (view w) (view w1)
              | None \<Rightarrow> (r = None \<and> view w' = view w1)
                  \<or> (\<exists>e. r = Some e \<and> db_error e \<and> view w' = rolled_back (view w) (view w1))"
    then show ?thesis
      using body[OF w0 run] err by (auto split: option.splits)
  qed (simp add: err)
qed

end

end
