(* ===== verification/Gorm_Mem.thy ===== *)
theory Gorm_Mem
  imports Db
begin

text \<open>
  A database in memory that satisfies \<open>gorm\<close>, for the theorems' witnesses: it runs every call
  on lists of rows, refuses a write that breaks a constraint, and takes from a schedule which
  calls fail; \<open>drawn\<close> counts what the random source gave. \<open>observed\<close> is what the theorems see of a world: the tables, the messages
  the broker confirmed (exchange, routing key, body) and the counters incremented, in their
  order.
\<close>

record observed = tables +
  published :: "(string \<times> string \<times> string) list"
  counted :: "string list"

record mem_world = observed +
  faults :: "bool list"
  clock :: nat
  drawn :: nat

definition obs :: "mem_world \<Rightarrow> observed" where
  "obs w = \<lparr>repositories = repositories w, subscriptions = subscriptions w, sagas = sagas w,
            outbox_rows = outbox_rows w, published = published w, counted = counted w\<rparr>"

definition empty_world :: mem_world where
  "empty_world = \<lparr>repositories = [], subscriptions = [], sagas = [], outbox_rows = [],
     published = [], counted = [], faults = [], clock = 1, drawn = 0\<rparr>"

lemma obs_simps [simp]:
  "obs (repositories_update f w) = repositories_update f (obs w)"
  "obs (subscriptions_update g w) = subscriptions_update g (obs w)"
  "obs (sagas_update h w) = sagas_update h (obs w)"
  "obs (outbox_rows_update k w) = outbox_rows_update k (obs w)"
  "obs (published_update p w) = published_update p (obs w)"
  "obs (counted_update c w) = counted_update c (obs w)"
  "obs (faults_update l w) = obs w" "obs (clock_update m w) = obs w" "obs (drawn_update m w) = obs w"
  "repositories (obs w) = repositories w" "subscriptions (obs w) = subscriptions w"
  "sagas (obs w) = sagas w" "outbox_rows (obs w) = outbox_rows w"
  "published (obs w) = published w" "counted (obs w) = counted w"
  by (simp_all add: obs_def)

text \<open>A call of the world: it fails when the schedule says so, and time passes.\<close>

definition attempt :: "(mem_world \<Rightarrow> (goerror + 'a) \<times> mem_world) \<Rightarrow> (mem_world, goerror + 'a) state" where
  "attempt f = State (\<lambda>w.
     let w1 = w\<lparr>faults := tl (faults w), clock := Suc (clock w)\<rparr>
     in if faults w \<noteq> [] \<and> hd (faults w) then (Inl (Err ''unavailable''), w1) else f w1)"

definition read_call :: "(mem_world \<Rightarrow> goerror + 'a) \<Rightarrow> (mem_world, goerror + 'a) state" where
  "read_call f = attempt (\<lambda>w. (f w, w))"

definition write_call :: "(mem_world \<Rightarrow> 'a \<times> mem_world) \<Rightarrow> (mem_world, goerror + 'a) state" where
  "write_call f = attempt (\<lambda>w.
     case f w of (a, w') \<Rightarrow>
       if db_ok w' then (Inr a, w') else (Inl (Err ''constraint violation''), w))"

definition fresh_id :: "'r gorm_model_scheme list \<Rightarrow> nat" where
  "fresh_id xs = Suc (fold max (map ID xs) 0)"

fun number_rows :: "nat \<Rightarrow> int \<Rightarrow> 'r gorm_model_scheme list \<Rightarrow> 'r gorm_model_scheme list" where
  "number_rows i t [] = []"
| "number_rows i t (y # ys) = y\<lparr>ID := i, CreatedAt := t\<rparr> # number_rows (Suc i) t ys"

definition by_nullable :: "('r \<Rightarrow> int option) \<Rightarrow> 'r list \<Rightarrow> 'r list" where
  "by_nullable key xs = sort_key (\<lambda>x. the (key x)) (filter (\<lambda>x. key x \<noteq> None) xs) @ filter (\<lambda>x. key x = None) xs"

definition mem_table ::
  "(mem_world \<Rightarrow> 'r gorm_model_scheme list)
     \<Rightarrow> (('r gorm_model_scheme list \<Rightarrow> 'r gorm_model_scheme list) \<Rightarrow> mem_world \<Rightarrow> mem_world)
     \<Rightarrow> (mem_world, 'r gorm_model_scheme) gtable" where
  "mem_table get upd =
     \<lparr>gFind = (\<lambda>P. read_call (\<lambda>w. Inr (rows_where P (get w)))),
      gFirst = (\<lambda>P. read_call (\<lambda>w. case sort_key ID (rows_where P (get w)) of
                  [] \<Rightarrow> Inl ErrRecordNotFound | x # _ \<Rightarrow> Inr x)),
      gFindByID = (\<lambda>n. read_call (\<lambda>w. Inr (first_by_id n (get w)))),
      gCount = (\<lambda>P. read_call (\<lambda>w. Inr (length (rows_where P (get w))))),
      gUpdates = (\<lambda>P f. write_call (\<lambda>w. (length (rows_where P (get w)), upd (update_where P f) w))),
      gDelete = (\<lambda>P. do { r \<leftarrow> write_call (\<lambda>w.
                    ((), upd (update_where P (soft_delete (int (clock w)))) w));
                  ret (error_of r) }),
      gCreate = (\<lambda>x. write_call (\<lambda>w.
                  let x' = x\<lparr>ID := fresh_id (get w), CreatedAt := int (clock w)\<rparr>
                  in (x', upd (\<lambda>xs. xs @ [x']) w))),
      gCreateAll = (\<lambda>ys. write_call (\<lambda>w.
                  let ys' = number_rows (fresh_id (get w)) (int (clock w)) ys
                  in (ys', upd (\<lambda>xs. xs @ ys') w))),
      gSave = (\<lambda>x. do { r \<leftarrow> write_call (\<lambda>w. ((), upd (upsert x) w)); ret (error_of r) }),
      gPluckUnlocked = (\<lambda>P key n. read_call (\<lambda>w.
                  Inr (map ID (take n (by_nullable key (rows_where P (get w)))))))\<rparr>"

definition mem_tx :: "(mem_world, goerror + 'a) state \<Rightarrow> (mem_world, goerror + 'a) state" where
  "mem_tx body = do {
     begun \<leftarrow> attempt (\<lambda>w. (Inr w, w));
     case begun of
       Inl e \<Rightarrow> ret (Inl e)
     | Inr w0 \<Rightarrow> do {
         res \<leftarrow> body;
         (case res of
            Inl e \<Rightarrow> do { State (\<lambda>w. ((), rolled_back w0 w)); ret (Inl e) }
          | Inr a \<Rightarrow> do {
              committed \<leftarrow> attempt (\<lambda>w. (Inr (), w));
              (case committed of
                 Inl e \<Rightarrow> do { State (\<lambda>w. ((), rolled_back w0 w)); ret (Inl e) }
               | Inr _ \<Rightarrow> ret (Inr a)) }) } }"

definition mem_gorm :: "mem_world gorm_db" where
  "mem_gorm =
     \<lparr>Repositories = mem_table repositories repositories_update,
      Subscriptions = mem_table subscriptions subscriptions_update,
      Sagas = mem_table sagas sagas_update,
      Rows = mem_table outbox_rows outbox_rows_update,
      Transaction = tx_of_option mem_tx, TransactionIDs = mem_tx\<rparr>"

section \<open>The laws hold\<close>

lemma obs_rolled_back [simp]: "obs (rolled_back w0 w) = rolled_back (obs w0) (obs w)"
  by (simp add: rolled_back_def)

lemma db_ok_obs: "db_ok (obs w) = db_ok w"
  by (simp add: db_ok_def)

lemma read_callD:
  "run (read_call f) w = (r, w')
    \<Longrightarrow> obs w' = obs w \<and> ((\<exists>e. r = Inl e \<and> db_error e) \<or> (\<exists>w1. obs w1 = obs w \<and> r = f w1))"
  by (auto simp: read_call_def attempt_def Let_def split: if_splits) (metis obs_simps(7,8))+

lemma write_callD:
  "run (write_call f) w = (r, w')
    \<Longrightarrow> (\<exists>e. r = Inl e \<and> db_error e \<and> obs w' = obs w)
      \<or> (\<exists>w1 a. obs w1 = obs w \<and> f w1 = (a, w') \<and> r = Inr a \<and> db_ok (obs w'))"
  by (auto simp: write_call_def attempt_def Let_def db_ok_obs split: if_splits prod.splits)

lemma fold_max_start: "k \<le> fold max xs (k :: nat)"
proof (induction xs arbitrary: k)
  case (Cons y ys)
  show ?case using Cons.IH[of "max y k"] by (simp add: max_def split: if_splits)
qed simp

lemma fold_max_ge: "x \<in> set xs \<Longrightarrow> x \<le> fold max xs (k :: nat)"
proof (induction xs arbitrary: k)
  case (Cons y ys)
  then show ?case using fold_max_start[of "max y k" ys] by auto
qed simp

lemma fresh_id_fresh: "fresh_id xs \<le> i \<Longrightarrow> i \<noteq> 0 \<and> i \<notin> set (map ID xs)"
  using fold_max_ge[of i "map ID xs" 0] by (auto simp: fresh_id_def)

lemma number_rows_assigned: "fresh_id xs \<le> i \<Longrightarrow> list_all2 (assigned xs) ys (number_rows i t ys)"
proof (induction ys arbitrary: i)
  case (Cons y ys)
  then show ?case using fresh_id_fresh[of xs i] by (auto simp: assigned_def)
qed simp

lemma number_rows_ids: "map ID (number_rows i t ys) = [i ..< i + length ys]"
  by (induction ys arbitrary: i) (auto simp: upt_conv_Cons[symmetric] upt_rec)

lemma number_rows_all_assigned: "all_assigned xs ys (number_rows (fresh_id xs) t ys)"
  by (simp add: all_assigned_def number_rows_assigned number_rows_ids)

lemma sort_key_head:
  "sort_key f xs = x # ys \<Longrightarrow> x \<in> set xs \<and> (\<forall>y \<in> set xs. f x \<le> (f y :: nat))"
  by (metis set_sort list.set_intros(1) set_ConsD order_refl sorted_sort_key list.simps(9)
      sorted_simps(2) list.set_map image_eqI)

lemma by_nullable_sorted: "sorted_wrt (\<lambda>x y. nulls_last (key x) (key y)) (by_nullable key xs)"
proof -
  let ?ys = "sort_key (\<lambda>x. the (key x)) (filter (\<lambda>x. key x \<noteq> None) xs)"
  have "sorted_wrt (\<lambda>x y. the (key x) \<le> the (key y)) ?ys"
    using sorted_sort_key[of "\<lambda>x. the (key x)"] by (simp add: sorted_map)
  then have "sorted_wrt (\<lambda>x y. nulls_last (key x) (key y)) ?ys"
    by (rule sorted_wrt_mono_rel[rotated]) (auto simp: nulls_last_def)
  moreover have "sorted_wrt (\<lambda>x y. nulls_last (key x) (key y)) (filter (\<lambda>x. key x = None) xs)"
    by (induction xs) (auto simp: nulls_last_def)
  ultimately show ?thesis by (auto simp: by_nullable_def sorted_wrt_append nulls_last_def)
qed

lemma by_nullable_mset: "mset (by_nullable key xs) = mset xs"
  by (induction xs) (auto simp: by_nullable_def)

lemma by_nullable_take:
  "mset (take n (by_nullable key xs)) \<subseteq># mset xs
    \<and> sorted_wrt (\<lambda>x y. nulls_last (key x) (key y)) (take n (by_nullable key xs))"
  using by_nullable_sorted[of key xs] by_nullable_mset[of key xs]
  by (metis append_take_drop_id mset_append mset_subset_eq_add_left sorted_wrt_append)

lemma mem_table_ok:
  fixes get :: "mem_world \<Rightarrow> 'r gorm_model_scheme list"
  assumes [simp]: "\<And>f w. obs (upd f w) = updo f (obs w)" and g: "\<And>w. geto (obs w) = get w"
  shows "gorm_table (mem_table get upd) obs geto updo"
proof
  have get: "obs w1 = obs w \<Longrightarrow> get w1 = get w" for w w1 by (metis g)
  have g': "get w = geto (obs w)" for w by (simp add: g)
  fix w w' :: mem_world and P f n x ys
  show "run (gFind (mem_table get upd) P) w = (r, w') \<Longrightarrow> obs w' = obs w
      \<and> (case r of Inl e \<Rightarrow> db_error e | Inr rs \<Rightarrow> mset rs = mset (rows_where P (geto (obs w))))" for r
    by (auto simp: mem_table_def g' dest!: read_callD)
  show "run (gFirst (mem_table get upd) P) w = (r, w') \<Longrightarrow> obs w' = obs w
      \<and> (case r of
           Inl e \<Rightarrow> db_error e \<or> (e = ErrRecordNotFound \<and> rows_where P (geto (obs w)) = [])
         | Inr x \<Rightarrow> x \<in> set (rows_where P (geto (obs w)))
             \<and> (\<forall>y \<in> set (rows_where P (geto (obs w))). ID x \<le> ID y))" for r
  proof -
    let ?pick = "\<lambda>w. case sort_key ID (rows_where P (get w)) of
                  [] \<Rightarrow> Inl ErrRecordNotFound | x # _ \<Rightarrow> Inr x"
    assume "run (gFirst (mem_table get upd) P) w = (r, w')"
    then have "run (read_call ?pick) w = (r, w')" by (simp add: mem_table_def)
    note rd = read_callD[OF this]
    from rd have o: "obs w' = obs w" ..
    have r: "(\<exists>e. r = Inl e \<and> db_error e) \<or> r = ?pick w"
    proof -
      have "?pick w1 = ?pick w" if "obs w1 = obs w" for w1 using get[OF that] by simp
      then show ?thesis using rd by metis
    qed
    show ?thesis
      using r sort_key_head[of ID "rows_where P (get w)"]
      by (auto simp: o g split: list.splits dest: arg_cong[where f = set])
  qed
  show "run (gFindByID (mem_table get upd) n) w = (r, w') \<Longrightarrow> obs w' = obs w
      \<and> (case r of Inl e \<Rightarrow> db_error e | Inr rs \<Rightarrow> rs = first_by_id n (geto (obs w)))" for r
    by (auto simp: mem_table_def g' dest!: read_callD)
  show "run (gCount (mem_table get upd) P) w = (r, w') \<Longrightarrow> obs w' = obs w
      \<and> (case r of Inl e \<Rightarrow> db_error e | Inr n \<Rightarrow> n = length (rows_where P (geto (obs w))))" for r
    by (auto simp: mem_table_def g' dest!: read_callD)
  show "run (gUpdates (mem_table get upd) P f) w = (r, w') \<Longrightarrow>
      (case r of
         Inl e \<Rightarrow> db_error e \<and> obs w' = obs w
       | Inr n \<Rightarrow> n = length (rows_where P (geto (obs w)))
           \<and> obs w' = updo (update_where P f) (obs w) \<and> db_ok (obs w'))" for r
    by (auto simp: mem_table_def g' dest!: write_callD)
  show "run (gDelete (mem_table get upd) P) w = (r, w') \<Longrightarrow>
      (case r of
         Some e \<Rightarrow> db_error e \<and> obs w' = obs w
       | None \<Rightarrow> (\<exists>t. obs w' = updo (update_where P (soft_delete t)) (obs w)) \<and> db_ok (obs w'))" for r
    by (auto simp: mem_table_def error_of_def split: prod.splits dest!: write_callD)
  show "run (gCreate (mem_table get upd) x) w = (r, w') \<Longrightarrow>
      (case r of
         Inl e \<Rightarrow> db_error e \<and> obs w' = obs w
       | Inr x' \<Rightarrow> assigned (geto (obs w)) x x'
           \<and> obs w' = updo (\<lambda>xs. xs @ [x']) (obs w) \<and> db_ok (obs w'))" for r
    using fresh_id_fresh[OF order_refl]
    by (fastforce simp: mem_table_def g' Let_def assigned_def dest!: write_callD)
  show "run (gCreateAll (mem_table get upd) ys) w = (r, w') \<Longrightarrow>
      (case r of
         Inl e \<Rightarrow> db_error e \<and> obs w' = obs w
       | Inr ys' \<Rightarrow> all_assigned (geto (obs w)) ys ys'
           \<and> obs w' = updo (\<lambda>xs. xs @ ys') (obs w) \<and> db_ok (obs w'))" for r
    using number_rows_all_assigned
    by (fastforce simp: mem_table_def g' Let_def dest!: write_callD)
  show "run (gSave (mem_table get upd) x) w = (r, w') \<Longrightarrow>
      (case r of
         Some e \<Rightarrow> db_error e \<and> obs w' = obs w
       | None \<Rightarrow> obs w' = updo (upsert x) (obs w) \<and> db_ok (obs w'))" for r
    by (auto simp: mem_table_def error_of_def split: prod.splits dest!: write_callD)
  show "run (gPluckUnlocked (mem_table get upd) P key k) w = (r, w') \<Longrightarrow> obs w' = obs w
      \<and> (case r of
           Inl e \<Rightarrow> db_error e
         | Inr ids \<Rightarrow> \<exists>xs. ids = map ID xs \<and> mset xs \<subseteq># mset (rows_where P (geto (obs w)))
             \<and> length xs \<le> k \<and> sorted_wrt (\<lambda>x y. nulls_last (key x) (key y)) xs)" for r key k
    using by_nullable_take[of k key "rows_where P (geto (obs w))"]
    by (auto simp: mem_table_def g' dest!: read_callD
        intro!: exI[of _ "take k (by_nullable key (rows_where P (geto (obs w))))"])
qed

lemma attempt_same:
  "run (attempt (\<lambda>w. (g w, w))) w = (r, w')
    \<Longrightarrow> obs w' = obs w \<and> ((\<exists>e. r = Inl e \<and> db_error e) \<or> r = g w')"
  by (auto simp: attempt_def Let_def split: if_splits)

lemma mem_tx_ok: "tx_ok obs mem_tx"
  unfolding tx_ok_def
proof (intro allI impI)
  fix body w r and w' :: mem_world
  assume run: "run (mem_tx body) w = (r, w')"
  obtain b w0 where b: "run (attempt (\<lambda>w. (Inr w, w))) w = (b, w0)"
    by (rule prod.exhaust)
  note bo = attempt_same[OF b]
  show "(\<exists>e. r = Inl e \<and> db_error e \<and> obs w' = obs w)
      \<or> (\<exists>w0 r1 w1. obs w0 = obs w \<and> run body w0 = (r1, w1)
           \<and> (case r1 of
                Inl e \<Rightarrow> r = Inl e \<and> obs w' = rolled_back (obs w) (obs w1)
              | Inr a \<Rightarrow> (r = Inr a \<and> obs w' = obs w1)
                  \<or> (\<exists>e. r = Inl e \<and> db_error e \<and> obs w' = rolled_back (obs w) (obs w1))))"
  proof (cases b)
    case (Inl e)
    then show ?thesis using run b bo by (auto simp: mem_tx_def)
  next
    case (Inr ww)
    with bo have ww: "ww = w0" by simp
    obtain r1 w1 where body: "run body w0 = (r1, w1)" by (rule prod.exhaust)
    obtain c w2 where c: "run (attempt (\<lambda>w. (Inr (), w))) w1 = (c, w2)"
      by (rule prod.exhaust)
    note co = attempt_same[OF c]
    note runs = b[unfolded Inr ww] body c
    have tail: "(case r1 of
         Inl e \<Rightarrow> r = Inl e \<and> w' = rolled_back w0 w1
       | Inr a \<Rightarrow> (case c of Inl e \<Rightarrow> r = Inl e \<and> w' = rolled_back w0 w2 | Inr _ \<Rightarrow> r = Inr a \<and> w' = w2))"
      using run runs by (auto simp: mem_tx_def split: sum.splits)
    have "db_error e" if "c = Inl e" for e using co that by simp
    with tail have "(case r1 of
                Inl e \<Rightarrow> r = Inl e \<and> obs w' = rolled_back (obs w) (obs w1)
              | Inr a \<Rightarrow> (r = Inr a \<and> obs w' = obs w1)
                  \<or> (\<exists>e. r = Inl e \<and> db_error e \<and> obs w' = rolled_back (obs w) (obs w1)))"
      using co bo by (auto split: sum.splits)
    then show ?thesis using body bo by blast
  qed
qed

interpretation mem: gorm mem_gorm obs
proof (intro gorm.intro gorm_axioms.intro)
  show "gorm_table (Repositories mem_gorm) obs repositories repositories_update"
    "gorm_table (Subscriptions mem_gorm) obs subscriptions subscriptions_update"
    "gorm_table (Sagas mem_gorm) obs sagas sagas_update"
    "gorm_table (Rows mem_gorm) obs outbox_rows outbox_rows_update"
    by (simp_all add: mem_gorm_def mem_table_ok)
  show "transaction_ok obs mem_gorm" by (rule tx_of_option_ok[OF mem_tx_ok]) (simp add: mem_gorm_def)
  show "tx_ok obs (TransactionIDs mem_gorm)" by (simp add: mem_gorm_def mem_tx_ok)
qed

section \<open>The clock\<close>

text \<open>\<open>time.Now()\<close> beside a database: reading it changes nothing the theorems see.\<close>

locale gorm_clock = gorm G view for G :: "'w gorm_db" and view :: "'w \<Rightarrow> 'v tables_scheme" +
  fixes now :: "('w, int) state"
  assumes now_view: "\<And>w t w'. run now w = (t, w') \<Longrightarrow> view w' = view w"

definition mem_now :: "(mem_world, int) state" where
  "mem_now = State (\<lambda>w. (int (clock w), w\<lparr>clock := Suc (clock w)\<rparr>))"

interpretation mem_clock: gorm_clock mem_gorm obs mem_now
  by unfold_locales (auto simp: mem_now_def)

end
