(* ===== verification/Publisher.thy ===== *)
theory Publisher
  imports Consumer Gorm_Mem
begin

text \<open>
  \<open>internal/infra/rabbitmq/publisher.go\<close>: publishing with a confirm. The locale \<open>broker\<close> is the
  contract of the \<open>Broker\<close> interfaces of the outbox, the notifier and the mailer: a publish
  that returns no error was confirmed, and one that returns an error was not. The publisher
  is shown to meet it over any AMQP client, with the confirmed publishes read off the
  client's history.
\<close>

section \<open>Publishing\<close>

text \<open>\<open>json.Marshal(msg)\<close> is passed as its result.\<close>

definition publisher_Publish ::
  "'w Connection \<Rightarrow> string \<Rightarrow> string \<Rightarrow> goerror + json \<Rightarrow> ('w, goerror option) state" where
  "publisher_Publish C exchange routingKey marshalled = do {
     opened \<leftarrow> Channel C;
     case opened of
       Inl err \<Rightarrow> ret (Some (Err (''rabbitmq publish: open channel: '' @ err_text err)))
     | Inr ch \<Rightarrow> do {
         result \<leftarrow>
           and_then (wrapping ''rabbitmq publish: enable confirms: '' (chConfirm ch))
           (case marshalled of
              Inl err \<Rightarrow> ret (Some (Err (''rabbitmq publish: marshal: '' @ err_text err)))
            | Inr doc \<Rightarrow>
                and_then (wrapping ''rabbitmq publish: ''
                  (chPublish ch exchange routingKey
                    \<lparr>pContentType = ''application/json'', pDeliveryMode = Persistent,
                     pBody = json_print doc, pHeaders = Map.empty, pCorrelationId = ''''\<rparr>))
                (do { ev \<leftarrow> awaitConfirm ch;
                      ret (case ev of
                             ConfirmsClosed \<Rightarrow> Some (Err ''rabbitmq publish: confirms channel closed'')
                           | Confirmation ok \<Rightarrow>
                               if \<not> ok
                               then Some (Err (''rabbitmq publish: nack received for routing key '' @ routingKey))
                               else None
                           | ConfirmTimeout \<Rightarrow>
                               Some (Err (''rabbitmq publish: confirm timeout for routing key '' @ routingKey))
                           | ConfirmCtxDone e \<Rightarrow> Some e) }));
         closeErr \<leftarrow> chClose ch;
         ret result } }"

section \<open>The contract of a broker\<close>

type_synonym 'w Broker = "string \<Rightarrow> string \<Rightarrow> json \<Rightarrow> ('w, goerror option) state"

locale broker =
  fixes publish :: "'w Broker" and view :: "'w \<Rightarrow> 'v observed_scheme"
  assumes publish: "\<And>ex rk doc w r w'. run (publish ex rk doc) w = (r, w') \<Longrightarrow>
      view w' = (if r = None then published_update (\<lambda>ps. ps @ [(ex, rk, json_print doc)]) (view w) else view w)"

text \<open>The publishes of a history that the broker confirmed.\<close>

fun confirmed :: "amqp_event list \<Rightarrow> (string \<times> string \<times> string) list" where
  "confirmed (EvPublish ex rk p # EvConfirm (Confirmation True) # es) = (ex, rk, pBody p) # confirmed es"
| "confirmed (e # es) = confirmed es"
| "confirmed [] = []"

lemma confirmed_publish: "confirmed (es @ [EvPublish ex rk p]) = confirmed es"
  by (induction es rule: confirmed.induct) simp_all

lemma confirmed_confirm:
  "confirmed (es @ [EvPublish ex rk p, EvConfirm ev])
     = confirmed es @ (if ev = Confirmation True then [(ex, rk, pBody p)] else [])"
proof (induction es rule: confirmed.induct)
  case 1
  then show ?case by simp
qed (cases ev; simp)+

text \<open>What an AMQP history shows: the confirmed publishes, and no tables.\<close>

definition amqp_view :: "('w \<Rightarrow> amqp_event list) \<Rightarrow> 'w \<Rightarrow> observed" where
  "amqp_view tr w =
     \<lparr>repositories = [], subscriptions = [], sagas = [], outbox_rows = [],
      published = confirmed (tr w), counted = []\<rparr>"

text \<open>The publisher as the services use it: the message is a document.\<close>

definition publisher_broker :: "'w Connection \<Rightarrow> 'w Broker" where
  "publisher_broker C ex rk doc = publisher_Publish C ex rk (Inr doc)"

context amqp_history begin

lemma publisher_run:
  assumes "run (publisher_broker C ex rk doc) w = (r, w')"
  shows "confirmed (tr w') = confirmed (tr w) @ (if r = None then [(ex, rk, json_print doc)] else [])"
proof -
  obtain o1 w1 where o1: "run (Channel C) w = (o1, w1)" by (rule prod.exhaust)
  note t1 = channel_tr[OF o1]
  show ?thesis
  proof (cases o1)
    case (Inl err)
    then show ?thesis
      using assms o1 t1 by (auto simp: publisher_broker_def publisher_Publish_def)
  next
    case (Inr ch)
    note ok = channel_okD[OF channel_opened[OF o1[unfolded Inr]]]
    let ?pub = "\<lparr>pContentType = ''application/json'', pDeliveryMode = Persistent,
                 pBody = json_print doc, pHeaders = Map.empty, pCorrelationId = ''''\<rparr>"
    obtain e2 w2 where 2: "run (chConfirm ch) w1 = (e2, w2)" by (rule prod.exhaust)
    obtain e3 w3 where 3: "run (chPublish ch ex rk ?pub) w2 = (e3, w3)" by (rule prod.exhaust)
    obtain c w4 where 4: "run (awaitConfirm ch) w3 = (c, w4)" by (rule prod.exhaust)
    have trs: "tr w2 = tr w" "tr w3 = tr w @ [EvPublish ex rk ?pub]"
        "tr w4 = tr w @ [EvPublish ex rk ?pub, EvConfirm c]"
      using ok(1)[OF 2] ok(2)[OF 3] ok(3)[OF 4] t1 by simp_all
    have close: "run (chClose ch) u = (x, w') \<Longrightarrow> tr w' = tr u" for u x by (rule ok(4))
    show ?thesis
      using assms o1 Inr 2 3 4 trs close
      by (auto simp: publisher_broker_def publisher_Publish_def and_then_def wrapping_def
          confirmed_publish confirmed_confirm split: option.splits confirm_event.splits prod.splits if_splits)
  qed
qed

end

sublocale amqp_history \<subseteq> publisher: broker "publisher_broker C" "amqp_view tr"
  by unfold_locales (simp add: amqp_view_def publisher_run)

interpretation mem_publisher: broker "publisher_broker mem_conn" "amqp_view hist"
  by (rule mem_amqp.publisher.broker_axioms)

section \<open>A publish that reports success was confirmed\<close>



end
