(* ===== verification/Outbox.thy ===== *)
theory Outbox
  imports Publisher
begin

text \<open>
  \<open>internal/infra/outbox\<close>: queueing events inside a transaction (\<open>outbox.go\<close>) and the relay that
  publishes the queued rows (\<open>relay.go\<close>). The theorems: no queued row is ever lost, a row is
  deleted only after its publish was confirmed, rows are published in the order of their
  keys, a healthy database and broker drain the queue, and a database that refuses every
  delete makes the relay publish its first batch for ever.
\<close>

section \<open>Queueing\<close>

record Event =
  evRoutingKey :: string
  evEnvelope :: Envelope

definition outbox_New :: "goerror + Envelope \<Rightarrow> goerror + Event" where
  "outbox_New built =
     (case built of
        Inl err \<Rightarrow> Inl err
      | Inr env \<Rightarrow> Inr \<lparr>evRoutingKey = EnvType env, evEnvelope = env\<rparr>)"

text \<open>Marshalling an envelope whose payload is a document cannot fail, so the loop that
  builds the rows is a \<open>map\<close>.\<close>

definition new_row :: "Event \<Rightarrow> Row" where
  "new_row e = \<lparr>ID = 0, CreatedAt = 0, DeletedAt = None, RoutingKey = evRoutingKey e,
                Payload = marshal_Envelope (evEnvelope e)\<rparr>"

definition InsertTx :: "'w gorm_db \<Rightarrow> Event list \<Rightarrow> ('w, goerror option) state" where
  "InsertTx tx evts =
     (if evts = [] then ret None
      else do {
        created \<leftarrow> gCreateAll (Rows tx) (map new_row evts);
        ret (case created of Inl err \<Rightarrow> Some err | Inr _ \<Rightarrow> None) })"

section \<open>The relay\<close>

record 'w Relay =
  rDb :: "'w gorm_db"
  rBroker :: "'w Broker"
  rBatchSize :: int

definition NewRelay :: "'w gorm_db \<Rightarrow> 'w Broker \<Rightarrow> int \<Rightarrow> 'w Relay" where
  "NewRelay d b n = \<lparr>rDb = d, rBroker = b, rBatchSize = n\<rparr>"

text \<open>The loop over one batch: \<open>False\<close> when a publish failed and \<open>deliver\<close> returns.\<close>

fun deliver_rows :: "'w Relay \<Rightarrow> Row list \<Rightarrow> ('w, bool) state" where
  "deliver_rows R [] = ret True"
| "deliver_rows R (row # rows) = do {
     err \<leftarrow> rBroker R EventsExchange (RoutingKey row) (Payload row);
     case err of
       Some e \<Rightarrow> ret False
     | None \<Rightarrow> do {
         delErr \<leftarrow> gDelete (Rows (rDb R)) (\<lambda>r. ID r = ID row);
         deliver_rows R rows } }"

text \<open>The loop over batches, with the number of batches to unroll; \<open>None\<close> is a relay that is
  still delivering.\<close>

fun deliver :: "nat \<Rightarrow> 'w Relay \<Rightarrow> ('w, unit option) state" where
  "deliver 0 R = ret None"
| "deliver (Suc n) R = do {
     found \<leftarrow> gFindByID (Rows (rDb R)) (rBatchSize R);
     case found of
       Inl err \<Rightarrow> ret (Some ())
     | Inr rows \<Rightarrow>
         if rows = [] then ret (Some ())
         else do {
           ok \<leftarrow> deliver_rows R rows;
           if \<not> ok then ret (Some ())
           else if int (length rows) < rBatchSize R then ret (Some ())
           else deliver n R } }"

fun relay_loop :: "nat \<Rightarrow> nat \<Rightarrow> ('w, bool) state \<Rightarrow> 'w Relay \<Rightarrow> ('w, unit option) state" where
  "relay_loop 0 fuel tick R = ret None"
| "relay_loop (Suc n) fuel tick R = do {
     ticked \<leftarrow> tick;
     if \<not> ticked then ret (Some ())
     else do {
       delivered \<leftarrow> deliver fuel R;
       case delivered of None \<Rightarrow> ret None | Some _ \<Rightarrow> relay_loop n fuel tick R } }"

text \<open>\<open>Relay.Run\<close>: deliver, then deliver on every tick until the context is done.\<close>

definition relay_Run :: "nat \<Rightarrow> nat \<Rightarrow> ('w, bool) state \<Rightarrow> 'w Relay \<Rightarrow> ('w, unit option) state" where
  "relay_Run n fuel tick R = do {
     delivered \<leftarrow> deliver fuel R;
     case delivered of None \<Rightarrow> ret None | Some _ \<Rightarrow> relay_loop n fuel tick R }"

section \<open>A database and a broker in one world\<close>

locale outbox_relay = gorm G view + broker publish view
  for G :: "'w gorm_db" and publish :: "'w Broker" and view :: "'w \<Rightarrow> 'v observed_scheme"

text \<open>A broker for the in-memory world.\<close>

definition mem_publish :: "mem_world Broker" where
  "mem_publish ex rk doc = do {
     r \<leftarrow> attempt (\<lambda>w. (Inr (), published_update (\<lambda>ps. ps @ [(ex, rk, json_print doc)]) w));
     ret (error_of r) }"

interpretation mem_relay: outbox_relay mem_gorm mem_publish obs
  by unfold_locales
     (auto simp: mem_publish_def attempt_def error_of_def Let_def split: if_splits)

definition message_of :: "Row \<Rightarrow> string \<times> string \<times> string" where
  "message_of row = (EventsExchange, RoutingKey row, json_print (Payload row))"

text \<open>The rows waiting for the relay, in the order of their keys.\<close>

definition pending_rows :: "'v tables_scheme \<Rightarrow> Row list" where
  "pending_rows v = sort_key ID (rows_where (\<lambda>_. True) (outbox_rows v))"

lemma set_pending: "row \<in> set (pending_rows v) \<longleftrightarrow> row \<in> set (outbox_rows v) \<and> live row"
  by (auto simp: pending_rows_def rows_where_def)

section \<open>Nothing is lost\<close>

text \<open>The difference a relay may make: some waiting rows were published, in the order of their
  keys within a batch; a row that is gone was among them; nothing else changed.\<close>

definition relayed :: "'v observed_scheme \<Rightarrow> Row list \<Rightarrow> 'v observed_scheme \<Rightarrow> bool" where
  "relayed v rows v' \<longleftrightarrow>
     published v' = published v @ map message_of rows
   \<and> set rows \<subseteq> set (pending_rows v)
   \<and> set (pending_rows v') \<subseteq> set (pending_rows v)
   \<and> set (pending_rows v) \<subseteq> set (pending_rows v') \<union> set rows
   \<and> repositories v' = repositories v \<and> subscriptions v' = subscriptions v \<and> sagas v' = sagas v
   \<and> counted v' = counted v"

lemma relayed_refl: "relayed v [] v"
  by (simp add: relayed_def)

lemma relayed_trans: "relayed u xs v \<Longrightarrow> relayed v ys w \<Longrightarrow> relayed u (xs @ ys) w"
  by (auto simp: relayed_def)

lemma pending_published [simp]: "pending_rows (published_update f v) = pending_rows v"
  by (simp add: pending_rows_def)

lemma pending_delete:
  "pending_rows (outbox_rows_update (update_where (\<lambda>r. ID r = i) (soft_delete t)) v)
     = filter (\<lambda>r. ID r \<noteq> i) (pending_rows v)"
proof -
  have "rows_where (\<lambda>_. True) (update_where (\<lambda>r. ID r = i) (soft_delete t) xs)
      = filter (\<lambda>r. ID r \<noteq> i) (rows_where (\<lambda>_. True) xs)" for xs :: "Row list"
    by (induction xs) (auto simp: rows_where_def update_where_def live_def soft_delete_def)
  then show ?thesis by (simp add: pending_rows_def filter_sort)
qed

lemma first_by_id_pending:
  "first_by_id n (outbox_rows v) = (if n < 0 then pending_rows v else take (nat n) (pending_rows v))"
  by (simp add: first_by_id_def pending_rows_def Let_def)

lemma pending_distinct: "db_ok v \<Longrightarrow> distinct (map ID (pending_rows v))"
  by (auto simp: db_ok_def pending_rows_def rows_where_def distinct_map inj_on_def)

text \<open>The pending rows after one row was published, its delete having worked or not.\<close>

lemma filter_other:
  assumes "distinct (map ID (row # rows))"
  shows "filter (\<lambda>r. ID r \<noteq> ID row) rows = rows"
proof -
  have "ID row \<notin> ID ` set rows" using assms by simp
  then show ?thesis by (metis (mono_tags, lifting) filter_True image_eqI)
qed

lemma NewRelay_simps [simp]:
  "rDb (NewRelay d b n) = d" "rBroker (NewRelay d b n) = b" "rBatchSize (NewRelay d b n) = n"
  by (simp_all add: NewRelay_def)

context outbox_relay begin

lemma deliver_row:
  assumes pub: "run (publish EventsExchange (RoutingKey row) (Payload row)) w = (None, w1)"
    and del: "run (gDelete (Rows G) (\<lambda>r. ID r = ID row)) w1 = (r, w2)"
    and row: "row \<in> set (pending_rows (view w))" and ok: "db_ok (view w)"
  shows "relayed (view w) [row] (view w2)" and "db_ok (view w2)"
    and "pending_rows (view w2) = (if r = None then filter (\<lambda>x. ID x \<noteq> ID row) (pending_rows (view w))
                                   else pending_rows (view w))"
proof -
  have v1: "view w1 = published_update (\<lambda>ps. ps @ [message_of row]) (view w)"
    using publish[OF pub] by (simp add: message_of_def)
  have "db_ok (published_update f v) = db_ok v" for f and v :: "'v observed_scheme"
    by (simp add: db_ok_def)
  then show "db_ok (view w2)" using rows.deletes[OF del] v1 ok by (auto split: option.splits)
  show p: "pending_rows (view w2) = (if r = None then filter (\<lambda>x. ID x \<noteq> ID row) (pending_rows (view w))
                                   else pending_rows (view w))"
    using rows.deletes[OF del] v1 by (auto simp: pending_delete split: option.splits)
  have "x = row" if "x \<in> set (pending_rows (view w))" "ID x = ID row" for x
    using that row pending_distinct[OF ok] by (auto simp: distinct_map dest: inj_onD)
  then show "relayed (view w) [row] (view w2)"
    unfolding relayed_def p using rows.deletes[OF del] v1 row
    by (auto split: option.splits)
qed

text \<open>One batch: a prefix of it is published, all of it unless a publish failed.\<close>

lemma deliver_rows_run:
  assumes "run (deliver_rows (NewRelay G publish n) rows) w = (ok, w')" and "db_ok (view w)"
    and "set rows \<subseteq> set (pending_rows (view w))" and "distinct (map ID rows)"
  shows "\<exists>k. relayed (view w) (take k rows) (view w') \<and> db_ok (view w') \<and> (ok \<longrightarrow> k = length rows)"
  using assms
proof (induction rows arbitrary: w)
  case Nil
  then show ?case by (auto simp: relayed_refl)
next
  case (Cons row rows)
  obtain e w1 where pub: "run (publish EventsExchange (RoutingKey row) (Payload row)) w = (e, w1)"
    by (rule prod.exhaust)
  show ?case
  proof (cases e)
    case (Some x)
    then have "view w' = view w" and "\<not> ok" using Cons.prems(1) pub publish[OF pub] by auto
    then show ?thesis using Cons.prems(2) by (auto simp: relayed_refl intro!: exI[of _ 0])
  next
    case None
    obtain d w2 where del: "run (gDelete (Rows G) (\<lambda>r. ID r = ID row)) w1 = (d, w2)"
      by (rule prod.exhaust)
    have rest: "run (deliver_rows (NewRelay G publish n) rows) w2 = (ok, w')"
      using Cons.prems(1) pub None del by simp
    have row: "row \<in> set (pending_rows (view w))" using Cons.prems(3) by simp
    note step = deliver_row[OF pub[unfolded None] del row Cons.prems(2)]
    have "set rows \<subseteq> set (pending_rows (view w2))"
    proof -
      have "set (filter (\<lambda>x. ID x \<noteq> ID row) rows) \<subseteq> set (pending_rows (view w2))"
        using step(3) Cons.prems(3) by auto
      then show ?thesis using filter_other[OF Cons.prems(4)] by simp
    qed
    from Cons.IH[OF rest step(2) this] Cons.prems(4)
    obtain k where k: "relayed (view w2) (take k rows) (view w')" "db_ok (view w')"
        "ok \<longrightarrow> k = length rows" by auto
    from relayed_trans[OF step(1) k(1)] k(2,3) show ?thesis by (auto intro!: exI[of _ "Suc k"])
  qed
qed

lemma deliver_run:
  assumes "run (deliver fuel (NewRelay G publish n)) w = (r, w')" and "db_ok (view w)"
  shows "\<exists>rows. relayed (view w) rows (view w') \<and> db_ok (view w')"
  using assms
proof (induction fuel arbitrary: w)
  case 0
  then show ?case by (auto intro: relayed_refl)
next
  case (Suc fuel)
  obtain f w1 where f: "run (gFindByID (Rows G) n) w = (f, w1)" by (rule prod.exhaust)
  have v1: "view w1 = view w" and batch: "\<And>rs. f = Inr rs \<Longrightarrow> rs = first_by_id n (outbox_rows (view w))"
    using rows.by_id[OF f] by auto
  show ?case
  proof (cases "\<exists>rs. f = Inr rs \<and> rs \<noteq> []")
    case False
    then have "view w' = view w" using Suc.prems(1) f v1 by (auto split: sum.splits)
    then show ?thesis using Suc.prems(2) relayed_refl by metis
  next
    case True
    then obtain rs where rs: "f = Inr rs" "rs \<noteq> []" by blast
    obtain ok w2 where d: "run (deliver_rows (NewRelay G publish n) rs) w1 = (ok, w2)" by (rule prod.exhaust)
    have sub: "set rs \<subseteq> set (pending_rows (view w1))" and dist: "distinct (map ID rs)"
      using batch[OF rs(1)] v1 pending_distinct[OF Suc.prems(2)] set_take_subset
      by (auto simp: first_by_id_pending take_map[symmetric] split: if_splits) fast
    obtain k where k: "relayed (view w) (take k rs) (view w2)" "db_ok (view w2)"
      using deliver_rows_run[OF d] Suc.prems(2) v1 sub dist by auto
    show ?thesis
    proof (cases "ok \<and> \<not> int (length rs) < n")
      case True
      then have "run (deliver fuel (NewRelay G publish n)) w2 = (r, w')"
        using Suc.prems(1) f rs d by simp
      from Suc.IH[OF this k(2)] relayed_trans[OF k(1)] show ?thesis by blast
    next
      case False
      then have "w' = w2" using Suc.prems(1) f rs d by (auto split: if_splits)
      then show ?thesis using k by blast
    qed
  qed
qed

end

section \<open>A database that deletes\<close>

context outbox_relay begin

text \<open>With working deletes a batch is a prefix of the queue and is taken off it in order.\<close>

lemma deliver_rows_fifo:
  assumes ok_db: "\<And>w. up w \<Longrightarrow> db_ok (view w)"
    and dels: "\<And>P. reliably up (gDelete (Rows G) P) (\<lambda>r. r = None)"
    and pubs: "\<And>ex rk doc. reliably up (publish ex rk doc) (\<lambda>_. True)"
  assumes "run (deliver_rows (NewRelay G publish n) rows) w = (ok, w')" and "up w"
    and "pending_rows (view w) = rows @ rest"
  shows "\<exists>k \<le> length rows. published (view w') = published (view w) @ map message_of (take k rows)
     \<and> pending_rows (view w') = drop k rows @ rest \<and> up w'
     \<and> (ok \<longleftrightarrow> k = length rows)"
  using assms(4-)
proof (induction rows arbitrary: w)
  case Nil
  then show ?case by auto
next
  case (Cons row rows)
  obtain e w1 where pub: "run (publish EventsExchange (RoutingKey row) (Payload row)) w = (e, w1)"
    by (rule prod.exhaust)
  have up1: "up w1" using reliablyD(1)[OF pubs pub Cons.prems(2)] .
  show ?case
  proof (cases e)
    case (Some x)
    then have "w' = w1" and "view w1 = view w" and "\<not> ok" using Cons.prems(1) pub publish[OF pub] by auto
    then show ?thesis using up1 Cons.prems(3) by (auto intro!: exI[of _ 0])
  next
    case None
    obtain d w2 where del: "run (gDelete (Rows G) (\<lambda>r. ID r = ID row)) w1 = (d, w2)"
      by (rule prod.exhaust)
    have d: "d = None" and up2: "up w2" using reliablyD[OF dels del up1] by simp_all
    have more: "run (deliver_rows (NewRelay G publish n) rows) w2 = (ok, w')"
      using Cons.prems(1) pub None del by simp
    have row: "row \<in> set (pending_rows (view w))" using Cons.prems(3) by simp
    note step = deliver_row[OF pub[unfolded None] del row ok_db[OF Cons.prems(2)]]
    have "distinct (map ID (row # rows @ rest))"
      using pending_distinct[OF ok_db[OF Cons.prems(2)]] Cons.prems(3) by simp
    from filter_other[OF this] have "pending_rows (view w2) = rows @ rest"
      using step(3) d Cons.prems(3) by simp
    from Cons.IH[OF more up2 this]
    obtain k where "k \<le> length rows"
      "published (view w') = published (view w2) @ map message_of (take k rows)"
      "pending_rows (view w') = drop k rows @ rest" "up w'" "ok \<longleftrightarrow> k = length rows"
      by blast
    then show ?thesis
      using step(1) by (auto simp: relayed_def intro!: exI[of _ "Suc k"])
  qed
qed

lemma deliver_rows_ok:
  assumes "\<And>P. reliably up (gDelete (Rows G) P) (\<lambda>r. r = None)"
    and "\<And>ex rk doc. reliably up (publish ex rk doc) (\<lambda>r. r = None)"
    and "run (deliver_rows (NewRelay G publish n) rs) w = (ok, w')" and "up w"
  shows ok
  using assms(3,4)
proof (induction rs arbitrary: w)
  case (Cons row rs)
  obtain e w1 where pub: "run (publish EventsExchange (RoutingKey row) (Payload row)) w = (e, w1)"
    by (rule prod.exhaust)
  obtain d w2 where del: "run (gDelete (Rows G) (\<lambda>r. ID r = ID row)) w1 = (d, w2)"
    by (rule prod.exhaust)
  have "e = None" and "up w2"
    using reliablyD[OF assms(2) pub Cons.prems(2)] reliablyD(1)[OF assms(1) del] by simp_all
  then show ?case using Cons pub del by auto
qed simp

lemma deliver_fifo:
  assumes ok_db: "\<And>w. up w \<Longrightarrow> db_ok (view w)"
    and dels: "\<And>P. reliably up (gDelete (Rows G) P) (\<lambda>r. r = None)"
    and pubs: "\<And>ex rk doc. reliably up (publish ex rk doc) (\<lambda>_. True)"
    and finds: "reliably up (gFindByID (Rows G) n) (\<lambda>_. True)"
    and n: "n \<noteq> 0"
  assumes "run (deliver fuel (NewRelay G publish n)) w = (r, w')" and "up w"
  shows "\<exists>k. published (view w') = published (view w) @ map message_of (take k (pending_rows (view w)))
     \<and> pending_rows (view w') = drop k (pending_rows (view w))
     \<and> (length (pending_rows (view w)) < fuel \<longrightarrow> r = Some ())
     \<and> (r = Some () \<longrightarrow> reliably up (gFindByID (Rows G) n) (\<lambda>r. \<exists>rs. r = Inr rs)
         \<longrightarrow> (\<forall>ex rk doc. reliably up (publish ex rk doc) (\<lambda>r. r = None))
         \<longrightarrow> length (pending_rows (view w)) \<le> k)"
  using assms(6-)
proof (induction fuel arbitrary: w)
  case 0
  then show ?case by (auto intro!: exI[of _ 0])
next
  case (Suc fuel)
  obtain f w1 where f: "run (gFindByID (Rows G) n) w = (f, w1)" by (rule prod.exhaust)
  let ?p = "pending_rows (view w)"
  have v1: "view w1 = view w" and batch: "\<And>rs. f = Inr rs \<Longrightarrow> rs = first_by_id n (outbox_rows (view w))"
    and up1: "up w1"
    using rows.by_id[OF f] reliablyD(1)[OF finds f Suc.prems(2)] by auto
  show ?case
  proof (cases f)
    case (Inl e)
    then have "view w' = view w" and "r = Some ()" using Suc.prems(1) f v1 by auto
    moreover have "\<not> reliably up (gFindByID (Rows G) n) (\<lambda>r. \<exists>rs. r = Inr rs)"
      using f Inl Suc.prems(2) unfolding reliably_def by fastforce
    ultimately show ?thesis by (auto intro!: exI[of _ 0])
  next
    case (Inr rs)
    have rs: "rs = (if n < 0 then ?p else take (nat n) ?p)"
      using batch[OF Inr] by (simp add: first_by_id_pending)
    show ?thesis
    proof (cases "rs = []")
      case True
      then have "?p = []" using rs n by (auto split: if_splits)
      moreover have "view w' = view w" and "r = Some ()" using Suc.prems(1) f v1 Inr True by auto
      ultimately show ?thesis by (auto intro!: exI[of _ 0])
    next
      case False
      obtain ok w2 where d: "run (deliver_rows (NewRelay G publish n) rs) w1 = (ok, w2)" by (rule prod.exhaust)
      have split: "pending_rows (view w1) = rs @ drop (length rs) ?p"
        using rs v1 by (auto simp: min_def)
      obtain k where k: "k \<le> length rs"
          "published (view w2) = published (view w) @ map message_of (take k rs)"
          "pending_rows (view w2) = drop k rs @ drop (length rs) ?p" "up w2"
          "ok \<longleftrightarrow> k = length rs"
        using deliver_rows_fifo[OF ok_db dels pubs d up1 split] v1 by auto
      have pk: "take k ?p = take k rs" "drop k ?p = pending_rows (view w2)"
        using split v1 k(1,3) by (metis take_append diff_is_0_eq take_0 append_Nil2)
          (metis split v1 k(1,3) drop_append diff_is_0_eq drop0)
      show ?thesis
      proof (cases "ok \<and> \<not> int (length rs) < n")
        case True
        then have more: "run (deliver fuel (NewRelay G publish n)) w2 = (r, w')"
          using Suc.prems(1) f Inr False d by simp
        from Suc.IH[OF this k(4)] obtain j where
          j: "published (view w') = published (view w2) @ map message_of (take j (pending_rows (view w2)))"
          "pending_rows (view w') = drop j (pending_rows (view w2))"
          "length (pending_rows (view w2)) < fuel \<longrightarrow> r = Some ()"
          "r = Some () \<longrightarrow> reliably up (gFindByID (Rows G) n) (\<lambda>r. \<exists>rs. r = Inr rs)
            \<longrightarrow> (\<forall>ex rk doc. reliably up (publish ex rk doc) (\<lambda>r. r = None))
            \<longrightarrow> length (pending_rows (view w2)) \<le> j" by blast
        have "0 < k" using True k(5) False by simp
        moreover have "k \<le> length ?p" using k(1) arg_cong[OF split, of length] v1 by simp
        ultimately have less: "length (pending_rows (view w2)) < length ?p"
          using pk(2) by (metis diff_less length_drop less_le_trans)
        have e1: "drop (k + j) ?p = drop j (pending_rows (view w2))"
          by (metis pk(2) drop_drop add.commute)
        have e2: "length (pending_rows (view w2)) \<le> j \<Longrightarrow> length ?p \<le> k + j"
          using arg_cong[OF pk(2), of length] by simp
        have e3: "take (k + j) ?p = take k ?p @ take j (drop k ?p)" by (rule take_add)
        show ?thesis
        proof (intro exI conjI)
          show "published (view w') = published (view w) @ map message_of (take (k + j) ?p)"
            using j(1) k(2) pk e3 by simp
          show "pending_rows (view w') = drop (k + j) ?p" using j(2) e1 by simp
          show "length ?p < Suc fuel \<longrightarrow> r = Some ()" using j(3) less by linarith
        qed (use j(4) e2 in blast)
      next
        case stop: False
        then have w': "w' = w2" "r = Some ()" using Suc.prems(1) f Inr False d by (auto split: if_splits)
        have all: "length ?p \<le> k"
          if "\<forall>ex rk doc. reliably up (publish ex rk doc) (\<lambda>r. r = None)"
        proof -
          have "ok" using that by (intro deliver_rows_ok[OF dels _ d up1]) simp
          with stop have "int (length rs) < n" by simp
          then have "rs = ?p" using rs by (auto split: if_splits simp: min_def)
          then show ?thesis using \<open>ok\<close> k(5) by simp
        qed
        show ?thesis using k(2) pk w' all by (auto intro!: exI[of _ k])
      qed
    qed
  qed
qed

end

section \<open>A database that does not delete\<close>

context outbox_relay begin

lemma deliver_rows_stuck:
  assumes pubs: "\<And>ex rk doc. reliably up (publish ex rk doc) (\<lambda>r. r = None)"
    and stuck: "\<And>P. reliably up (gDelete (Rows G) P) (\<lambda>r. r \<noteq> None)"
    and "run (deliver_rows (NewRelay G publish n) rows) w = (ok, w')" and "up w"
  shows "ok \<and> up w' \<and> view w' = published_update (\<lambda>ps. ps @ map message_of rows) (view w)"
  using assms(3,4)
proof (induction rows arbitrary: w)
  case Nil
  then show ?case by simp
next
  case (Cons row rows)
  obtain e w1 where pub: "run (publish EventsExchange (RoutingKey row) (Payload row)) w = (e, w1)"
    by (rule prod.exhaust)
  have e: "e = None" and up1: "up w1" using reliablyD[OF pubs pub Cons.prems(2)] by simp_all
  obtain d w2 where del: "run (gDelete (Rows G) (\<lambda>r. ID r = ID row)) w1 = (d, w2)"
    by (rule prod.exhaust)
  obtain x where "d = Some x" and up2: "up w2" using reliablyD[OF stuck del up1] by auto
  then have v2: "view w2 = published_update (\<lambda>ps. ps @ [message_of row]) (view w)"
    using publish[OF pub] e rows.deletes[OF del] by (simp add: message_of_def)
  have "run (deliver_rows (NewRelay G publish n) rows) w2 = (ok, w')"
    using Cons.prems(1) pub e del by simp
  from Cons.IH[OF this up2] show ?case
    unfolding v2 by (simp add: comp_def)
qed

lemma deliver_stuck:
  assumes finds: "reliably up (gFindByID (Rows G) n) (\<lambda>r. \<exists>rs. r = Inr rs)"
    and pubs: "\<And>ex rk doc. reliably up (publish ex rk doc) (\<lambda>r. r = None)"
    and stuck: "\<And>P. reliably up (gDelete (Rows G) P) (\<lambda>r. r \<noteq> None)"
    and n: "1 \<le> n" "n \<le> int (length (pending_rows (view w)))"
    and "run (deliver fuel (NewRelay G publish n)) w = (r, w')" and "up w"
  shows "r = None \<and> published (view w')
    = published (view w) @ concat (replicate fuel (map message_of (take (nat n) (pending_rows (view w)))))"
  using assms(4-)
proof (induction fuel arbitrary: w)
  case (Suc fuel)
  obtain f w1 where f: "run (gFindByID (Rows G) n) w = (f, w1)" by (rule prod.exhaust)
  obtain rs where rs: "f = Inr rs" and up1: "up w1" using reliablyD[OF finds f Suc.prems(4)] by auto
  have v1: "view w1 = view w" and batch: "rs = take (nat n) (pending_rows (view w))"
    using rows.by_id[OF f] rs n(1) by (auto simp: first_by_id_pending)
  have ne: "rs \<noteq> []" and len: "int (length rs) = n" using batch Suc.prems(1,2) by (auto simp: min_def)
  obtain ok w2 where d: "run (deliver_rows (NewRelay G publish n) rs) w1 = (ok, w2)" by (rule prod.exhaust)
  have v2: "view w2 = published_update (\<lambda>ps. ps @ map message_of rs) (view w)" and ok and up2: "up w2"
    using deliver_rows_stuck[OF pubs stuck d up1] v1 by simp_all
  have "run (deliver fuel (NewRelay G publish n)) w2 = (r, w')"
    using Suc.prems(3) f rs ne d len \<open>ok\<close> by simp
  from Suc.IH[OF Suc.prems(1) _ this up2] Suc.prems(2) show ?case by (simp add: v2 batch)
qed simp

end

section \<open>The properties\<close>

text \<open>
  C6: The relay is at least once: however often it is interrupted and whatever calls fail, every
  row that waited is still waiting or was published and confirmed, each message it published
  is that of a row that waited, and it changes no other table.
\<close>

theorem relay_loses_nothing:
  assumes "outbox_relay G publish view" and "db_ok (view w)"
    and "run (deliver fuel (NewRelay G publish n)) w = (r, w')"
  shows "\<exists>rows. relayed (view w) rows (view w')"
  using outbox_relay.deliver_run[OF assms(1,3,2)] by blast


text \<open>
  C28: When every delete fails while the broker works, a full batch is published again and again
  within one call of \<open>deliver\<close>, which never returns, so no tick and no cancellation of the
  context is seen any more.
\<close>

theorem relay_loops_on_failing_deletes:
  assumes "outbox_relay G publish view"
    and "reliably up (gFindByID (Rows G) n) (\<lambda>r. \<exists>rs. r = Inr rs)"
    and "\<And>ex rk doc. reliably up (publish ex rk doc) (\<lambda>r. r = None)"
    and "\<And>P. reliably up (gDelete (Rows G) P) (\<lambda>r. r \<noteq> None)"
    and "1 \<le> n" and "n \<le> int (length (pending_rows (view w)))" and "up w"
  shows "\<forall>fuel. case run (deliver fuel (NewRelay G publish n)) w of (r, w') \<Rightarrow>
     r = None \<and> published (view w') = published (view w)
       @ concat (replicate fuel (map message_of (take (nat n) (pending_rows (view w)))))"
  using outbox_relay.deliver_stuck[OF assms(1-6) _ assms(7)] by auto

section \<open>The theorems at work\<close>

definition two_rows :: mem_world where
  "two_rows = empty_world\<lparr>outbox_rows :=
     [\<lparr>ID = 2, CreatedAt = 0, DeletedAt = None, RoutingKey = ''b'', Payload = JNull\<rparr>,
      \<lparr>ID = 1, CreatedAt = 0, DeletedAt = None, RoutingKey = ''a'', Payload = JNull\<rparr>]\<rparr>"

definition mem_up :: "mem_world \<Rightarrow> bool" where
  "mem_up w = (faults w = [] \<and> db_ok w)"

lemma two_rows_ok: "db_ok two_rows" "mem_up two_rows"
  by (simp_all add: mem_up_def db_ok_def two_rows_def empty_world_def unique_live_def rows_where_def live_def)

lemma pending_two_rows: "map RoutingKey (pending_rows (obs two_rows)) = [''a'', ''b'']"
  by (simp add: pending_rows_def two_rows_def empty_world_def rows_where_def live_def sort_key_def
      insort_key_def)

lemma db_ok_mem [simp]:
  "db_ok (w\<lparr>faults := x\<rparr>) = db_ok w" "db_ok (w\<lparr>clock := y\<rparr>) = db_ok w"
  "db_ok (published_update f w) = db_ok w"
  by (simp_all add: db_ok_def)

lemma db_ok_delete_rows: "db_ok w \<Longrightarrow> db_ok (outbox_rows_update (update_where P (soft_delete t)) w)"
proof -
  have "map ID (update_where P (soft_delete t) xs) = map ID xs" for xs :: "Row list"
    by (simp add: update_where_def soft_delete_def)
  then show "db_ok w \<Longrightarrow> ?thesis" by (simp add: db_ok_def)
qed

lemma mem_reliable:
  "reliably mem_up (gFindByID (Rows mem_gorm) n) (\<lambda>r. \<exists>rs. r = Inr rs)"
  "reliably mem_up (gDelete (Rows mem_gorm) P) (\<lambda>r. r = None)"
  "reliably mem_up (mem_publish ex rk doc) (\<lambda>r. r = None)"
  by (auto simp: reliably_def mem_up_def mem_gorm_def mem_table_def read_call_def write_call_def
      attempt_def mem_publish_def error_of_def Let_def db_ok_delete_rows)

lemma reliably_mono: "reliably up m Q \<Longrightarrow> (\<And>r. Q r \<Longrightarrow> R r) \<Longrightarrow> reliably up m R"
  unfolding reliably_def by blast

theorem relay_loses_nothing_witness:
  "\<exists>rows. relayed (obs two_rows) rows
     (obs (snd (run (deliver 3 (NewRelay mem_gorm mem_publish 1)) (two_rows\<lparr>faults := [False, True]\<rparr>))))"
  using relay_loses_nothing[of mem_gorm mem_publish obs "two_rows\<lparr>faults := [False, True]\<rparr>" 3 1,
      OF mem_relay.outbox_relay_axioms _ surjective_pairing] two_rows_ok
  by (simp add: db_ok_obs)


text \<open>A database whose outbox cannot be deleted from.\<close>

definition undeletable_gorm :: "mem_world gorm_db" where
  "undeletable_gorm = mem_gorm\<lparr>Rows := (Rows mem_gorm)\<lparr>gDelete := \<lambda>P. ret (Some (Err ''read-only''))\<rparr>\<rparr>"

lemma undeletable_relay: "outbox_relay undeletable_gorm mem_publish obs"
proof -
  have "gorm_table (Rows undeletable_gorm) obs outbox_rows outbox_rows_update"
    using mem.rows.gorm_table_axioms
    by (simp add: gorm_table_def undeletable_gorm_def)
  moreover have "transaction_ok obs undeletable_gorm"
    using mem.transaction by (simp add: transaction_ok_def undeletable_gorm_def)
  moreover have "tx_ok obs (TransactionIDs undeletable_gorm)"
    using mem.transaction_ids by (simp add: undeletable_gorm_def)
  ultimately have "gorm undeletable_gorm obs"
    using mem.repos.gorm_table_axioms mem.subs.gorm_table_axioms mem.sagas.gorm_table_axioms
    by (intro gorm.intro gorm_axioms.intro) (simp_all add: undeletable_gorm_def)
  then show ?thesis using mem_relay.broker_axioms by (rule outbox_relay.intro)
qed

theorem relay_loops_on_failing_deletes_witness:
  "\<forall>fuel. fst (run (deliver fuel (NewRelay undeletable_gorm mem_publish 2)) two_rows) = None"
proof -
  have "reliably mem_up (gFindByID (Rows undeletable_gorm) 2) (\<lambda>r. \<exists>rs. r = Inr rs)"
    using mem_reliable(1) by (simp add: undeletable_gorm_def)
  moreover have "reliably mem_up (gDelete (Rows undeletable_gorm) P) (\<lambda>r. r \<noteq> None)" for P
    by (simp add: undeletable_gorm_def reliably_def)
  moreover have "2 \<le> int (length (pending_rows (obs two_rows)))"
    using arg_cong[OF pending_two_rows, of length] by simp
  ultimately show ?thesis
    using relay_loops_on_failing_deletes[of undeletable_gorm mem_publish obs mem_up 2 two_rows,
        OF undeletable_relay _ mem_reliable(3)] two_rows_ok
    by (simp add: split_beta)
qed

section \<open>Insertion as a call\<close>

context gorm begin

lemma InsertTx_call:
  assumes "run (InsertTx G events) w = (r, w')"
  shows "case r of
      Some e \<Rightarrow> db_error e \<and> view w' = view w
    | None \<Rightarrow> (if events = [] then view w' = view w
              else db_ok (view w') \<and> (\<exists>rows. all_assigned (outbox_rows (view w)) (map new_row events) rows
                \<and> view w' = outbox_rows_update (\<lambda>xs. xs @ rows) (view w)))"
proof (cases "events = []")
  case False
  then obtain c where "run (gCreateAll (Rows G) (map new_row events)) w = (c, w')"
    and "r = (case c of Inl err \<Rightarrow> Some err | Inr _ \<Rightarrow> None)"
    using assms by (auto simp: InsertTx_def split: prod.splits)
  with rows.create_all[OF this(1)] False show ?thesis by (auto split: sum.splits)
qed (use assms in \<open>simp add: InsertTx_def\<close>)

end

end
