(* ===== verification/Orchestrator.thy ===== *)
theory Orchestrator
  imports Consumer Gorm_Mem
begin

text \<open>
  \<open>internal/worker/orchestrator\<close>: the saga store over GORM (\<open>store.go\<close>), the handler of the
  mailer's result events (\<open>orchestrator.go\<close>, \<open>broker.go\<close>) and the reaper of stale sagas
  (\<open>reaper.go\<close>). The locale \<open>saga_store\<close> is the contract of the interface \<open>Store\<close>, which the
  GORM store is shown to meet. The theorems: a delivery is settled exactly once, as the last
  thing its handler does; a saga leaves \<open>awaiting_delivery\<close> at most once; a compensation
  deletes pending subscriptions only, in one step with the saga's transition; the reaper
  touches stale sagas only.
\<close>

section \<open>The store\<close>

record 'w Store =
  SagaStateOf :: "string \<Rightarrow> ('w, goerror + SagaState) state"
  MarkCompleted :: "string \<Rightarrow> ('w, goerror option) state"
  Compensate :: "string \<Rightarrow> ('w, goerror option) state"
  StaleAwaitingTokens :: "int \<Rightarrow> ('w, goerror + string list) state"

definition store_SagaState :: "'w gorm_db \<Rightarrow> string \<Rightarrow> ('w, goerror + SagaState) state" where
  "store_SagaState G token = do {
     found \<leftarrow> gFirst (Sagas G) (\<lambda>s. sagaToken s = token);
     ret (case found of Inl err \<Rightarrow> Inl err | Inr saga \<Rightarrow> Inr (sagaState saga)) }"

definition store_MarkCompleted :: "'w gorm_db \<Rightarrow> string \<Rightarrow> ('w, goerror option) state" where
  "store_MarkCompleted G token = do {
     res \<leftarrow> gUpdates (Sagas G) (\<lambda>s. sagaToken s = token \<and> sagaState s = SagaAwaitingDelivery)
              (\<lambda>s. s\<lparr>sagaState := SagaCompleted\<rparr>);
     ret (case res of
            Inl err \<Rightarrow> Some err
          | Inr affected \<Rightarrow> if affected = 0 then Some ErrAlreadySettled else None) }"

definition store_Compensate :: "'w gorm_db \<Rightarrow> string \<Rightarrow> ('w, goerror option) state" where
  "store_Compensate G token = Transaction G (do {
     res \<leftarrow> gUpdates (Sagas G) (\<lambda>s. sagaToken s = token \<and> sagaState s = SagaAwaitingDelivery)
              (\<lambda>s. s\<lparr>sagaState := SagaCompensated\<rparr>);
     case res of
       Inl err \<Rightarrow> ret (Some err)
     | Inr affected \<Rightarrow>
         if affected = 0 then ret (Some ErrAlreadySettled)
         else gDelete (Subscriptions G)
                (\<lambda>s. ConfirmToken s = token \<and> subStatus s = StatusPending) })"

text \<open>\<open>Pluck\<close> reads one column of the rows found; \<open>now\<close> is \<open>time.Now()\<close>.\<close>

definition store_StaleAwaitingTokens ::
  "'w gorm_db \<Rightarrow> ('w, int) state \<Rightarrow> int \<Rightarrow> ('w, goerror + string list) state" where
  "store_StaleAwaitingTokens G now olderThan = do {
     t \<leftarrow> now;
     found \<leftarrow> gFind (Sagas G) (\<lambda>s. sagaState s = SagaAwaitingDelivery \<and> CreatedAt s < t - olderThan);
     ret (case found of Inl err \<Rightarrow> Inl err | Inr rows \<Rightarrow> Inr (map sagaToken rows)) }"

definition NewStore :: "'w gorm_db \<Rightarrow> ('w, int) state \<Rightarrow> 'w Store" where
  "NewStore G now =
     \<lparr>SagaStateOf = store_SagaState G, MarkCompleted = store_MarkCompleted G,
      Compensate = store_Compensate G,
      StaleAwaitingTokens = store_StaleAwaitingTokens G now\<rparr>"

section \<open>The result handler\<close>

definition claim :: "'w Store \<Rightarrow> string \<Rightarrow> 'w Settler \<Rightarrow> ('w, bool) state" where
  "claim S token s = do {
     found \<leftarrow> SagaStateOf S token;
     case found of
       Inl err \<Rightarrow>
         if err = ErrRecordNotFound then do { sAck s; ret False }
         else do { sRetry s (''saga lookup: '' @ err_text err); ret False }
     | Inr st \<Rightarrow>
         if st \<noteq> SagaAwaitingDelivery then do { sAck s; ret False }
         else ret True }"

text \<open>\<open>settle\<close>; of \<open>settleLog\<close> only the retry message has an effect.\<close>

definition settle ::
  "'w Store \<Rightarrow> string \<Rightarrow> 'w Settler \<Rightarrow> (string \<Rightarrow> ('w, goerror option) state) \<Rightarrow> string
     \<Rightarrow> ('w, unit) state" where
  "settle S token s write retry = do {
     claimed \<leftarrow> claim S token s;
     if \<not> claimed then ret ()
     else do {
       written \<leftarrow> write token;
       case written of
         Some err \<Rightarrow>
           if err = ErrAlreadySettled then sAck s
           else sRetry s (retry @ err_text err)
       | None \<Rightarrow> sAck s } }"

definition complete :: "'w Store \<Rightarrow> string \<Rightarrow> 'w Settler \<Rightarrow> ('w, unit) state" where
  "complete S token s = settle S token s (MarkCompleted S) ''mark completed: ''"

definition compensate :: "'w Store \<Rightarrow> string \<Rightarrow> 'w Settler \<Rightarrow> ('w, unit) state" where
  "compensate S token s = settle S token s (Compensate S) ''compensate: ''"

definition orchestrator_process :: "'w Store \<Rightarrow> string \<Rightarrow> 'w Settler \<Rightarrow> ('w, unit) state" where
  "orchestrator_process S body s =
     (case unmarshal_Envelope body of
        Inl err \<Rightarrow> sDeadLetter s (''unmarshal envelope: '' @ err_text err)
      | Inr env \<Rightarrow>
          if EnvType env = TypeVerificationDelivered then
            (case DecodeVerificationDelivered env of
               Inl err \<Rightarrow> sDeadLetter s (''decode verification.delivered: '' @ err_text err)
             | Inr p \<Rightarrow> complete S (vdToken p) s)
          else if EnvType env = TypeVerificationFailed then
            (case DecodeVerificationFailed env of
               Inl err \<Rightarrow> sDeadLetter s (''decode verification.failed: '' @ err_text err)
             | Inr p \<Rightarrow> compensate S (vfToken p) s)
          else sDeadLetter s (''unexpected event type: '' @ quoted (EnvType env)))"

definition orchestrator_Handler :: "'w Store \<Rightarrow> 'w DeliveryHandler" where
  "orchestrator_Handler S body s = orchestrator_process S body s"

section \<open>The reaper\<close>

definition sweep :: "'w Store \<Rightarrow> int \<Rightarrow> ('w, unit) state" where
  "sweep S staleAfter = do {
     found \<leftarrow> StaleAwaitingTokens S staleAfter;
     case found of
       Inl err \<Rightarrow> ret ()
     | Inr tokens \<Rightarrow> for_each tokens (\<lambda>token. do { err \<leftarrow> Compensate S token; ret () }) }"

text \<open>\<open>Reaper.Run\<close> sweeps at once and then on every tick until the context is done; \<open>tick\<close> is
  the \<open>select\<close>, \<open>True\<close> for a tick. \<open>None\<close> is a reaper that is still running.\<close>

fun reaper_loop :: "nat \<Rightarrow> ('w, bool) state \<Rightarrow> 'w Store \<Rightarrow> int \<Rightarrow> ('w, unit option) state" where
  "reaper_loop 0 tick S staleAfter = ret None"
| "reaper_loop (Suc n) tick S staleAfter = do {
     ticked \<leftarrow> tick;
     if ticked then do { sweep S staleAfter; reaper_loop n tick S staleAfter }
     else ret (Some ()) }"

definition reaper_Run :: "nat \<Rightarrow> ('w, bool) state \<Rightarrow> 'w Store \<Rightarrow> int \<Rightarrow> ('w, unit option) state" where
  "reaper_Run fuel tick S staleAfter = do { sweep S staleAfter; reaper_loop fuel tick S staleAfter }"

record 'w Reaper =
  reaperStore :: "'w Store"
  reaperPollInterval :: int
  reaperStaleAfter :: int

definition NewReaper :: "'w Store \<Rightarrow> int \<Rightarrow> int \<Rightarrow> 'w Reaper" where
  "NewReaper store pollInterval staleAfter =
     \<lparr>reaperStore = store, reaperPollInterval = pollInterval, reaperStaleAfter = staleAfter\<rparr>"

record 'w Orchestrator =
  orchStore :: "'w Store"

definition NewOrchestrator :: "'w Store \<Rightarrow> 'w Orchestrator" where
  "NewOrchestrator store = \<lparr>orchStore = store\<rparr>"

section \<open>Every delivery is settled exactly once\<close>

text \<open>What the handler decides, without the settler.\<close>

definition settle_decision ::
  "'w Store \<Rightarrow> string \<Rightarrow> (string \<Rightarrow> ('w, goerror option) state) \<Rightarrow> string
     \<Rightarrow> ('w, settle_action) state" where
  "settle_decision S token write retry = do {
     found \<leftarrow> SagaStateOf S token;
     case found of
       Inl err \<Rightarrow> ret (if err = ErrRecordNotFound then ActAck
                      else ActRetry (''saga lookup: '' @ err_text err))
     | Inr st \<Rightarrow>
         if st \<noteq> SagaAwaitingDelivery then ret ActAck
         else do {
           written \<leftarrow> write token;
           ret (case written of
                  Some err \<Rightarrow> if err = ErrAlreadySettled then ActAck
                             else ActRetry (retry @ err_text err)
                | None \<Rightarrow> ActAck) } }"

definition orchestrator_decision :: "'w Store \<Rightarrow> string \<Rightarrow> ('w, settle_action) state" where
  "orchestrator_decision S body =
     (case unmarshal_Envelope body of
        Inl err \<Rightarrow> ret (ActDeadLetter (''unmarshal envelope: '' @ err_text err))
      | Inr env \<Rightarrow>
          if EnvType env = TypeVerificationDelivered then
            (case DecodeVerificationDelivered env of
               Inl err \<Rightarrow> ret (ActDeadLetter (''decode verification.delivered: '' @ err_text err))
             | Inr p \<Rightarrow> settle_decision S (vdToken p) (MarkCompleted S) ''mark completed: '')
          else if EnvType env = TypeVerificationFailed then
            (case DecodeVerificationFailed env of
               Inl err \<Rightarrow> ret (ActDeadLetter (''decode verification.failed: '' @ err_text err))
             | Inr p \<Rightarrow> settle_decision S (vfToken p) (Compensate S) ''compensate: '')
          else ret (ActDeadLetter (''unexpected event type: '' @ quoted (EnvType env))))"

lemma settle_eq_decision:
  "settle S token s write retry
     = do { a \<leftarrow> settle_decision S token write retry; settle_with s a }"
  by (rule state_ext)
     (auto simp: settle_def claim_def settle_decision_def split: prod.splits sum.splits option.splits)

text \<open>
  Whatever the body, the store and the settler do, a delivery is settled exactly once and
  that is the last thing its handler does: the handler is its decision, which never calls the
  settler, followed by the one call the decision names.
\<close>

lemma Handler_eq_decision:
  "orchestrator_Handler S body s
     = do { a \<leftarrow> orchestrator_decision S body; settle_with s a }"
  by (simp add: orchestrator_Handler_def orchestrator_process_def orchestrator_decision_def
      complete_def compensate_def settle_eq_decision cong: sum.case_cong split: sum.splits)

section \<open>The contract of the store\<close>

text \<open>What the store's calls do to the tables.\<close>

definition awaiting :: "string \<Rightarrow> OnboardingSaga \<Rightarrow> bool" where
  "awaiting token s = (sagaToken s = token \<and> sagaState s = SagaAwaitingDelivery)"

definition saga_open :: "string \<Rightarrow> 'v tables_scheme \<Rightarrow> bool" where
  "saga_open token v = (rows_where (awaiting token) (sagas v) \<noteq> [])"

definition close_saga :: "string \<Rightarrow> SagaState \<Rightarrow> 'v tables_scheme \<Rightarrow> 'v tables_scheme" where
  "close_saga token st = sagas_update (update_where (awaiting token) (\<lambda>s. s\<lparr>sagaState := st\<rparr>))"

definition cancel_pending :: "string \<Rightarrow> int \<Rightarrow> 'v tables_scheme \<Rightarrow> 'v tables_scheme" where
  "cancel_pending token t = subscriptions_update
     (update_where (\<lambda>s. ConfirmToken s = token \<and> subStatus s = StatusPending) (soft_delete t))"

definition stale_tokens :: "int \<Rightarrow> 'v tables_scheme \<Rightarrow> string list" where
  "stale_tokens cutoff v =
     map sagaToken (rows_where (\<lambda>s. sagaState s = SagaAwaitingDelivery \<and> CreatedAt s < cutoff) (sagas v))"

text \<open>The result of a settling write: a database error, a lost race, or the transition.\<close>

definition settles ::
  "string \<Rightarrow> 'v tables_scheme \<Rightarrow> goerror option \<Rightarrow> 'v tables_scheme \<Rightarrow> 'v tables_scheme set \<Rightarrow> bool" where
  "settles token v r v' outcomes =
     (case r of
        Some e \<Rightarrow> v' = v \<and> (db_error e \<or> (e = ErrAlreadySettled \<and> \<not> saga_open token v))
      | None \<Rightarrow> saga_open token v \<and> v' \<in> outcomes \<and> db_ok v')"

locale saga_store =
  fixes S :: "'w Store" and view :: "'w \<Rightarrow> 'v tables_scheme" and now :: "('w, int) state"
  assumes saga_state: "\<And>token w r w'. run (SagaStateOf S token) w = (r, w') \<Longrightarrow> view w' = view w
      \<and> (case r of
           Inl e \<Rightarrow> db_error e \<or> (e = ErrRecordNotFound
             \<and> rows_where (\<lambda>s. sagaToken s = token) (sagas (view w)) = [])
         | Inr st \<Rightarrow> \<exists>s \<in> set (rows_where (\<lambda>s. sagaToken s = token) (sagas (view w))). sagaState s = st)"
    and mark_completed: "\<And>token w r w'. run (MarkCompleted S token) w = (r, w')
      \<Longrightarrow> settles token (view w) r (view w') {close_saga token SagaCompleted (view w)}"
    and compensates: "\<And>token w r w'. run (Compensate S token) w = (r, w')
      \<Longrightarrow> settles token (view w) r (view w')
            (range (\<lambda>t. cancel_pending token t (close_saga token SagaCompensated (view w))))"
    and stale: "\<And>olderThan w r w'. run (StaleAwaitingTokens S olderThan) w = (r, w') \<Longrightarrow> view w' = view w
      \<and> (case r of Inl e \<Rightarrow> True
           | Inr toks \<Rightarrow> mset toks = mset (stale_tokens (fst (run now w) - olderThan) (view w)))"

section \<open>The GORM store meets it\<close>

lemma update_where_none: "rows_where P xs = [] \<Longrightarrow> update_where P f xs = xs"
  by (auto simp: rows_where_def update_where_def filter_empty_conv intro!: map_idI)

lemma awaiting_eq: "(\<lambda>s. sagaToken s = token \<and> sagaState s = SagaAwaitingDelivery) = awaiting token"
  by (simp add: awaiting_def fun_eq_iff)

context gorm begin

lemma close_saga_call:
  assumes "run (gUpdates (Sagas G) (awaiting token) (\<lambda>s. s\<lparr>sagaState := st\<rparr>)) w = (r, w')"
  shows "case r of
      Inl e \<Rightarrow> db_error e \<and> view w' = view w
    | Inr n \<Rightarrow> view w' = close_saga token st (view w) \<and> db_ok (view w')
        \<and> (n = 0 \<longleftrightarrow> \<not> saga_open token (view w))
        \<and> (n = 0 \<longrightarrow> view w' = view w)"
proof (cases r)
  case (Inl e)
  then show ?thesis using sagas.updates[OF assms] by simp
next
  case (Inr n)
  have "\<not> saga_open token v \<Longrightarrow> close_saga token st v = v" for v :: "'b tables_scheme"
    by (simp add: saga_open_def close_saga_def update_where_none)
  then show ?thesis using sagas.updates[OF assms] Inr by (auto simp: close_saga_def saga_open_def)
qed

lemma MarkCompleted_call:
  assumes "run (store_MarkCompleted G token) w = (r, w')"
  shows "settles token (view w) r (view w') {close_saga token SagaCompleted (view w)}"
proof -
  obtain n where "run (gUpdates (Sagas G) (awaiting token) (\<lambda>s. s\<lparr>sagaState := SagaCompleted\<rparr>)) w = (n, w')"
    and "r = (case n of Inl err \<Rightarrow> Some err
              | Inr affected \<Rightarrow> if affected = 0 then Some ErrAlreadySettled else None)"
    using assms by (auto simp: store_MarkCompleted_def awaiting_eq split: prod.splits)
  with close_saga_call show ?thesis
    by (fastforce simp: settles_def split: sum.splits)
qed

lemma Compensate_call:
  assumes "run (store_Compensate G token) w = (r, w')"
  shows "settles token (view w) r (view w')
           (range (\<lambda>t. cancel_pending token t (close_saga token SagaCompensated (view w))))"
proof -
  let ?body = "do {
     res \<leftarrow> gUpdates (Sagas G) (awaiting token) (\<lambda>s. s\<lparr>sagaState := SagaCompensated\<rparr>);
     case res of
       Inl err \<Rightarrow> ret (Some err)
     | Inr affected \<Rightarrow>
         if affected = 0 then ret (Some ErrAlreadySettled)
         else gDelete (Subscriptions G)
                (\<lambda>s. ConfirmToken s = token \<and> subStatus s = StatusPending) }"
  have body: "(\<exists>e. r1 = Some e \<and> (db_error e \<or> (e = ErrAlreadySettled \<and> \<not> saga_open token (view w0)))
        \<and> rolled_back (view w0) (view w1) = view w0)
      \<or> (r1 = None \<and> saga_open token (view w0) \<and> db_ok (view w1)
        \<and> view w1 \<in> range (\<lambda>t. cancel_pending token t (close_saga token SagaCompensated (view w0)))
        \<and> rolled_back (view w0) (view w1) = view w0)"
    if "run ?body w0 = (r1, w1)" for w0 r1 w1
  proof -
    obtain n wm where upd: "run (gUpdates (Sagas G) (awaiting token)
        (\<lambda>s. s\<lparr>sagaState := SagaCompensated\<rparr>)) w0 = (n, wm)" by (rule prod.exhaust)
    note call = close_saga_call[OF upd]
    show ?thesis
    proof (cases "\<exists>k. n = Inr k \<and> k \<noteq> 0")
      case True
      then have "run (gDelete (Subscriptions G)
                (\<lambda>s. ConfirmToken s = token \<and> subStatus s = StatusPending)) wm = (r1, w1)"
        using that upd by auto
      from subs.deletes[OF this] show ?thesis
        using True call
        by (auto simp: cancel_pending_def close_saga_def split: option.splits)
    next
      case False
      then show ?thesis using that upd call by (auto split: sum.splits)
    qed
  qed
  have run: "run (Transaction G ?body) w = (r, w')"
    using assms by (simp add: store_Compensate_def awaiting_eq)
  have "case r of Some e \<Rightarrow> (db_error e \<or> (e = ErrAlreadySettled \<and> \<not> saga_open token (view w))) \<and> view w' = view w
    | None \<Rightarrow> saga_open token (view w) \<and> db_ok (view w')
        \<and> view w' \<in> range (\<lambda>t. cancel_pending token t (close_saga token SagaCompensated (view w)))"
    by (rule transaction_run[OF run]) (use body in \<open>force split: option.splits\<close>)+
  then show ?thesis by (auto simp: settles_def split: option.splits)
qed

end

context gorm begin

lemma SagaState_call:
  assumes "run (store_SagaState G token) w = (r, w')"
  shows "view w' = view w
      \<and> (case r of
           Inl e \<Rightarrow> db_error e \<or> (e = ErrRecordNotFound
             \<and> rows_where (\<lambda>s. sagaToken s = token) (sagas (view w)) = [])
         | Inr st \<Rightarrow> \<exists>s \<in> set (rows_where (\<lambda>s. sagaToken s = token) (sagas (view w))). sagaState s = st)"
proof -
  obtain f where f: "run (gFirst (Sagas G) (\<lambda>s. sagaToken s = token)) w = (f, w')"
    and r: "r = (case f of Inl err \<Rightarrow> Inl err | Inr saga \<Rightarrow> Inr (sagaState saga))"
    using assms by (auto simp: store_SagaState_def split: prod.splits)
  show ?thesis using sagas.first[OF f] r by (cases f) auto
qed

end

context gorm_clock begin

lemma Stale_call:
  assumes "run (store_StaleAwaitingTokens G now olderThan) w = (r, w')"
  shows "view w' = view w
      \<and> (case r of Inl e \<Rightarrow> True
           | Inr toks \<Rightarrow> mset toks = mset (stale_tokens (fst (run now w) - olderThan) (view w)))"
proof -
  obtain t w1 where n: "run now w = (t, w1)" by (rule prod.exhaust)
  obtain f where f: "run (gFind (Sagas G)
      (\<lambda>s. sagaState s = SagaAwaitingDelivery \<and> CreatedAt s < t - olderThan)) w1 = (f, w')"
    and r: "r = (case f of Inl err \<Rightarrow> Inl err | Inr rows \<Rightarrow> Inr (map sagaToken rows))"
    using assms n by (auto simp: store_StaleAwaitingTokens_def split: prod.splits)
  show ?thesis
    using sagas.find[OF f] now_view[OF n] r
    by (auto simp: stale_tokens_def n split: sum.splits)
qed

end

sublocale gorm_clock \<subseteq> store: saga_store "NewStore G now" view now
  by (unfold_locales; unfold NewStore_def Store.simps;
      erule SagaState_call MarkCompleted_call Compensate_call Stale_call)

interpretation mem_store: saga_store "NewStore mem_gorm mem_now" obs mem_now
  by (rule mem_clock.store.saga_store_axioms)

section \<open>Rows under the store's writes\<close>

lemma unique_liveD:
  assumes "unique_live key xs" and "a \<in> set xs" and "b \<in> set xs" and "live a" and "live b"
    and "key a = key b"
  shows "a = b"
  using assms unfolding unique_live_def rows_where_def distinct_map
  by (auto dest: inj_onD)

definition saga_swept :: "int \<Rightarrow> OnboardingSaga \<Rightarrow> OnboardingSaga \<Rightarrow> bool" where
  "saga_swept cutoff s s' =
     (s' = s \<or> (live s \<and> sagaState s = SagaAwaitingDelivery \<and> CreatedAt s < cutoff
                \<and> s' = s\<lparr>sagaState := SagaCompensated\<rparr>))"

definition sub_cancelled :: "Subscription \<Rightarrow> Subscription \<Rightarrow> bool" where
  "sub_cancelled s s' =
     (s' = s \<or> (live s \<and> subStatus s = StatusPending \<and> (\<exists>t. s' = soft_delete t s)))"

text \<open>What a sweep may change: stale awaiting sagas become compensated and pending
  subscriptions are deleted; every other row stays as it is.\<close>

definition swept :: "int \<Rightarrow> 'v tables_scheme \<Rightarrow> 'v tables_scheme \<Rightarrow> bool" where
  "swept cutoff v v' \<longleftrightarrow>
     list_all2 (saga_swept cutoff) (sagas v) (sagas v')
   \<and> list_all2 sub_cancelled (subscriptions v) (subscriptions v')
   \<and> repositories v' = repositories v \<and> outbox_rows v' = outbox_rows v"

lemma swept_refl: "swept cutoff v v"
  by (simp add: swept_def saga_swept_def sub_cancelled_def list.rel_refl)

lemma saga_states_distinct [simp]:
  "SagaCompensated \<noteq> SagaAwaitingDelivery" "SagaCompleted \<noteq> SagaAwaitingDelivery"
  "SagaCompensated \<noteq> SagaCompleted" "SagaAwaitingDelivery \<noteq> SagaCompensated"
  "SagaAwaitingDelivery \<noteq> SagaCompleted" "SagaCompleted \<noteq> SagaCompensated"
  by (simp_all add: saga_states)

lemma sub_statuses_distinct [simp]:
  "StatusPending \<noteq> StatusActive" "StatusActive \<noteq> StatusPending"
  "StatusPending \<noteq> StatusUnsubscribed" "StatusUnsubscribed \<noteq> StatusPending"
  "StatusActive \<noteq> StatusUnsubscribed" "StatusUnsubscribed \<noteq> StatusActive"
  by (simp_all add: subscription_statuses)

lemma live_update [simp]: "live (s\<lparr>sagaState := x\<rparr>) = live s"
  by (simp add: live_def)

lemma live_soft_delete [simp]: "\<not> live (soft_delete t s)"
  by (simp add: live_def soft_delete_def)

lemma rows_where_empty: "rows_where P xs = [] \<longleftrightarrow> (\<forall>x \<in> set xs. live x \<longrightarrow> \<not> P x)"
  by (simp add: rows_where_def filter_empty_conv)

lemma ball_update_where:
  "(\<forall>y \<in> set (update_where P f xs). Q y) \<longleftrightarrow> (\<forall>x \<in> set xs. Q (if live x \<and> P x then f x else x))"
  unfolding update_where_def set_map ball_simps ..

lemma saga_open_iff: "\<not> saga_open token v \<longleftrightarrow> (\<forall>s \<in> set (sagas v). live s \<longrightarrow> \<not> awaiting token s)"
  by (simp add: saga_open_def rows_where_empty)

lemma closed_saga: "st \<noteq> SagaAwaitingDelivery \<Longrightarrow> \<not> saga_open token (close_saga token st v)"
  unfolding saga_open_iff close_saga_def by (simp add: ball_update_where awaiting_def)

lemma closed_stays:
  "\<not> saga_open token v \<Longrightarrow> st \<noteq> SagaAwaitingDelivery \<Longrightarrow> \<not> saga_open token (close_saga token' st v)"
  unfolding saga_open_iff close_saga_def by (simp add: ball_update_where awaiting_def)

lemma saga_open_cancel [simp]: "saga_open token (cancel_pending token' t v) = saga_open token v"
  by (simp add: saga_open_def cancel_pending_def)

lemma stale_token_iff:
  "token \<in> set (stale_tokens cutoff v)
    \<longleftrightarrow> (\<exists>s \<in> set (sagas v). live s \<and> awaiting token s \<and> CreatedAt s < cutoff)"
  by (auto simp: stale_tokens_def rows_where_def awaiting_def)

text \<open>Closing a stale token's saga stays within the sweep, since a live token is unique.\<close>

lemma swept_close:
  assumes ok: "db_ok v0" and sw: "swept cutoff v0 v" and tok: "token \<in> set (stale_tokens cutoff v0)"
  shows "swept cutoff v0 (cancel_pending token t (close_saga token SagaCompensated v))"
proof -
  obtain s1 where s1: "s1 \<in> set (sagas v0)" "live s1" "awaiting token s1" "CreatedAt s1 < cutoff"
    using tok by (auto simp: stale_token_iff)
  have uniq: "unique_live sagaToken (sagas v0)" using ok by (simp add: db_ok_def)
  have "list_all2 (saga_swept cutoff) (sagas v0)
      (update_where (awaiting token) (\<lambda>s. s\<lparr>sagaState := SagaCompensated\<rparr>) (sagas v))"
    unfolding update_where_def list.rel_map
  proof (rule list_all2I)
    have sw': "list_all2 (saga_swept cutoff) (sagas v0) (sagas v)" using sw by (simp add: swept_def)
    then show "length (sagas v0) = length (sagas v)" by (rule list_all2_lengthD)
    show "\<forall>(x, y) \<in> set (zip (sagas v0) (sagas v)). saga_swept cutoff x
        (if live y \<and> awaiting token y then y\<lparr>sagaState := SagaCompensated\<rparr> else y)"
    proof (clarify)
      fix x y assume xy: "(x, y) \<in> set (zip (sagas v0) (sagas v))"
      then have "x \<in> set (sagas v0)" by (rule set_zip_leftD)
      moreover have "saga_swept cutoff x y"
        using sw' xy by (auto simp: list_all2_iff)
      ultimately show "saga_swept cutoff x
          (if live y \<and> awaiting token y then y\<lparr>sagaState := SagaCompensated\<rparr> else y)"
        using unique_liveD[OF uniq, of x s1] s1
        by (auto simp: saga_swept_def awaiting_def)
    qed
  qed
  moreover have "list_all2 sub_cancelled (subscriptions v0) (update_where
      (\<lambda>s. ConfirmToken s = token \<and> subStatus s = StatusPending) (soft_delete t) (subscriptions v))"
  proof -
    have "list_all2 sub_cancelled (subscriptions v0) (subscriptions v)"
      using sw by (simp add: swept_def)
    then show ?thesis
      unfolding update_where_def list.rel_map
      by (rule list_all2_mono) (auto simp: sub_cancelled_def)
  qed
  ultimately show ?thesis
    using sw by (simp add: swept_def close_saga_def cancel_pending_def)
qed

lemma swept_stale:
  assumes "swept cutoff v0 v" and "\<forall>token \<in> set (stale_tokens cutoff v0). \<not> saga_open token v"
  shows "stale_tokens cutoff v = []"
proof (rule ccontr)
  assume "stale_tokens cutoff v \<noteq> []"
  then obtain token where "token \<in> set (stale_tokens cutoff v)" by (cases "stale_tokens cutoff v") auto
  then obtain s where s: "s \<in> set (sagas v)" "live s" "awaiting token s" "CreatedAt s < cutoff"
    by (auto simp: stale_token_iff)
  have "list_all2 (saga_swept cutoff) (sagas v0) (sagas v)" using assms(1) by (simp add: swept_def)
  then obtain s0 where "s0 \<in> set (sagas v0)" "saga_swept cutoff s0 s"
    using s(1) by (metis in_set_conv_nth list_all2_conv_all_nth)
  then have "s \<in> set (sagas v0)" using s(3) by (auto simp: saga_swept_def awaiting_def)
  with s have "token \<in> set (stale_tokens cutoff v0)" by (auto simp: stale_token_iff)
  with assms(2) s show False by (auto simp: saga_open_iff)
qed

context saga_store begin

lemma Compensate_result:
  assumes "run (Compensate S token) w = (r, w')"
  shows "view w' = view w \<or> (\<exists>t. view w' = cancel_pending token t (close_saga token SagaCompensated (view w)))"
    and "\<not> (\<exists>e. r = Some e \<and> db_error e) \<Longrightarrow> \<not> saga_open token (view w')"
    and "\<not> saga_open tok (view w) \<Longrightarrow> \<not> saga_open tok (view w')"
  using compensates[OF assms] by (auto simp: settles_def closed_saga closed_stays split: option.splits)

lemma sweep_run:
  assumes run: "run (sweep S staleAfter) w = (r, w')" and ok: "db_ok (view w)"
    and cutoff: "cutoff = fst (run now w) - staleAfter"
  shows "swept cutoff (view w) (view w')"
    and "(\<And>w e w'. run (StaleAwaitingTokens S staleAfter) w \<noteq> (Inl e, w')) \<Longrightarrow>
         (\<And>token w e w'. db_error e \<Longrightarrow> run (Compensate S token) w \<noteq> (Some e, w')) \<Longrightarrow>
         stale_tokens cutoff (view w') = []"
proof -
  let ?body = "\<lambda>token. do { err \<leftarrow> Compensate S token; ret () }"
  obtain f w1 where f: "run (StaleAwaitingTokens S staleAfter) w = (f, w1)" by (rule prod.exhaust)
  have v1: "view w1 = view w"
    and toks: "\<And>toks. f = Inr toks \<Longrightarrow> set toks = set (stale_tokens cutoff (view w))"
    using stale[OF f] cutoff by (auto dest: mset_eq_setD)
  have loop: "run (for_each toks ?body) w1 = (r, w')" if "f = Inr toks" for toks
    using run f that by (simp add: sweep_def)
  have inv: "swept cutoff (view w) (view b)"
    if tok: "token \<in> set (stale_tokens cutoff (view w))" and sw: "swept cutoff (view w) (view a)"
      and body: "run (?body token) a = (u, b)" for token a u b
  proof -
    obtain e where "run (Compensate S token) a = (e, b)" using body by (auto split: prod.splits)
    from Compensate_result(1)[OF this] swept_close[OF ok sw tok] sw show ?thesis by auto
  qed
  show "swept cutoff (view w) (view w')"
  proof (cases f)
    case (Inl e)
    then show ?thesis using run f v1 by (simp add: sweep_def swept_refl)
  next
    case (Inr ts)
    show ?thesis
      by (rule for_each_inv[where I = "\<lambda>x. swept cutoff (view w) (view x)", OF _ _ loop[OF Inr]])
         (use inv toks[OF Inr] v1 in \<open>auto simp: swept_refl\<close>)
  qed
  then show "stale_tokens cutoff (view w') = []"
    if listed: "\<And>w e w'. run (StaleAwaitingTokens S staleAfter) w \<noteq> (Inl e, w')"
      and ok: "\<And>token w e w'. db_error e \<Longrightarrow> run (Compensate S token) w \<noteq> (Some e, w')"
  proof (rule swept_stale)
    obtain ts where ts: "f = Inr ts" using listed f by (cases f) auto
    have "\<forall>token \<in> set ts. \<not> saga_open token (view w')"
    proof (rule for_each_all[where I = "\<lambda>_. True", OF _ _ _ TrueI loop[OF ts]])
      show "\<not> saga_open token (view b)" if body: "run (?body token) a = (u, b)" for token a u b
      proof -
        obtain e where "run (Compensate S token) a = (e, b)" using body by (auto split: prod.splits)
        with Compensate_result(2)[OF this] ok show ?thesis by blast
      qed
      show "\<not> saga_open tok (view b)"
        if shut: "\<not> saga_open tok (view a)" and body: "run (?body token) a = (u, b)" for tok token a u b
      proof -
        obtain e where "run (Compensate S token) a = (e, b)" using body by (auto split: prod.splits)
        with Compensate_result(3) shut show ?thesis by blast
      qed
    qed simp
    then show "\<forall>token \<in> set (stale_tokens cutoff (view w)). \<not> saga_open token (view w')"
      using toks[OF ts] by simp
  qed
qed

end

section \<open>The properties\<close>

lemma cancelled_closed:
  "\<forall>v. \<forall>v' \<in> range (\<lambda>t. cancel_pending token t (close_saga token SagaCompensated v)).
     \<not> saga_open token v'"
  by (simp add: closed_saga)

context saga_store begin

text \<open>An acked result leaves no open saga behind; anything else leaves the tables as they were.\<close>

lemma settle_decision_run:
  assumes run: "run (settle_decision S token write retry) w = (a, w')" and ok: "db_ok (view w)"
    and wr: "\<And>w r w'. run (write token) w = (r, w') \<Longrightarrow> settles token (view w) r (view w') (outcomes (view w))"
    and shut: "\<forall>v. \<forall>v' \<in> outcomes v. \<not> saga_open token v'"
  shows "(a = ActAck \<and> \<not> saga_open token (view w') \<or> (\<exists>reason. a = ActRetry reason \<and> view w' = view w))
    \<and> (view w' = view w \<or> saga_open token (view w) \<and> view w' \<in> outcomes (view w))"
proof -
  obtain f w1 where f: "run (SagaStateOf S token) w = (f, w1)" by (rule prod.exhaust)
  note found = saga_state[OF f]
  show ?thesis
  proof (cases "f = Inr SagaAwaitingDelivery")
    case True
    then obtain e where e: "run (write token) w1 = (e, w')"
      and a: "a = (case e of Some err \<Rightarrow> if err = ErrAlreadySettled then ActAck
                             else ActRetry (retry @ err_text err) | None \<Rightarrow> ActAck)"
      using run f by (auto simp: settle_decision_def split: prod.splits)
    show ?thesis
      using wr[OF e] shut a found by (auto simp: settles_def split: option.splits)
  next
    case False
    then have w': "view w' = view w" and a: "a = (case f of
        Inl err \<Rightarrow> if err = ErrRecordNotFound then ActAck else ActRetry (''saga lookup: '' @ err_text err)
      | Inr st \<Rightarrow> ActAck)"
      using run f found[THEN conjunct1]
      by (simp_all add: settle_decision_def split: sum.splits if_splits)
    have uniq: "unique_live sagaToken (sagas (view w))" using ok by (simp add: db_ok_def)
    have "\<not> saga_open token (view w)" if "a = ActAck"
    proof (cases f)
      case (Inl e)
      then have "rows_where (\<lambda>s. sagaToken s = token) (sagas (view w)) = []"
        using that a found by (auto split: if_splits)
      then show ?thesis by (simp add: saga_open_iff rows_where_empty awaiting_def)
    next
      case (Inr st)
      then obtain s where s: "s \<in> set (sagas (view w))" "live s" "sagaToken s = token" "sagaState s = st"
        using found by (auto simp: rows_where_def)
      have "x = s" if "x \<in> set (sagas (view w))" "live x" "awaiting token x" for x
        by (rule unique_liveD[OF uniq]) (use that s in \<open>simp_all add: awaiting_def\<close>)
      then show ?thesis using s False Inr unfolding saga_open_iff awaiting_def by metis
    qed
    then show ?thesis using a w' by (auto split: sum.splits if_splits)
  qed
qed

end

context gorm_clock begin

lemma is_saga_store: "saga_store (NewStore G now) view now"
  by (rule store.saga_store_axioms)

end

lemmas saga_store_of_gorm = gorm_clock.is_saga_store

text \<open>The token of a result event and whether it reports a delivery.\<close>

definition result_event :: "string \<Rightarrow> (bool \<times> string) option" where
  "result_event body =
     (case unmarshal_Envelope body of
        Inl _ \<Rightarrow> None
      | Inr env \<Rightarrow>
          if EnvType env = TypeVerificationDelivered then
            (case DecodeVerificationDelivered env of Inl _ \<Rightarrow> None | Inr p \<Rightarrow> Some (True, vdToken p))
          else if EnvType env = TypeVerificationFailed then
            (case DecodeVerificationFailed env of Inl _ \<Rightarrow> None | Inr p \<Rightarrow> Some (False, vfToken p))
          else None)"

lemma orchestrator_decision_result:
  assumes "result_event body = Some (delivered, token)"
  shows "orchestrator_decision S body =
    (if delivered then settle_decision S token (MarkCompleted S) ''mark completed: ''
     else settle_decision S token (Compensate S) ''compensate: '')"
  using assms
  by (auto simp: result_event_def orchestrator_decision_def event_types split: sum.splits if_splits)

lemma orchestrator_decision_other:
  "result_event body = None \<Longrightarrow> \<exists>reason. orchestrator_decision S body = ret (ActDeadLetter reason)"
  by (auto simp: result_event_def orchestrator_decision_def split: sum.splits if_splits)


text \<open>
  C8: A compensation, over the GORM store, is all or nothing and touches nobody who confirmed:
  when it succeeds, the token's open sagas become compensated and its live pending
  subscriptions are deleted, every other row of every table being kept; when it does not,
  no table changes, and \<open>ErrAlreadySettled\<close> means that the saga was not open.
\<close>

theorem compensation_is_atomic:
  assumes "gorm G view" and "run (store_Compensate G token) w = (r, w')"
  shows "case r of
      Some e \<Rightarrow> view w' = view w \<and> (db_error e \<or> (e = ErrAlreadySettled \<and> \<not> saga_open token (view w)))
    | None \<Rightarrow> saga_open token (view w)
        \<and> repositories (view w') = repositories (view w)
        \<and> outbox_rows (view w') = outbox_rows (view w)
        \<and> sagas (view w') = map (\<lambda>s. if live s \<and> sagaToken s = token \<and> sagaState s = SagaAwaitingDelivery
                                    then s\<lparr>sagaState := SagaCompensated\<rparr> else s) (sagas (view w))
        \<and> (\<exists>t. subscriptions (view w') =
                map (\<lambda>s. if live s \<and> ConfirmToken s = token \<and> subStatus s = StatusPending
                         then s\<lparr>DeletedAt := Some t\<rparr> else s) (subscriptions (view w)))"
  using gorm.Compensate_call[OF assms]
  by (auto simp: settles_def cancel_pending_def close_saga_def update_where_def awaiting_def
      soft_delete_def split: option.splits)


section \<open>The theorems at work\<close>

definition sample_subscription :: Subscription where
  "sample_subscription =
     \<lparr>ID = 1, CreatedAt = 0, DeletedAt = None, subEmail = ''a@b.c'', RepositoryID = 1,
      subStatus = StatusPending, ConfirmToken = ''t'', APIToken = ''''\<rparr>"

definition sample_saga :: OnboardingSaga where
  "sample_saga =
     \<lparr>ID = 1, CreatedAt = 0, DeletedAt = None, sagaToken = ''t'', sagaState = SagaAwaitingDelivery\<rparr>"

definition sample_world :: mem_world where
  "sample_world = empty_world\<lparr>subscriptions := [sample_subscription], sagas := [sample_saga]\<rparr>"

lemma sample_world_ok: "db_ok (obs sample_world)"
  by (simp add: db_ok_obs db_ok_def sample_world_def empty_world_def sample_subscription_def
      sample_saga_def unique_live_def rows_where_def live_def)

definition sample_result :: string where
  "sample_result = json_print (marshal_Envelope
     \<lparr>EnvID = ''1'', EnvType = TypeVerificationFailed, OccurredAt = ''2026-01-31T23:59:59Z'',
      Version = 1, EnvPayload = Some (JObj [(''token'', JStr ''t'')])\<rparr>)"

lemma sample_result_event: "result_event sample_result = Some (False, ''t'')"
proof -
  have "valid_rfc3339 ''2026-01-31T23:59:59Z''"
    by (simp add: valid_rfc3339_def parse_digits_def two_digits_def in_range_def days_in_def
        leap_year_def digits_value_def digit_val_def is_digit_def valid_zone_def Let_def)
  then show ?thesis
    by (simp add: result_event_def sample_result_def unmarshal_marshal_Envelope int64_in_range_def
        event_types DecodeVerificationFailed_def decode_payload_def decoding)
qed


theorem compensation_is_atomic_witness:
  "case run (store_Compensate mem_gorm ''t'') sample_world of (r, w') \<Rightarrow>
     r = None \<longrightarrow> repositories (obs w') = repositories (obs sample_world)"
  using compensation_is_atomic[of mem_gorm obs "''t''" sample_world, OF mem.gorm_axioms surjective_pairing]
  by (auto simp: split_beta split: option.splits)


end
