(* ===== verification/Subscription_Store.thy ===== *)
theory Subscription_Store
  imports Outbox Orchestrator
begin

text \<open>
  \<open>internal/transport/http/handlers/store.go\<close>: the interface \<open>SubscriptionRepository\<close> and its GORM
  implementation. The locale \<open>subscription_repository\<close> is its contract, which the GORM store
  is shown to meet: lookups change nothing, and a write with events commits the
  subscription, the saga that tracks it and the queued events together or not at all.
\<close>

section \<open>The interface\<close>

record 'w SubscriptionRepository =
  FindRepoByPath :: "string \<Rightarrow> string \<Rightarrow> ('w, goerror + Repository) state"
  FindRepoByGitHubID :: "int \<Rightarrow> ('w, goerror + Repository) state"
  SaveRepo :: "Repository \<Rightarrow> ('w, goerror option) state"
  CreateRepo :: "Repository \<Rightarrow> ('w, goerror + Repository) state"
  FindSubscription :: "string \<Rightarrow> nat \<Rightarrow> ('w, goerror + Subscription) state"
  IsConfirmTokenTaken :: "string \<Rightarrow> ('w, goerror + bool) state"
  SaveSubscription :: "Subscription \<Rightarrow> Event list \<Rightarrow> ('w, goerror option) state"
  CreateSubscription :: "Subscription \<Rightarrow> Event list \<Rightarrow> ('w, goerror option) state"
  FindSubscriptionByConfirmToken :: "string \<Rightarrow> ('w, goerror + Subscription) state"
  FindSubscriptionByTokens :: "string \<Rightarrow> string \<Rightarrow> ('w, goerror + Subscription) state"
  FindSubscriptionByEmailAndToken :: "string \<Rightarrow> string \<Rightarrow> ('w, goerror + Subscription) state"
  ListSubscriptions :: "string \<Rightarrow> ('w, goerror + Subscription list) state"
  FindReposByIDs :: "nat list \<Rightarrow> ('w, goerror + Repository list) state"

section \<open>The GORM store\<close>

definition FindRepoByPath_gorm :: "'w gorm_db \<Rightarrow> string \<Rightarrow> string \<Rightarrow> ('w, goerror + Repository) state" where
  "FindRepoByPath_gorm G owner name = gFirst (Repositories G) (\<lambda>r. Owner r = owner \<and> Name r = name)"

definition FindRepoByGitHubID_gorm :: "'w gorm_db \<Rightarrow> int \<Rightarrow> ('w, goerror + Repository) state" where
  "FindRepoByGitHubID_gorm G githubID = gFirst (Repositories G) (\<lambda>r. repoGitHubID r = githubID)"

definition SaveRepo_gorm :: "'w gorm_db \<Rightarrow> Repository \<Rightarrow> ('w, goerror option) state" where
  "SaveRepo_gorm G repo = gSave (Repositories G) repo"

definition CreateRepo_gorm :: "'w gorm_db \<Rightarrow> Repository \<Rightarrow> ('w, goerror + Repository) state" where
  "CreateRepo_gorm G repo = gCreate (Repositories G) repo"

definition FindSubscription_gorm :: "'w gorm_db \<Rightarrow> string \<Rightarrow> nat \<Rightarrow> ('w, goerror + Subscription) state" where
  "FindSubscription_gorm G email repoID =
     gFirst (Subscriptions G) (\<lambda>s. subEmail s = email \<and> RepositoryID s = repoID)"

definition IsConfirmTokenTaken_gorm :: "'w gorm_db \<Rightarrow> string \<Rightarrow> ('w, goerror + bool) state" where
  "IsConfirmTokenTaken_gorm G token = do {
     counted \<leftarrow> gCount (Subscriptions G) (\<lambda>s. ConfirmToken s = token);
     ret (case counted of Inl err \<Rightarrow> Inl err | Inr n \<Rightarrow> Inr (0 < n)) }"

definition new_saga :: "string \<Rightarrow> OnboardingSaga" where
  "new_saga token = \<lparr>ID = 0, CreatedAt = 0, DeletedAt = None, sagaToken = token,
                     sagaState = SagaAwaitingDelivery\<rparr>"

text \<open>The saga's token is read from the subscription as the write left it; neither \<open>Save\<close> nor
  \<open>Create\<close> changes it.\<close>

definition writeSubscriptionTx ::
  "'w gorm_db \<Rightarrow> Subscription \<Rightarrow> Event list \<Rightarrow> ('w, goerror option) state \<Rightarrow> ('w, goerror option) state" where
  "writeSubscriptionTx G sub events write = Transaction G
     (and_then write
     (and_then (do { created \<leftarrow> gCreate (Sagas G) (new_saga (ConfirmToken sub));
                     ret (case created of Inl err \<Rightarrow> Some err | Inr _ \<Rightarrow> None) })
       (InsertTx G events)))"

text \<open>\<open>Create(sub).Error\<close>: the key goes into the caller's struct, which no caller reads.\<close>

definition create_sub :: "'w gorm_db \<Rightarrow> Subscription \<Rightarrow> ('w, goerror option) state" where
  "create_sub G sub = do {
     created \<leftarrow> gCreate (Subscriptions G) sub;
     ret (case created of Inl err \<Rightarrow> Some err | Inr _ \<Rightarrow> None) }"

definition SaveSubscription_gorm ::
  "'w gorm_db \<Rightarrow> Subscription \<Rightarrow> Event list \<Rightarrow> ('w, goerror option) state" where
  "SaveSubscription_gorm G sub events =
     (if events = [] then gSave (Subscriptions G) sub
      else writeSubscriptionTx G sub events (gSave (Subscriptions G) sub))"

definition CreateSubscription_gorm ::
  "'w gorm_db \<Rightarrow> Subscription \<Rightarrow> Event list \<Rightarrow> ('w, goerror option) state" where
  "CreateSubscription_gorm G sub events =
     (if events = [] then create_sub G sub
      else writeSubscriptionTx G sub events (create_sub G sub))"

definition FindSubscriptionByConfirmToken_gorm ::
  "'w gorm_db \<Rightarrow> string \<Rightarrow> ('w, goerror + Subscription) state" where
  "FindSubscriptionByConfirmToken_gorm G token = gFirst (Subscriptions G) (\<lambda>s. ConfirmToken s = token)"

definition FindSubscriptionByTokens_gorm ::
  "'w gorm_db \<Rightarrow> string \<Rightarrow> string \<Rightarrow> ('w, goerror + Subscription) state" where
  "FindSubscriptionByTokens_gorm G confirmToken apiToken =
     gFirst (Subscriptions G) (\<lambda>s. ConfirmToken s = confirmToken \<and> APIToken s = apiToken)"

definition FindSubscriptionByEmailAndToken_gorm ::
  "'w gorm_db \<Rightarrow> string \<Rightarrow> string \<Rightarrow> ('w, goerror + Subscription) state" where
  "FindSubscriptionByEmailAndToken_gorm G email apiToken =
     gFirst (Subscriptions G) (\<lambda>s. subEmail s = email \<and> APIToken s = apiToken)"

definition ListSubscriptions_gorm ::
  "'w gorm_db \<Rightarrow> string \<Rightarrow> ('w, goerror + Subscription list) state" where
  "ListSubscriptions_gorm G email =
     gFind (Subscriptions G) (\<lambda>s. subEmail s = email \<and> subStatus s \<noteq> StatusUnsubscribed)"

definition FindReposByIDs_gorm ::
  "'w gorm_db \<Rightarrow> nat list \<Rightarrow> ('w, goerror + Repository list) state" where
  "FindReposByIDs_gorm G ids = gFind (Repositories G) (\<lambda>r. ID r \<in> set ids)"

definition NewSubscriptionStore :: "'w gorm_db \<Rightarrow> 'w SubscriptionRepository" where
  "NewSubscriptionStore G =
     \<lparr>FindRepoByPath = FindRepoByPath_gorm G,
      FindRepoByGitHubID = FindRepoByGitHubID_gorm G,
      SaveRepo = SaveRepo_gorm G,
      CreateRepo = CreateRepo_gorm G,
      FindSubscription = FindSubscription_gorm G,
      IsConfirmTokenTaken = IsConfirmTokenTaken_gorm G,
      SaveSubscription = SaveSubscription_gorm G,
      CreateSubscription = CreateSubscription_gorm G,
      FindSubscriptionByConfirmToken = FindSubscriptionByConfirmToken_gorm G,
      FindSubscriptionByTokens = FindSubscriptionByTokens_gorm G,
      FindSubscriptionByEmailAndToken = FindSubscriptionByEmailAndToken_gorm G,
      ListSubscriptions = ListSubscriptions_gorm G,
      FindReposByIDs = FindReposByIDs_gorm G\<rparr>"

section \<open>The contract\<close>

text \<open>The outcome of a \<open>First\<close>: the tables are read only, and the row found satisfies the
  condition; it is missing only if no live row does.\<close>

definition finds_first ::
  "('r gorm_model_scheme \<Rightarrow> bool) \<Rightarrow> 'r gorm_model_scheme list \<Rightarrow> goerror + 'r gorm_model_scheme \<Rightarrow> bool" where
  "finds_first P xs r =
     (case r of
        Inl e \<Rightarrow> db_error e \<or> (e = ErrRecordNotFound \<and> rows_where P xs = [])
      | Inr x \<Rightarrow> x \<in> set (rows_where P xs))"

text \<open>A subscription write with its saga and its events, on top of the write \<open>f\<close>.\<close>

definition onboards ::
  "Subscription \<Rightarrow> Event list \<Rightarrow> 'v tables_scheme \<Rightarrow> 'v tables_scheme \<Rightarrow> bool" where
  "onboards sub events v v' =
     (\<exists>saga rows. assigned (sagas v) (new_saga (ConfirmToken sub)) saga
        \<and> all_assigned (outbox_rows v) (map new_row events) rows
        \<and> v' = v\<lparr>sagas := sagas v @ [saga], outbox_rows := outbox_rows v @ rows\<rparr>)"

definition writes_sub ::
  "('v tables_scheme \<Rightarrow> 'v tables_scheme \<Rightarrow> bool) \<Rightarrow> Subscription \<Rightarrow> Event list
     \<Rightarrow> 'v tables_scheme \<Rightarrow> goerror option \<Rightarrow> 'v tables_scheme \<Rightarrow> bool" where
  "writes_sub f sub events v r v' =
     (case r of
        Some e \<Rightarrow> db_error e \<and> v' = v
      | None \<Rightarrow> db_ok v' \<and> (\<exists>u. f v u \<and> (if events = [] then v' = u else onboards sub events u v')))"

definition saved_sub :: "Subscription \<Rightarrow> 'v tables_scheme \<Rightarrow> 'v tables_scheme \<Rightarrow> bool" where
  "saved_sub sub v u = (u = subscriptions_update (upsert sub) v)"

definition created_sub :: "Subscription \<Rightarrow> 'v tables_scheme \<Rightarrow> 'v tables_scheme \<Rightarrow> bool" where
  "created_sub sub v u =
     (\<exists>s. assigned (subscriptions v) sub s \<and> u = subscriptions_update (\<lambda>xs. xs @ [s]) v)"

locale subscription_repository =
  fixes S :: "'w SubscriptionRepository" and view :: "'w \<Rightarrow> 'v tables_scheme"
  assumes repo_by_path: "\<And>owner name w r w'. run (FindRepoByPath S owner name) w = (r, w') \<Longrightarrow> view w' = view w
      \<and> finds_first (\<lambda>r. Owner r = owner \<and> Name r = name) (repositories (view w)) r"
    and repo_by_github_id: "\<And>i w r w'. run (FindRepoByGitHubID S i) w = (r, w') \<Longrightarrow> view w' = view w
      \<and> finds_first (\<lambda>r. repoGitHubID r = i) (repositories (view w)) r"
    and save_repo: "\<And>x w r w'. run (SaveRepo S x) w = (r, w') \<Longrightarrow>
      (case r of
         Some e \<Rightarrow> db_error e \<and> view w' = view w
       | None \<Rightarrow> view w' = repositories_update (upsert x) (view w) \<and> db_ok (view w'))"
    and create_repo: "\<And>x w r w'. run (CreateRepo S x) w = (r, w') \<Longrightarrow>
      (case r of
         Inl e \<Rightarrow> db_error e \<and> view w' = view w
       | Inr x' \<Rightarrow> assigned (repositories (view w)) x x'
           \<and> view w' = repositories_update (\<lambda>xs. xs @ [x']) (view w) \<and> db_ok (view w'))"
    and find_sub: "\<And>email i w r w'. run (FindSubscription S email i) w = (r, w') \<Longrightarrow> view w' = view w
      \<and> finds_first (\<lambda>s. subEmail s = email \<and> RepositoryID s = i) (subscriptions (view w)) r"
    and token_taken: "\<And>token w r w'. run (IsConfirmTokenTaken S token) w = (r, w') \<Longrightarrow> view w' = view w
      \<and> (case r of Inl e \<Rightarrow> db_error e
           | Inr b \<Rightarrow> b = (rows_where (\<lambda>s. ConfirmToken s = token) (subscriptions (view w)) \<noteq> []))"
    and save_sub: "\<And>sub events w r w'. run (SaveSubscription S sub events) w = (r, w')
      \<Longrightarrow> writes_sub (saved_sub sub) sub events (view w) r (view w')"
    and create_sub: "\<And>sub events w r w'. run (CreateSubscription S sub events) w = (r, w')
      \<Longrightarrow> writes_sub (created_sub sub) sub events (view w) r (view w')"
    and sub_by_confirm: "\<And>token w r w'. run (FindSubscriptionByConfirmToken S token) w = (r, w') \<Longrightarrow> view w' = view w
      \<and> finds_first (\<lambda>s. ConfirmToken s = token) (subscriptions (view w)) r"
    and sub_by_tokens: "\<And>ct at w r w'. run (FindSubscriptionByTokens S ct at) w = (r, w') \<Longrightarrow> view w' = view w
      \<and> finds_first (\<lambda>s. ConfirmToken s = ct \<and> APIToken s = at) (subscriptions (view w)) r"
    and sub_by_email: "\<And>email at w r w'. run (FindSubscriptionByEmailAndToken S email at) w = (r, w') \<Longrightarrow> view w' = view w
      \<and> finds_first (\<lambda>s. subEmail s = email \<and> APIToken s = at) (subscriptions (view w)) r"
    and list_subs: "\<And>email w r w'. run (ListSubscriptions S email) w = (r, w') \<Longrightarrow> view w' = view w
      \<and> (case r of Inl e \<Rightarrow> db_error e | Inr xs \<Rightarrow>
           mset xs = mset (rows_where (\<lambda>s. subEmail s = email \<and> subStatus s \<noteq> StatusUnsubscribed)
                             (subscriptions (view w))))"
    and repos_by_ids: "\<And>ids w r w'. run (FindReposByIDs S ids) w = (r, w') \<Longrightarrow> view w' = view w
      \<and> (case r of Inl e \<Rightarrow> db_error e | Inr xs \<Rightarrow>
           mset xs = mset (rows_where (\<lambda>r. ID r \<in> set ids) (repositories (view w))))"

section \<open>The GORM store meets it\<close>

context gorm begin

lemma create_sub_call:
  assumes "run (create_sub G sub) w = (r, w')"
  shows "case r of Some e \<Rightarrow> db_error e \<and> view w' = view w
    | None \<Rightarrow> created_sub sub (view w) (view w') \<and> db_ok (view w')"
proof -
  obtain c where c: "run (gCreate (Subscriptions G) sub) w = (c, w')"
    and r: "r = (case c of Inl err \<Rightarrow> Some err | Inr _ \<Rightarrow> None)"
    using assms by (auto simp: create_sub_def split: prod.splits)
  show ?thesis using subs.create[OF c] r by (cases c) (auto simp: created_sub_def)
qed

lemma save_sub_call:
  assumes "run (gSave (Subscriptions G) sub) w = (r, w')"
  shows "case r of Some e \<Rightarrow> db_error e \<and> view w' = view w
    | None \<Rightarrow> saved_sub sub (view w) (view w') \<and> db_ok (view w')"
  using subs.save[OF assms] by (auto simp: saved_sub_def split: option.splits)

lemma onboarding_body:
  assumes wr: "\<And>w r w'. run write w = (r, w') \<Longrightarrow>
      (case r of Some e \<Rightarrow> db_error e \<and> view w' = view w | None \<Rightarrow> f (view w) (view w') \<and> db_ok (view w'))"
    and f: "\<And>v u. f v u \<Longrightarrow> rolled_back v u = v \<and> sagas u = sagas v \<and> outbox_rows u = outbox_rows v"
    and ne: "events \<noteq> []"
    and run: "run (and_then write
     (and_then (do { created \<leftarrow> gCreate (Sagas G) (new_saga (ConfirmToken sub));
                     ret (case created of Inl err \<Rightarrow> Some err | Inr _ \<Rightarrow> None) })
       (InsertTx G events))) w = (r, w')"
  shows "rolled_back (view w) (view w') = view w \<and>
    (case r of Some e \<Rightarrow> db_error e
     | None \<Rightarrow> db_ok (view w') \<and> (\<exists>u. f (view w) u \<and> onboards sub events u (view w')))"
proof -
  obtain r1 w1 where 1: "run write w = (r1, w1)" by (rule prod.exhaust)
  obtain c w2 where 2: "run (gCreate (Sagas G) (new_saga (ConfirmToken sub))) w1 = (c, w2)"
    by (rule prod.exhaust)
  obtain r3 w3 where 3: "run (InsertTx G events) w2 = (r3, w3)" by (rule prod.exhaust)
  have run': "(r, w') = (case r1 of Some e \<Rightarrow> (Some e, w1) | None \<Rightarrow>
      (case c of Inl e \<Rightarrow> (Some e, w2) | Inr _ \<Rightarrow> (r3, w3)))"
    using run 1 2 3 by (auto simp: and_then_def split: option.splits sum.splits)
  show ?thesis
  proof (cases r1)
    case (Some e)
    then show ?thesis using run' wr[OF 1] by simp
  next
    case None
    then have v1: "f (view w) (view w1)" "rolled_back (view w) (view w1) = view w"
      using wr[OF 1] f by auto
    show ?thesis
    proof (cases c)
      case (Inl e)
      then show ?thesis using run' None v1 sagas.create[OF 2] by simp
    next
      case (Inr saga)
      then have v2: "assigned (sagas (view w1)) (new_saga (ConfirmToken sub)) saga"
        "view w2 = sagas_update (\<lambda>xs. xs @ [saga]) (view w1)"
        using sagas.create[OF 2] by simp_all
      have r: "r = r3" "w' = w3" using run' None Inr by simp_all
      show ?thesis
        using InsertTx_call[OF 3] ne v1 v2 r
        by (fastforce simp: onboards_def split: option.splits)
    qed
  qed
qed

lemma writeSubscriptionTx_call:
  assumes wr: "\<And>w r w'. run write w = (r, w') \<Longrightarrow>
      (case r of Some e \<Rightarrow> db_error e \<and> view w' = view w | None \<Rightarrow> f (view w) (view w') \<and> db_ok (view w'))"
    and f: "\<And>v u. f v u \<Longrightarrow> rolled_back v u = v \<and> sagas u = sagas v \<and> outbox_rows u = outbox_rows v"
    and ne: "events \<noteq> []"
    and run: "run (writeSubscriptionTx G sub events write) w = (r, w')"
  shows "writes_sub f sub events (view w) r (view w')"
proof -
  have "case r of Some e \<Rightarrow> db_error e \<and> view w' = view w
    | None \<Rightarrow> db_ok (view w') \<and> (\<exists>u. f (view w) u \<and> onboards sub events u (view w'))"
  proof (rule transaction_run[OF run[unfolded writeSubscriptionTx_def]])
    fix w0 r1 w1
    assume "view w0 = view w" and "run (and_then write
     (and_then (do { created \<leftarrow> gCreate (Sagas G) (new_saga (ConfirmToken sub));
                     ret (case created of Inl err \<Rightarrow> Some err | Inr _ \<Rightarrow> None) })
       (InsertTx G events))) w0 = (r1, w1)"
    from onboarding_body[OF wr f ne this(2)] this(1)
    show "rolled_back (view w) (view w1) = view w \<and> (case r1 of Some e \<Rightarrow> db_error e
        | None \<Rightarrow> db_ok (view w1) \<and> (\<exists>u. f (view w) u \<and> onboards sub events u (view w1)))"
      by (simp cong: option.case_cong)
  qed
  then show ?thesis using ne by (simp add: writes_sub_def split: option.splits)
qed

lemma sub_writes_frame:
  "saved_sub sub v u \<Longrightarrow> rolled_back v u = v \<and> sagas u = sagas v \<and> outbox_rows u = outbox_rows v"
  "created_sub sub v u \<Longrightarrow> rolled_back v u = v \<and> sagas u = sagas v \<and> outbox_rows u = outbox_rows v"
  by (auto simp: saved_sub_def created_sub_def)

lemma SaveSubscription_call:
  assumes "run (SaveSubscription_gorm G sub events) w = (r, w')"
  shows "writes_sub (saved_sub sub) sub events (view w) r (view w')"
proof (cases "events = []")
  case True
  then show ?thesis using assms save_sub_call[of sub w r w']
    by (auto simp: SaveSubscription_gorm_def writes_sub_def split: option.splits)
next
  case False
  then have "run (writeSubscriptionTx G sub events (gSave (Subscriptions G) sub)) w = (r, w')"
    using assms by (simp add: SaveSubscription_gorm_def)
  from writeSubscriptionTx_call[OF save_sub_call sub_writes_frame(1) False this] show ?thesis .
qed

lemma CreateSubscription_call:
  assumes "run (CreateSubscription_gorm G sub events) w = (r, w')"
  shows "writes_sub (created_sub sub) sub events (view w) r (view w')"
proof (cases "events = []")
  case True
  then show ?thesis using assms create_sub_call[of sub w r w']
    by (auto simp: CreateSubscription_gorm_def writes_sub_def split: option.splits)
next
  case False
  then have "run (writeSubscriptionTx G sub events (create_sub G sub)) w = (r, w')"
    using assms by (simp add: CreateSubscription_gorm_def)
  from writeSubscriptionTx_call[OF create_sub_call sub_writes_frame(2) False this] show ?thesis .
qed

lemma first_call:
  "run (gFirst (Subscriptions G) P) w = (r, w') \<Longrightarrow> view w' = view w \<and> finds_first P (subscriptions (view w)) r"
  "run (gFirst (Repositories G) R) w = (q, w') \<Longrightarrow> view w' = view w \<and> finds_first R (repositories (view w)) q"
  using subs.first[of P w r w'] repos.first[of R w q w'] by (auto simp: finds_first_def split: sum.splits)

lemma IsConfirmTokenTaken_call:
  assumes "run (IsConfirmTokenTaken_gorm G token) w = (r, w')"
  shows "view w' = view w
      \<and> (case r of Inl e \<Rightarrow> db_error e
           | Inr b \<Rightarrow> b = (rows_where (\<lambda>s. ConfirmToken s = token) (subscriptions (view w)) \<noteq> []))"
proof -
  obtain c where c: "run (gCount (Subscriptions G) (\<lambda>s. ConfirmToken s = token)) w = (c, w')"
    and r: "r = (case c of Inl err \<Rightarrow> Inl err | Inr n \<Rightarrow> Inr (0 < n))"
    using assms by (auto simp: IsConfirmTokenTaken_gorm_def split: prod.splits)
  show ?thesis using subs.count[OF c] r by (cases c) auto
qed

end

lemmas subscription_gorm_defs = FindRepoByPath_gorm_def FindRepoByGitHubID_gorm_def SaveRepo_gorm_def
  CreateRepo_gorm_def FindSubscription_gorm_def FindSubscriptionByConfirmToken_gorm_def
  FindSubscriptionByTokens_gorm_def FindSubscriptionByEmailAndToken_gorm_def
  ListSubscriptions_gorm_def FindReposByIDs_gorm_def

sublocale gorm \<subseteq> subscriptions_store: subscription_repository "NewSubscriptionStore G" view
  by (unfold_locales; unfold NewSubscriptionStore_def SubscriptionRepository.simps subscription_gorm_defs;
      erule first_call repos.save repos.create subs.find repos.find SaveSubscription_call
        CreateSubscription_call IsConfirmTokenTaken_call)

interpretation mem_subscriptions: subscription_repository "NewSubscriptionStore mem_gorm" obs
  by (rule mem.subscriptions_store.subscription_repository_axioms)

end
