(* ===== verification/Github_Client.thy ===== *)
theory Github_Client
  imports Json
begin

text \<open>
  \<open>internal/api/github\<close>: the errors (\<open>error.go\<close>), the response wrapper (\<open>response.go\<close>), the
  status handler (\<open>handlers.go\<close>, \<open>decoders.go\<close>), the client (\<open>github.go\<close>), the transport that
  tracks the rate limits (\<open>ratelimit.go\<close>) and the one that adds the token (\<open>auth.go\<close>). HTTP
  itself is a parameter: a \<open>RoundTripper\<close> is a computation from a request to a response. A
  \<open>time.Time\<close> is the number of nanoseconds since Go's zero time.
\<close>

section \<open>HTTP\<close>

record http_request =
  Method :: string
  URL :: string
  reqHeader :: "(string \<times> string) list"

text \<open>\<open>http.Header\<close>, by its entries in the order of the keys; the code reads it with canonical keys.\<close>

type_synonym http_header = "(string \<times> string list) list"

definition header_Get :: "http_header \<Rightarrow> string \<Rightarrow> string" where
  "header_Get h key = (case map_of h key of Some (v # _) \<Rightarrow> v | _ \<Rightarrow> '''')"

record http_response =
  resStatusCode :: int
  resHeader :: http_header
  resBody :: string

type_synonym 'w RoundTripper = "http_request \<Rightarrow> ('w, goerror + http_response) state"

text \<open>\<open>Header.Set\<close> and \<open>Header.Get\<close> of a request, on canonical keys.\<close>

definition header_set :: "string \<Rightarrow> string \<Rightarrow> (string \<times> string) list \<Rightarrow> (string \<times> string) list" where
  "header_set k v h = (k, v) # filter (\<lambda>(k', _). k' \<noteq> k) h"

definition header_get :: "(string \<times> string) list \<Rightarrow> string \<Rightarrow> string" where
  "header_get h k = (case map_of h k of None \<Rightarrow> '''' | Some v \<Rightarrow> v)"

section \<open>Errors and responses\<close>

datatype github_error =
    NetworkError goerror
  | DecodingError string
  | APIError int string string
  | UnexpectedStatusError int

fun github_error_text :: "github_error \<Rightarrow> string" where
  "github_error_text (NetworkError e) = ''network failure: '' @ err_text e"
| "github_error_text (DecodingError s) = ''failed to decode response: '' @ s"
| "github_error_text (APIError code msg doc) = ''github api error: '' @ msg"
| "github_error_text (UnexpectedStatusError code) = ''unexpected status code: '' @ Itoa code"

type_synonym time = int

definition zero_instant :: time where "zero_instant = 0"

definition second :: int where "second = 1000000000"

text \<open>\<open>time.Unix(s, 0)\<close>.\<close>

definition Unix :: "int \<Rightarrow> time" where
  "Unix s = (62135596800 + s) * second"

record RateLimits =
  Limit :: int
  Remaining :: int
  ResetAt :: time
  RetryAfter :: time

record 'd Response =
  rData :: 'd
  rLimits :: RateLimits
  rETag :: string
  rStatusCode :: int
  rError :: "github_error option"

definition zero_limits :: RateLimits where
  "zero_limits = \<lparr>Limit = 0, Remaining = 0, ResetAt = zero_instant, RetryAfter = zero_instant\<rparr>"

section \<open>Rate limit headers\<close>

definition IsValid :: "RateLimits \<Rightarrow> bool" where
  "IsValid rl = (Limit rl \<noteq> -1 \<and> Remaining rl \<noteq> -1 \<and> ResetAt rl \<noteq> zero_instant)"

definition getInt64Header :: "http_header \<Rightarrow> string \<Rightarrow> int" where
  "getInt64Header h key =
     (let val = header_Get h key
      in if val = '''' then -1
         else (case ParseInt val of None \<Rightarrow> -1 | Some parsed \<Rightarrow> parsed))"

definition getResetTime :: "http_header \<Rightarrow> time" where
  "getResetTime h =
     (let val = header_Get h ''X-RateLimit-Reset''
      in if val = '''' then zero_instant
         else (case ParseInt val of None \<Rightarrow> zero_instant | Some resetUnix \<Rightarrow> Unix resetUnix))"

text \<open>\<open>time.Duration(seconds) * time.Second\<close> wraps at 64 bits; \<open>parse_date\<close> is \<open>http.ParseTime\<close>.\<close>

definition getRetryAfterTime :: "(string \<Rightarrow> time option) \<Rightarrow> http_header \<Rightarrow> time \<Rightarrow> time" where
  "getRetryAfterTime parse_date h now =
     (let val = header_Get h ''Retry-After''
      in if val = '''' then zero_instant
         else (case ParseInt val of
                 Some seconds \<Rightarrow> now + sint (word_of_int seconds * word_of_int second :: int64)
               | None \<Rightarrow> (case parse_date val of Some t \<Rightarrow> t | None \<Rightarrow> zero_instant)))"

definition extractRateLimits :: "(string \<Rightarrow> time option) \<Rightarrow> http_header \<Rightarrow> time \<Rightarrow> RateLimits" where
  "extractRateLimits parse_date h now =
     \<lparr>Limit = getInt64Header h ''X-RateLimit-Limit'',
      Remaining = getInt64Header h ''X-RateLimit-Remaining'',
      ResetAt = getResetTime h,
      RetryAfter = getRetryAfterTime parse_date h now\<rparr>"

definition GetUnauthenticatedRateLimits :: "time \<Rightarrow> RateLimits" where
  "GetUnauthenticatedRateLimits now =
     \<lparr>Limit = 60, Remaining = 60, ResetAt = now + 3600 * second, RetryAfter = zero_instant\<rparr>"

definition GetAuthenticatedRateLimits :: "time \<Rightarrow> RateLimits" where
  "GetAuthenticatedRateLimits now =
     \<lparr>Limit = 5000, Remaining = 5000, ResetAt = now + 3600 * second, RetryAfter = zero_instant\<rparr>"

definition GetBaseRateLimits :: "string \<Rightarrow> time \<Rightarrow> RateLimits" where
  "GetBaseRateLimits token now =
     (if token \<noteq> '''' then GetAuthenticatedRateLimits now else GetUnauthenticatedRateLimits now)"

section \<open>The transport that tracks them\<close>

text \<open>\<open>lastLimits\<close> after the headers of a response, under the mutex.\<close>

definition update_limits :: "RateLimits \<Rightarrow> RateLimits \<Rightarrow> RateLimits" where
  "update_limits limits prev =
     (let last1 = (if IsValid limits
                   then prev\<lparr>Limit := Limit limits, Remaining := Remaining limits,
                             ResetAt := ResetAt limits\<rparr>
                   else prev)
      in if RetryAfter limits \<noteq> zero_instant \<and> second < RetryAfter limits - RetryAfter last1
         then last1\<lparr>RetryAfter := RetryAfter limits\<rparr> else last1)"

record 'w limit_cell =
  readLimits :: "('w, RateLimits) state"
  writeLimits :: "RateLimits \<Rightarrow> ('w, unit) state"

definition ratelimit_RoundTrip ::
  "(string \<Rightarrow> time option) \<Rightarrow> ('w, time) state \<Rightarrow> 'w limit_cell \<Rightarrow> 'w RoundTripper \<Rightarrow> 'w RoundTripper" where
  "ratelimit_RoundTrip parse_date now cell transport req = do {
     answered \<leftarrow> transport req;
     case answered of
       Inl err \<Rightarrow> ret (Inl err)
     | Inr res \<Rightarrow> do {
         t \<leftarrow> now;
         prev \<leftarrow> readLimits cell;
         writeLimits cell (update_limits (extractRateLimits parse_date (resHeader res) t) prev);
         ret (Inr res) } }"

definition GetRateLimits :: "'w limit_cell \<Rightarrow> ('w, RateLimits) state" where
  "GetRateLimits cell = readLimits cell"

section \<open>The transport that adds the token\<close>

definition auth_RoundTrip :: "string \<Rightarrow> 'w RoundTripper \<Rightarrow> 'w RoundTripper" where
  "auth_RoundTrip token transport req =
     (let cloned = (if token \<noteq> ''''
                    then req\<lparr>reqHeader := header_set ''Authorization'' (''Bearer '' @ token) (reqHeader req)\<rparr>
                    else req)
      in transport cloned)"

text \<open>The constructors of the two transports; that of the rate limits puts the base limits into
  the transport's cell.\<close>

definition NewRateLimitTransport ::
  "(string \<Rightarrow> time option) \<Rightarrow> ('w, time) state \<Rightarrow> 'w limit_cell \<Rightarrow> 'w RoundTripper \<Rightarrow> RateLimits
     \<Rightarrow> ('w, 'w RoundTripper) state" where
  "NewRateLimitTransport parse_date now cell transport baseLimits = do {
     writeLimits cell baseLimits;
     ret (ratelimit_RoundTrip parse_date now cell transport) }"

definition NewAuthTransport :: "'w RoundTripper \<Rightarrow> string \<Rightarrow> 'w RoundTripper" where
  "NewAuthTransport transport token = auth_RoundTrip token transport"

section \<open>Handling a response\<close>

text \<open>
  \<open>json.NewDecoder(body).Decode(&data)\<close> reads the first document of the body. When the text is
  not a document, \<open>data\<close> stays zero; a member of the wrong type is skipped, the others are
  decoded, and the error comes with what they hold.
\<close>

fun set_good_members :: "'s field list \<Rightarrow> (string \<times> json) list \<Rightarrow> 's \<Rightarrow> 's \<times> bool" where
  "set_good_members flds [] s = (s, True)"
| "set_good_members flds (kv # kvs) s =
     (case set_member flds kv s of
        None \<Rightarrow> (fst (set_good_members flds kvs s), False)
      | Some s' \<Rightarrow> set_good_members flds kvs s')"

definition decode_lenient :: "'s field list \<Rightarrow> 's \<Rightarrow> json \<Rightarrow> 's \<times> bool" where
  "decode_lenient flds zero j =
     (case j of
        JNull \<Rightarrow> (zero, True)
      | JObj kvs \<Rightarrow> set_good_members flds kvs zero
      | _ \<Rightarrow> (zero, False))"

definition jsonDecoder :: "'s field list \<Rightarrow> 's \<Rightarrow> http_response \<Rightarrow> 's \<times> goerror option" where
  "jsonDecoder flds zero res =
     (case parse_value (2 * length (resBody res) + 2) (resBody res) of
        None \<Rightarrow> (zero, Some (Err ''json''))
      | Some (j, _) \<Rightarrow>
          (case decode_lenient flds zero j of
             (d, good) \<Rightarrow> (d, if good then None else Some (Err ''json''))))"

text \<open>On a body without a type error this is \<open>Unmarshal\<close>'s decoding.\<close>

lemma set_good_members_ok: "set_good_members flds kvs s = (d, True) \<longleftrightarrow> set_members flds kvs s = Some d"
  by (induction kvs arbitrary: s) (auto split: option.splits)

lemma decode_lenient_ok: "decode_lenient flds zero j = (d, True) \<longleftrightarrow> decode_struct flds zero j = Some d"
  by (cases j) (auto simp: decode_lenient_def decode_struct_def set_good_members_ok)

record api_error =
  aeMessage :: string
  aeDocumentationURL :: string

definition decode_api_error :: "http_response \<Rightarrow> api_error \<times> goerror option" where
  "decode_api_error = jsonDecoder
     [(''message'', string_field (\<lambda>v e. e\<lparr>aeMessage := v\<rparr>)),
      (''documentation_url'', string_field (\<lambda>v e. e\<lparr>aeDocumentationURL := v\<rparr>))]
     \<lparr>aeMessage = '''', aeDocumentationURL = ''''\<rparr>"

text \<open>\<open>CreateStatusHandler(decoder)\<close>; \<open>zero\<close> is Go's zero value of the result type. A
  decoding error comes with what was decoded.\<close>

definition CreateStatusHandler ::
  "'d \<Rightarrow> (http_response \<Rightarrow> 'd \<times> goerror option) \<Rightarrow> http_response \<Rightarrow> 'd \<times> github_error option" where
  "CreateStatusHandler zero decoder res =
     (if resStatusCode res = 200 then
        (case decoder res of
           (d, Some err) \<Rightarrow> (d, Some (DecodingError (err_text err)))
         | (d, None) \<Rightarrow> (d, None))
      else if resStatusCode res = 304 then (zero, None)
      else if 400 \<le> resStatusCode res then
        (case decode_api_error res of
           (_, Some err) \<Rightarrow> (zero, Some (DecodingError (''api error with status '' @ Itoa (resStatusCode res)
                                       @ '' (could not decode body)'')))
         | (ae, None) \<Rightarrow> (zero, Some (APIError (resStatusCode res) (aeMessage ae) (aeDocumentationURL ae))))
      else (zero, Some (UnexpectedStatusError (resStatusCode res))))"

definition formatResponse ::
  "(string \<Rightarrow> time option) \<Rightarrow> time \<Rightarrow> http_response \<Rightarrow> 'd \<Rightarrow> github_error option \<Rightarrow> 'd Response" where
  "formatResponse parse_date now res d err =
     \<lparr>rData = d, rLimits = extractRateLimits parse_date (resHeader res) now,
      rETag = header_Get (resHeader res) ''ETag'', rStatusCode = resStatusCode res, rError = err\<rparr>"

section \<open>The client\<close>

text \<open>\<open>httpDo\<close> is \<open>http.Client.Do\<close> and \<open>newRequest\<close> the URL check of \<open>http.NewRequest\<close>.\<close>

record 'w Client =
  httpDo :: "'w RoundTripper"
  newRequest :: "string \<Rightarrow> goerror option"
  clientNow :: "('w, time) state"
  parseDate :: "string \<Rightarrow> time option"
  BaseURL :: string

text \<open>\<open>NewClient(opts...)\<close>: the default client of \<open>net/http\<close> and the public address, changed by
  the options in their order.\<close>

type_synonym 'w Option = "'w Client \<Rightarrow> 'w Client"

definition WithBaseURL :: "string \<Rightarrow> 'w Option" where
  "WithBaseURL baseURL c = c\<lparr>BaseURL := baseURL\<rparr>"

definition WithHTTPClient :: "'w RoundTripper \<Rightarrow> 'w Option" where
  "WithHTTPClient httpClient c = c\<lparr>httpDo := httpClient\<rparr>"

definition NewClient ::
  "'w RoundTripper \<Rightarrow> (string \<Rightarrow> goerror option) \<Rightarrow> ('w, time) state \<Rightarrow> (string \<Rightarrow> time option)
     \<Rightarrow> 'w Option list \<Rightarrow> 'w Client" where
  "NewClient defaultDo newReq now parse_date opts = fold (\<lambda>opt c. opt c) opts
     \<lparr>httpDo = defaultDo, newRequest = newReq, clientNow = now, parseDate = parse_date,
      BaseURL = ''https://api.github.com''\<rparr>"

definition failed_response :: "'d \<Rightarrow> github_error \<Rightarrow> 'd Response" where
  "failed_response zero e = \<lparr>rData = zero, rLimits = zero_limits, rETag = '''', rStatusCode = 0, rError = Some e\<rparr>"

definition client_get ::
  "'w Client \<Rightarrow> string \<Rightarrow> string \<Rightarrow> 'd \<Rightarrow> (http_response \<Rightarrow> 'd \<times> github_error option) \<Rightarrow> ('w, 'd Response) state" where
  "client_get c endpoint etag zero handler =
     (case newRequest c endpoint of
        Some err \<Rightarrow> ret (failed_response zero (NetworkError err))
      | None \<Rightarrow> do {
          let hdr = (if etag \<noteq> '''' then header_set ''If-None-Match'' etag [] else []);
          answered \<leftarrow> httpDo c \<lparr>Method = ''GET'', URL = endpoint, reqHeader = hdr\<rparr>;
          case answered of
            Inl err \<Rightarrow> ret (failed_response zero (NetworkError err))
          | Inr res \<Rightarrow> do {
              let (d, execErr) = handler res;
              now \<leftarrow> clientNow c;
              ret (formatResponse (parseDate c) now res d execErr) } })"

record gh_repository =
  ghID :: int
  ghFullName :: string

definition decode_repository :: "http_response \<Rightarrow> gh_repository \<times> goerror option" where
  "decode_repository = jsonDecoder
     [(''id'', int_field (\<lambda>v r. r\<lparr>ghID := v\<rparr>)), (''full_name'', string_field (\<lambda>v r. r\<lparr>ghFullName := v\<rparr>))]
     \<lparr>ghID = 0, ghFullName = ''''\<rparr>"

definition GetRepository :: "'w Client \<Rightarrow> string \<Rightarrow> string \<Rightarrow> string \<Rightarrow> ('w, gh_repository Response) state" where
  "GetRepository c owner name etag =
     client_get c (BaseURL c @ ''/repos/'' @ owner @ ''/'' @ name) etag \<lparr>ghID = 0, ghFullName = ''''\<rparr>
       (CreateStatusHandler \<lparr>ghID = 0, ghFullName = ''''\<rparr> decode_repository)"

record LatestRelease =
  lrID :: int
  lrTagName :: string
  lrURL :: string

definition decode_release :: "http_response \<Rightarrow> LatestRelease \<times> goerror option" where
  "decode_release = jsonDecoder
     [(''id'', int_field (\<lambda>v r. r\<lparr>lrID := v\<rparr>)), (''tag_name'', string_field (\<lambda>v r. r\<lparr>lrTagName := v\<rparr>)),
      (''html_url'', string_field (\<lambda>v r. r\<lparr>lrURL := v\<rparr>))]
     \<lparr>lrID = 0, lrTagName = '''', lrURL = ''''\<rparr>"

definition GetLatestRelease :: "'w Client \<Rightarrow> string \<Rightarrow> string \<Rightarrow> string \<Rightarrow> ('w, LatestRelease Response) state" where
  "GetLatestRelease c owner name etag =
     client_get c (BaseURL c @ ''/repos/'' @ owner @ ''/'' @ name @ ''/releases/latest'') etag
       \<lparr>lrID = 0, lrTagName = '''', lrURL = ''''\<rparr>
       (CreateStatusHandler \<lparr>lrID = 0, lrTagName = '''', lrURL = ''''\<rparr> decode_release)"

section \<open>Properties\<close>

text \<open>
  The tracked limits never lose a wait: over any sequence of responses \<open>RetryAfter\<close> never
  moves back, and the three quota fields are always those of one response with all three
  headers (or the initial ones), never a mixture.
\<close>

theorem rate_limits_track:
  "let final = fold update_limits seen base in
     RetryAfter base \<le> RetryAfter final
   \<and> (\<exists>src \<in> set (base # filter IsValid seen).
        Limit final = Limit src \<and> Remaining final = Remaining src \<and> ResetAt final = ResetAt src)"
proof (induction seen arbitrary: base)
  case Nil
  then show ?case by simp
next
  case (Cons l seen)
  have step: "RetryAfter base \<le> RetryAfter (update_limits l base)"
    by (simp add: update_limits_def Let_def second_def)
  have src: "Limit (update_limits l base) = Limit (if IsValid l then l else base)"
      "Remaining (update_limits l base) = Remaining (if IsValid l then l else base)"
      "ResetAt (update_limits l base) = ResetAt (if IsValid l then l else base)"
    by (simp_all add: update_limits_def Let_def)
  show ?case
    using Cons.IH[of "update_limits l base"] step src
    by (auto simp: Let_def split: if_splits)
qed

text \<open>
  A response is an error unless it is a 304 or a 200 whose body decodes, every status of 400
  and above is an error that carries its code unless its body does not decode, and data
  other than the zero value is only ever what the body of a 200 decodes to.
\<close>

theorem status_handler_outcome:
  "case CreateStatusHandler zero decoder res of (d, err) \<Rightarrow>
     (err = None \<longleftrightarrow> resStatusCode res = 304 \<or> (resStatusCode res = 200 \<and> snd (decoder res) = None))
   \<and> (d \<noteq> zero \<longrightarrow> resStatusCode res = 200 \<and> fst (decoder res) = d)
   \<and> (400 \<le> resStatusCode res \<longrightarrow> (\<exists>m u. err = Some (APIError (resStatusCode res) m u)) \<or> (\<exists>s. err = Some (DecodingError s)))"
  by (auto simp: CreateStatusHandler_def split: prod.splits option.splits)

definition bad_gateway :: http_response where
  "bad_gateway = \<lparr>resStatusCode = 502, resHeader = [], resBody = ''bad gateway''\<rparr>"

theorem status_handler_outcome_witness:
  "\<exists>err. CreateStatusHandler (0 :: int) (\<lambda>_. (5, None)) bad_gateway = (0, Some err)"
  using status_handler_outcome[where zero = "0 :: int" and decoder = "\<lambda>_. (5, None)" and res = bad_gateway]
  by (auto simp: bad_gateway_def split: prod.splits)

end
