(* ===== verification/Handlers.thy ===== *)
theory Handlers
  imports Subscription_Store Github_Client
begin

text \<open>
  \<open>internal/transport/http/handlers/subscription.go\<close>: the four HTTP handlers. A handler is a
  computation from the request, as gin presents it, to the response. The theorems: who may
  see or end a subscription, that a subscription goes through \<open>pending\<close> with a fresh token
  and its saga and event in one transaction, that a confirmed or failed request leaves the
  tables as described, and that token generation ends.
\<close>

section \<open>Requests and responses\<close>

record SubscribeRequest =
  reqEmail :: string
  reqRepo :: string

text \<open>What a handler reads of \<open>gin.Context\<close>; \<open>ShouldBindJSON\<close> is the outcome of gin's binding.\<close>

record gin_context =
  ShouldBindJSON :: "goerror + SubscribeRequest"
  Param :: "string \<Rightarrow> string"
  Query :: "string \<Rightarrow> string"
  GetHeader :: "string \<Rightarrow> string"

record web_response =
  httpStatus :: nat
  httpHeaders :: "(string \<times> string) list"
  httpBody :: json

definition respond :: "nat \<Rightarrow> json \<Rightarrow> web_response" where
  "respond code doc = \<lparr>httpStatus = code, httpHeaders = [], httpBody = doc\<rparr>"

definition gin_error :: "nat \<Rightarrow> string \<Rightarrow> web_response" where
  "gin_error code msg = respond code (JObj [(''error'', JStr msg)])"

definition gin_message :: "nat \<Rightarrow> string \<Rightarrow> web_response" where
  "gin_message code msg = respond code (JObj [(''message'', JStr msg)])"

text \<open>The handler with what it reaches: the store, the GitHub resolver, the random source
  (\<open>rand.Read\<close> of 16 bytes), the event services and the counters.\<close>

record 'w SubscriptionHandler =
  hStore :: "'w SubscriptionRepository"
  hResolver :: "string \<Rightarrow> string \<Rightarrow> string \<Rightarrow> ('w, gh_repository Response) state"
  hRandRead :: "('w, goerror + 8 word list) state"
  hServices :: "'w services"
  hInc :: "string \<Rightarrow> ('w, unit) state"

definition NewSubscriptionHandler ::
  "'w SubscriptionRepository \<Rightarrow> (string \<Rightarrow> string \<Rightarrow> string \<Rightarrow> ('w, gh_repository Response) state)
     \<Rightarrow> ('w, goerror + 8 word list) state \<Rightarrow> 'w services \<Rightarrow> (string \<Rightarrow> ('w, unit) state) \<Rightarrow> 'w SubscriptionHandler" where
  "NewSubscriptionHandler store resolver randRead services inc =
     \<lparr>hStore = store, hResolver = resolver, hRandRead = randRead, hServices = services, hInc = inc\<rparr>"

section \<open>Tokens\<close>

definition generateToken :: "'w SubscriptionHandler \<Rightarrow> ('w, goerror + string) state" where
  "generateToken h = do {
     b \<leftarrow> hRandRead h;
     ret (case b of Inl err \<Rightarrow> Inl err | Inr bytes \<Rightarrow> Inr (EncodeToString bytes)) }"

definition isValidToken :: "string \<Rightarrow> bool" where
  "isValidToken token = (DecodeString token \<noteq> None \<and> length token = 32)"

definition bearerToken :: "gin_context \<Rightarrow> string" where
  "bearerToken c =
     (let auth = GetHeader c ''Authorization''
      in if \<not> HasPrefix auth ''Bearer '' then '''' else TrimPrefix (GetHeader c ''Authorization'') ''Bearer '')"

text \<open>The loop that looks for a free token, with the number of attempts to unroll; \<open>None\<close> is a
  loop that is still looking.\<close>

fun free_token :: "nat \<Rightarrow> 'w SubscriptionHandler \<Rightarrow> ('w, (goerror + string) option) state" where
  "free_token 0 h = ret None"
| "free_token (Suc n) h = do {
     generated \<leftarrow> generateToken h;
     case generated of
       Inl err \<Rightarrow> ret (Some (Inl err))
     | Inr confirmToken \<Rightarrow> do {
         taken \<leftarrow> IsConfirmTokenTaken (hStore h) confirmToken;
         case taken of
           Inl err \<Rightarrow> ret (Some (Inl err))
         | Inr t \<Rightarrow> if \<not> t then ret (Some (Inr confirmToken)) else free_token n h } }"

section \<open>The repository of a request\<close>

definition new_repository :: "int \<Rightarrow> string \<Rightarrow> string \<Rightarrow> Repository" where
  "new_repository githubID owner name =
     \<lparr>ID = 0, CreatedAt = 0, DeletedAt = None, repoGitHubID = githubID, repoETag = '''',
      Owner = owner, Name = name,
      LastRelease = \<lparr>relGitHubID = 0, TagName = '''', relETag = ''''\<rparr>,
      repoStatus = StatusIdle, LastScannedAt = None\<rparr>"

text \<open>\<open>Inl\<close> is the HTTP status and the text of the error.\<close>

definition resolveOrCreateRepo ::
  "'w SubscriptionHandler \<Rightarrow> string \<Rightarrow> string \<Rightarrow> ('w, (nat \<times> string) + Repository) state" where
  "resolveOrCreateRepo h owner name = do {
     found \<leftarrow> FindRepoByPath (hStore h) owner name;
     case found of
       Inr repo \<Rightarrow> ret (Inr repo)
     | Inl err \<Rightarrow>
         if err \<noteq> ErrRecordNotFound then ret (Inl (500, ''database error''))
         else do {
           ghRepo \<leftarrow> hResolver h owner name '''';
           if rError ghRepo \<noteq> None \<or> rStatusCode ghRepo \<noteq> 200
           then ret (Inl (404, ''repository not found on GitHub''))
           else do {
             existing \<leftarrow> FindRepoByGitHubID (hStore h) (ghID (rData ghRepo));
             case existing of
               Inr repo \<Rightarrow> do {
                 let repo = repo\<lparr>Owner := owner, Name := name\<rparr>;
                 saveErr \<leftarrow> SaveRepo (hStore h) repo;
                 ret (case saveErr of
                        Some _ \<Rightarrow> Inl (500, ''failed to save repository'')
                      | None \<Rightarrow> Inr repo) }
             | Inl lookupErr \<Rightarrow>
                 if lookupErr = ErrRecordNotFound then do {
                   created \<leftarrow> CreateRepo (hStore h) (new_repository (ghID (rData ghRepo)) owner name);
                   ret (case created of
                          Inl _ \<Rightarrow> Inl (500, ''failed to save repository'')
                        | Inr newRepo \<Rightarrow> Inr newRepo) }
                 else ret (Inl (500, ''database error'')) } } }"

section \<open>Subscribe\<close>

definition pending_subscription :: "string \<Rightarrow> nat \<Rightarrow> string \<Rightarrow> Subscription" where
  "pending_subscription email repoID token =
     \<lparr>ID = 0, CreatedAt = 0, DeletedAt = None, subEmail = email, RepositoryID = repoID,
      subStatus = StatusPending, ConfirmToken = token, APIToken = ''''\<rparr>"

text \<open>The end of \<open>Subscribe\<close>, from the found or missing subscription on.\<close>

definition subscribe_with_token ::
  "'w SubscriptionHandler \<Rightarrow> string \<Rightarrow> nat \<Rightarrow> Subscription option \<Rightarrow> string \<Rightarrow> ('w, web_response) state" where
  "subscribe_with_token h email repoID sub confirmToken = do {
     built \<leftarrow> NewSubscriptionCreated (hServices h) \<lparr>scEmail = email, scToken = confirmToken\<rparr>;
     case outbox_New built of
       Inl err \<Rightarrow> ret (gin_error 500 ''Failed to build verification event'')
     | Inr verificationEvent \<Rightarrow> do {
         failed \<leftarrow> (case sub of
            Some sub \<Rightarrow> do {
              err \<leftarrow> SaveSubscription (hStore h)
                (sub\<lparr>subStatus := StatusPending, ConfirmToken := confirmToken, APIToken := ''''\<rparr>)
                [verificationEvent];
              ret (map_option (\<lambda>_. ''Failed to update subscription'') err) }
          | None \<Rightarrow> do {
              err \<leftarrow> CreateSubscription (hStore h)
                (pending_subscription email repoID confirmToken) [verificationEvent];
              ret (map_option (\<lambda>_. ''Failed to create subscription'') err) });
         case failed of
           Some msg \<Rightarrow> ret (gin_error 500 msg)
         | None \<Rightarrow> do {
             hInc h ''subscriptions_subscribe_successes_total'';
             ret (gin_message 200 ''Confirmation email sent'') } } }"

definition subscribe_repo ::
  "nat \<Rightarrow> 'w SubscriptionHandler \<Rightarrow> string \<Rightarrow> nat \<Rightarrow> ('w, web_response option) state" where
  "subscribe_repo fuel h email repoID = do {
     found \<leftarrow> FindSubscription (hStore h) email repoID;
     if (case found of Inl err \<Rightarrow> err \<noteq> ErrRecordNotFound | Inr _ \<Rightarrow> False) then ret (Some (gin_error 500 ''Database error''))
     else do {
       let sub = (case found of Inl _ \<Rightarrow> None | Inr sub \<Rightarrow> Some sub);
       if (case sub of Some s \<Rightarrow> subStatus s = StatusActive | None \<Rightarrow> False) then do {
         hInc h ''subscriptions_subscribe_conflicts_total'';
         ret (Some (gin_message 409 ''Email already subscribed to this repository'')) }
       else do {
         token \<leftarrow> free_token fuel h;
         case token of
           None \<Rightarrow> ret None
         | Some (Inl err) \<Rightarrow> ret (Some (gin_error 500 ''Failed to generate token''))
         | Some (Inr confirmToken) \<Rightarrow> do {
             r \<leftarrow> subscribe_with_token h email repoID sub confirmToken;
             ret (Some r) } } } }"

definition Subscribe :: "nat \<Rightarrow> 'w SubscriptionHandler \<Rightarrow> gin_context \<Rightarrow> ('w, web_response option) state" where
  "Subscribe fuel h c = do {
     hInc h ''subscriptions_subscribe_attempts_total'';
     case ShouldBindJSON c of
       Inl err \<Rightarrow> ret (Some (gin_error 400 ''Invalid request body''))
     | Inr req \<Rightarrow> do {
         let email = TrimSpace (reqEmail req);
         let repo = TrimSpace (reqRepo req);
         if email = '''' \<or> repo = '''' then ret (Some (gin_error 400 ''Email and repo are required''))
         else do {
           let parts = Split repo (CHR ''/'');
           if length parts \<noteq> 2 \<or> parts ! 0 = '''' \<or> parts ! 1 = ''''
           then ret (Some (gin_error 400 ''Invalid repo format. Expected owner/repo''))
           else do {
             resolved \<leftarrow> resolveOrCreateRepo h (parts ! 0) (parts ! 1);
             case resolved of
               Inl (code, msg) \<Rightarrow> ret (Some (gin_error code msg))
             | Inr repo \<Rightarrow> subscribe_repo fuel h email (ID repo) } } } }"

section \<open>Confirm and unsubscribe\<close>

text \<open>The block of \<open>Confirm\<close> that activates a subscription which is not active yet.\<close>

definition activate :: "'w SubscriptionHandler \<Rightarrow> Subscription \<Rightarrow> ('w, string + Subscription) state" where
  "activate h sub =
     (if subStatus sub \<noteq> StatusActive then do {
        apiToken \<leftarrow> generateToken h;
        case apiToken of
          Inl err \<Rightarrow> ret (Inl ''Failed to generate API token'')
        | Inr apiToken \<Rightarrow> do {
            let sub = sub\<lparr>subStatus := StatusActive, APIToken := apiToken\<rparr>;
            err \<leftarrow> SaveSubscription (hStore h) sub [];
            ret (case err of Some _ \<Rightarrow> Inl ''Failed to activate subscription'' | None \<Rightarrow> Inr sub) } }
      else ret (Inr sub))"

definition Confirm :: "'w SubscriptionHandler \<Rightarrow> gin_context \<Rightarrow> ('w, web_response) state" where
  "Confirm h c = do {
     hInc h ''subscriptions_confirm_attempts_total'';
     let token = Param c ''token'';
     if \<not> isValidToken token then ret (gin_error 400 ''Invalid or missing token'')
     else do {
       found \<leftarrow> FindSubscriptionByConfirmToken (hStore h) token;
       case found of
         Inl err \<Rightarrow>
           if err = ErrRecordNotFound then ret (gin_error 404 ''Invalid or expired token'')
           else ret (gin_error 500 ''Database error'')
       | Inr sub \<Rightarrow> do {
           activated \<leftarrow> activate h sub;
           case activated of
             Inl msg \<Rightarrow> ret (gin_error 500 msg)
           | Inr sub \<Rightarrow> do {
               hInc h ''subscriptions_confirm_successes_total'';
               ret ((gin_message 200 ''Subscription confirmed successfully'')
                      \<lparr>httpHeaders := [(''X-Api-Token'', APIToken sub)]\<rparr>) } } } }"

definition end_subscription :: "'w SubscriptionHandler \<Rightarrow> Subscription \<Rightarrow> ('w, goerror option) state" where
  "end_subscription h sub =
     (if subStatus sub \<noteq> StatusUnsubscribed
      then SaveSubscription (hStore h) (sub\<lparr>subStatus := StatusUnsubscribed\<rparr>) []
      else ret None)"

definition Unsubscribe :: "'w SubscriptionHandler \<Rightarrow> gin_context \<Rightarrow> ('w, web_response) state" where
  "Unsubscribe h c = do {
     hInc h ''subscriptions_unsubscribe_attempts_total'';
     let confirmToken = Param c ''token'';
     if \<not> isValidToken confirmToken then ret (gin_error 400 ''Invalid or missing token'')
     else do {
       let apiToken = bearerToken c;
       if apiToken = '''' then ret (gin_error 400 ''Missing or invalid Authorization header'')
       else if \<not> isValidToken apiToken then ret (gin_error 401 ''Invalid API token'')
       else do {
         found \<leftarrow> FindSubscriptionByTokens (hStore h) confirmToken apiToken;
         case found of
           Inl err \<Rightarrow>
             if err = ErrRecordNotFound then ret (gin_error 404 ''Token not found'')
             else ret (gin_error 500 ''Database error'')
         | Inr sub \<Rightarrow> do {
             err \<leftarrow> end_subscription h sub;
             case err of
               Some _ \<Rightarrow> ret (gin_error 500 ''Failed to unsubscribe'')
             | None \<Rightarrow> do {
                 hInc h ''subscriptions_unsubscribe_successes_total'';
                 ret (gin_message 200 ''Unsubscribed successfully'') } } } } }"

section \<open>Listing\<close>

record SubscriptionItem =
  itemEmail :: string
  itemRepo :: string
  itemConfirmed :: bool
  itemLastSeenTag :: string

definition marshal_item :: "SubscriptionItem \<Rightarrow> json" where
  "marshal_item i =
     JObj [(''email'', JStr (itemEmail i)), (''repo'', JStr (itemRepo i)),
           (''confirmed'', JBool (itemConfirmed i)), (''last_seen_tag'', JStr (itemLastSeenTag i))]"

text \<open>\<open>repoMap\<close>: the full name and the last seen tag of a repository, by its key; a later row
  overwrites an earlier one.\<close>

definition repo_map :: "Repository list \<Rightarrow> (nat \<rightharpoonup> string \<times> string)" where
  "repo_map repos =
     map_of (rev (map (\<lambda>r. (ID r, (Owner r @ ''/'' @ Name r, TagName (LastRelease r)))) repos))"

definition subscription_items :: "Repository list \<Rightarrow> Subscription list \<Rightarrow> SubscriptionItem list" where
  "subscription_items repos subs =
     concat (map (\<lambda>s. case repo_map repos (RepositoryID s) of
        None \<Rightarrow> []
      | Some (fullName, tag) \<Rightarrow>
          [\<lparr>itemEmail = subEmail s, itemRepo = fullName, itemConfirmed = (subStatus s = StatusActive),
            itemLastSeenTag = (if subStatus s = StatusActive then tag else '''')\<rparr>]) subs)"

definition GetSubscriptions :: "'w SubscriptionHandler \<Rightarrow> gin_context \<Rightarrow> ('w, web_response) state" where
  "GetSubscriptions h c = (
     let email = TrimSpace (Query c ''email'') in
     if email = '''' then ret (gin_error 400 ''Invalid email'')
     else let apiToken = bearerToken c in
       if apiToken = '''' \<or> \<not> isValidToken apiToken
       then ret (gin_error 401 ''Missing or invalid Authorization header'')
       else do {
         found \<leftarrow> FindSubscriptionByEmailAndToken (hStore h) email apiToken;
         case found of
           Inl err \<Rightarrow>
             if err = ErrRecordNotFound then ret (gin_error 401 ''Invalid token for the given email'')
             else ret (gin_error 500 ''Database error'')
         | Inr _ \<Rightarrow> do {
             listed \<leftarrow> ListSubscriptions (hStore h) email;
             case listed of
               Inl err \<Rightarrow> ret (gin_error 500 ''Database error'')
             | Inr subs \<Rightarrow>
                 if subs = [] then ret (respond 200 (JArr []))
                 else do {
                   found \<leftarrow> FindReposByIDs (hStore h) (map RepositoryID subs);
                   case found of
                     Inl err \<Rightarrow> ret (gin_error 500 ''Database error'')
                   | Inr repos \<Rightarrow> ret (respond 200 (JArr (map marshal_item (subscription_items repos subs)))) } } })"

section \<open>The world of the handlers\<close>

text \<open>The store's contract, and what is assumed of the rest: asking GitHub, the random source
  and the event services does not touch the tables, sixteen bytes are read, the clock's text
  is a time stamp, and a counter counts.\<close>

locale subscription_web = subscription_repository "hStore h" view
  for h :: "'w SubscriptionHandler" and view :: "'w \<Rightarrow> 'v observed_scheme" +
  assumes resolver: "\<And>owner name etag w r w'. run (hResolver h owner name etag) w = (r, w') \<Longrightarrow> view w' = view w"
    and rand: "\<And>w r w'. run (hRandRead h) w = (r, w') \<Longrightarrow> view w' = view w
      \<and> (case r of Inl _ \<Rightarrow> True | Inr bs \<Rightarrow> length bs = 16)"
    and uuid: "\<And>w r w'. run (NewString (hServices h)) w = (r, w') \<Longrightarrow> view w' = view w"
    and time: "\<And>w r w'. run (NowUTC (hServices h)) w = (r, w') \<Longrightarrow> view w' = view w \<and> valid_rfc3339 r"
    and inc: "\<And>c w r w'. run (hInc h c) w = (r, w') \<Longrightarrow> view w' = counted_update (\<lambda>cs. cs @ [c]) (view w)"

lemma isValidToken_generated: "length bs = 16 \<Longrightarrow> isValidToken (EncodeToString bs)"
  by (simp add: isValidToken_def DecodeString_EncodeToString)

text \<open>Everything but the repositories and the counters is as before.\<close>

definition same_subs :: "'v observed_scheme \<Rightarrow> 'v observed_scheme \<Rightarrow> bool" where
  "same_subs v u \<longleftrightarrow> subscriptions u = subscriptions v \<and> sagas u = sagas v
     \<and> outbox_rows u = outbox_rows v \<and> published u = published v"

lemma same_subs_simps [simp]:
  "same_subs v v" "same_subs v (counted_update f u) = same_subs v u"
  "same_subs (counted_update f v) u = same_subs v u"
  "same_subs v (repositories_update g u) = same_subs v u"
  by (simp_all add: same_subs_def)

context subscription_web begin

lemma inc_spec: "spec view v (hInc h c) (\<lambda>r u. u = counted_update (\<lambda>cs. cs @ [c]) v)"
  by (rule specI) (use inc in blast)

lemma generate_spec:
  "spec view v (generateToken h) (\<lambda>r u. u = v \<and> (case r of Inl _ \<Rightarrow> True | Inr tok \<Rightarrow> isValidToken tok))"
  by (rule specI)
     (auto simp: generateToken_def isValidToken_generated split: prod.splits sum.splits dest!: rand)

lemma taken_spec: "spec view v (IsConfirmTokenTaken (hStore h) token) (\<lambda>r u. u = v
    \<and> (case r of Inl e \<Rightarrow> True
       | Inr b \<Rightarrow> b = (rows_where (\<lambda>s. ConfirmToken s = token) (subscriptions v) \<noteq> [])))"
  by (rule specI) (auto dest!: token_taken split: sum.splits)

end

text \<open>A token the loop may give: well formed and not that of a live subscription.\<close>

definition free_for :: "'v tables_scheme \<Rightarrow> (goerror + string) option \<Rightarrow> bool" where
  "free_for v r \<longleftrightarrow> (\<forall>tok. r = Some (Inr tok) \<longrightarrow>
     isValidToken tok \<and> rows_where (\<lambda>s. ConfirmToken s = tok) (subscriptions v) = [])"

lemma upsert_mem: "x \<in> set (upsert x xs)"
  by (auto simp: upsert_def)

context subscription_web begin

lemma path_spec: "spec view v (FindRepoByPath (hStore h) owner name) (\<lambda>r u. u = v
    \<and> finds_first (\<lambda>r. Owner r = owner \<and> Name r = name) (repositories v) r)"
  by (rule specI) (auto dest!: repo_by_path)

lemma github_id_spec: "spec view v (FindRepoByGitHubID (hStore h) i) (\<lambda>r u. u = v
    \<and> finds_first (\<lambda>r. repoGitHubID r = i) (repositories v) r)"
  by (rule specI) (auto dest!: repo_by_github_id)

lemma resolver_spec: "spec view v (hResolver h owner name etag) (\<lambda>r u. u = v \<and> True)"
  by (rule specI) (auto dest!: resolver)

lemma save_repo_spec: "spec view v (SaveRepo (hStore h) x) (\<lambda>r u.
    case r of Some e \<Rightarrow> u = v | None \<Rightarrow> u = repositories_update (upsert x) v)"
  by (rule specI) (auto dest!: save_repo split: option.splits)

lemma create_repo_spec: "spec view v (CreateRepo (hStore h) x) (\<lambda>r u.
    case r of Inl e \<Rightarrow> u = v
    | Inr x' \<Rightarrow> (\<exists>i t. x' = x\<lparr>ID := i, CreatedAt := t\<rparr>) \<and> u = repositories_update (\<lambda>xs. xs @ [x']) v)"
  by (rule specI) (auto simp: assigned_def dest!: create_repo split: sum.splits, blast)

lemmas web_rules = spec_ret spec_read[OF generate_spec] spec_read[OF taken_spec]
  spec_read[OF path_spec] spec_read[OF github_id_spec] spec_read[OF resolver_spec]
  spec_bind[OF save_repo_spec] spec_bind[OF create_repo_spec] spec_bind[OF inc_spec]

lemma free_token_spec: "spec view v (free_token fuel h) (\<lambda>r u. u = v \<and> free_for v r)"
  by (induction fuel) (auto simp: free_for_def intro!: web_rules split: sum.splits)

lemma resolve_spec:
  "spec view v (resolveOrCreateRepo h owner name) (\<lambda>r u. same_subs v u \<and> counted u = counted v
     \<and> (case r of
          Inl (code, _) \<Rightarrow> u = v \<and> code \<in> {404, 500}
        | Inr repo \<Rightarrow> Owner repo = owner \<and> Name repo = name \<and> repo \<in> set (repositories u)))"
  unfolding resolveOrCreateRepo_def Let_def
  by (auto intro!: web_rules simp: finds_first_def rows_where_def new_repository_def upsert_mem
      split: sum.splits option.splits)

end

section \<open>Subscribing\<close>

text \<open>What a successful subscription leaves: the pending subscription, the saga that tracks its
  token and the queued event that asks for the verification email, all with the same token,
  which no live subscription had.\<close>

definition onboarded ::
  "string \<Rightarrow> 'v observed_scheme \<Rightarrow> 'v observed_scheme \<Rightarrow> bool" where
  "onboarded email v u \<longleftrightarrow> (\<exists>sub saga row env token.
     subscriptions u = upsert sub (subscriptions v) \<and> live sub \<and> subEmail sub = email
   \<and> subStatus sub = StatusPending \<and> ConfirmToken sub = token \<and> APIToken sub = ''''
   \<and> sagas u = sagas v @ [saga] \<and> live saga \<and> sagaToken saga = token
   \<and> sagaState saga = SagaAwaitingDelivery
   \<and> outbox_rows u = outbox_rows v @ [row] \<and> live row \<and> RoutingKey row = RoutingKeySubscriptionCreated
   \<and> Payload row = marshal_Envelope env
   \<and> decodes_to DecodeSubscriptionCreated \<lparr>scEmail = email, scToken = token\<rparr>
       RoutingKeySubscriptionCreated (Inr env)
   \<and> isValidToken token
   \<and> rows_where (\<lambda>s. ConfirmToken s = token) (subscriptions v) = []
   \<and> published u = published v)"

lemma onboarded_counted [simp]:
  "onboarded email v (counted_update f u) = onboarded email v u"
  "onboarded email (counted_update f v) u = onboarded email v u"
  by (simp_all add: onboarded_def)

lemma onboarded_repos:
  "same_subs v0 v \<Longrightarrow> onboarded email v u \<Longrightarrow> onboarded email v0 u"
  by (simp add: onboarded_def same_subs_def)

text \<open>A write of a subscription with one event.\<close>

definition onboarding_write ::
  "Subscription \<Rightarrow> Event \<Rightarrow> 'v observed_scheme \<Rightarrow> 'v observed_scheme \<Rightarrow> bool" where
  "onboarding_write sub ev v u \<longleftrightarrow>
     (\<exists>i t. subscriptions u = upsert (sub\<lparr>ID := i, CreatedAt := t\<rparr>) (subscriptions v))
   \<and> (\<exists>i t. sagas u = sagas v @ [(new_saga (ConfirmToken sub))\<lparr>ID := i, CreatedAt := t\<rparr>])
   \<and> (\<exists>i t. outbox_rows u = outbox_rows v @ [(new_row ev)\<lparr>ID := i, CreatedAt := t\<rparr>])
   \<and> published u = published v \<and> counted u = counted v \<and> repositories u = repositories v"

lemma onboards_single:
  "onboards sub [ev] v u \<Longrightarrow>
     (\<exists>i t. sagas u = sagas v @ [(new_saga (ConfirmToken sub))\<lparr>ID := i, CreatedAt := t\<rparr>])
   \<and> (\<exists>i t. outbox_rows u = outbox_rows v @ [(new_row ev)\<lparr>ID := i, CreatedAt := t\<rparr>])
   \<and> subscriptions u = subscriptions v \<and> published u = published v \<and> counted u = counted v
   \<and> repositories u = repositories v" for u :: "'v observed_scheme"
  by (fastforce simp: onboards_def all_assigned_def assigned_def list_all2_Cons1)

lemma append_as_upsert: "ID x \<notin> set (map ID xs) \<Longrightarrow> xs @ [x] = upsert x xs"
  by (simp add: upsert_def)

lemma onboarding_writeI:
  fixes u :: "'v observed_scheme"
  assumes "onboards sub [ev] u1 u"
    and "\<exists>i t. subscriptions u1 = upsert (sub\<lparr>ID := i, CreatedAt := t\<rparr>) (subscriptions v)"
    and "sagas u1 = sagas v \<and> outbox_rows u1 = outbox_rows v \<and> published u1 = published v
       \<and> counted u1 = counted v \<and> repositories u1 = repositories v"
  shows "onboarding_write sub ev v u"
  using onboards_single[OF assms(1)] assms(2,3) by (simp add: onboarding_write_def)

lemma onboarding_write_onboarded:
  assumes "live sub" and "subStatus sub = StatusPending" and "APIToken sub = ''''"
    and "decodes_to DecodeSubscriptionCreated \<lparr>scEmail = subEmail sub, scToken = ConfirmToken sub\<rparr>
      RoutingKeySubscriptionCreated (Inr env)"
    and "free_for v (Some (Inr (ConfirmToken sub)))"
    and "onboarding_write sub \<lparr>evRoutingKey = TypeSubscriptionCreated, evEnvelope = env\<rparr> v u"
  shows "onboarded (subEmail sub) v u \<and> counted u = counted v"
  using assms
  by (fastforce simp: onboarding_write_def onboarded_def new_saga_def new_row_def free_for_def live_def
      TypeSubscriptionCreated_def RoutingKeySubscriptionCreated_def)

lemma pending_simps [simp]:
  "live (pending_subscription email i token)" "subEmail (pending_subscription email i token) = email"
  "subStatus (pending_subscription email i token) = StatusPending"
  "ConfirmToken (pending_subscription email i token) = token"
  "APIToken (pending_subscription email i token) = ''''"
  by (simp_all add: pending_subscription_def live_def)

lemma live_sub_update [simp]:
  "live (s\<lparr>subStatus := x\<rparr>) = live s" "live (s\<lparr>ConfirmToken := y\<rparr>) = live s"
  "live (s\<lparr>APIToken := z\<rparr>) = live s"
  by (simp_all add: live_def)

context subscription_web begin

lemma find_sub_spec: "spec view v (FindSubscription (hStore h) email i) (\<lambda>r u. u = v
    \<and> finds_first (\<lambda>s. subEmail s = email \<and> RepositoryID s = i) (subscriptions v) r)"
  by (rule specI) (auto dest!: find_sub)

lemma new_event_spec: "spec view v (NewSubscriptionCreated (hServices h) p) (\<lambda>r u. u = v
    \<and> (\<exists>env. r = Inr env \<and> EnvType env = TypeSubscriptionCreated
          \<and> decodes_to DecodeSubscriptionCreated p RoutingKeySubscriptionCreated (Inr env)))"
proof (rule specI)
  fix w r w' assume v: "view w = v" and call: "run (NewSubscriptionCreated (hServices h) p) w = (r, w')"
  have "valid_rfc3339 (fst (run (NowUTC (hServices h)) x))" for x
    by (rule conjunct2[OF time]) (rule surjective_pairing)
  then have "decodes_to DecodeSubscriptionCreated p RoutingKeySubscriptionCreated r"
    using events_decode[of "hServices h"] call by (metis fst_conv)
  moreover have "view w' = v"
    using call v by (auto simp: NewSubscriptionCreated_def newEnvelope_def split: prod.splits dest!: uuid time)
  moreover have "RoutingKeySubscriptionCreated = TypeSubscriptionCreated"
    by (simp add: routing_keys event_types)
  ultimately show "view w' = v \<and> (\<exists>env. r = Inr env \<and> EnvType env = TypeSubscriptionCreated
      \<and> decodes_to DecodeSubscriptionCreated p RoutingKeySubscriptionCreated (Inr env))"
    by (auto simp: decodes_to_def split: sum.splits)
qed

lemma save_sub_spec: "spec view v (SaveSubscription (hStore h) sub [ev])
    (\<lambda>r u. case r of Some e \<Rightarrow> u = v | None \<Rightarrow> onboarding_write sub ev v u)"
proof (rule specI)
  fix w r w' assume v: "view w = v" and "run (SaveSubscription (hStore h) sub [ev]) w = (r, w')"
  note call = save_sub[OF this(2)]
  show "case r of Some e \<Rightarrow> view w' = v | None \<Rightarrow> onboarding_write sub ev v (view w')"
  proof (cases r)
    case None
    then obtain u where "u = subscriptions_update (upsert sub) v" "onboards sub [ev] u (view w')"
      using call v by (auto simp: writes_sub_def saved_sub_def)
    with None show ?thesis
      by (auto intro!: onboarding_writeI exI[of _ "ID sub"] exI[of _ "CreatedAt sub"])
  qed (use call v in \<open>simp add: writes_sub_def\<close>)
qed

lemma create_sub_spec: "spec view v (CreateSubscription (hStore h) sub [ev])
    (\<lambda>r u. case r of Some e \<Rightarrow> u = v | None \<Rightarrow> onboarding_write sub ev v u)"
proof (rule specI)
  fix w r w' assume v: "view w = v" and "run (CreateSubscription (hStore h) sub [ev]) w = (r, w')"
  note call = create_sub[OF this(2)]
  show "case r of Some e \<Rightarrow> view w' = v | None \<Rightarrow> onboarding_write sub ev v (view w')"
  proof (cases r)
    case None
    then obtain u i t where i: "i \<notin> set (map ID (subscriptions v))"
      "u = subscriptions_update (\<lambda>xs. xs @ [sub\<lparr>ID := i, CreatedAt := t\<rparr>]) v" "onboards sub [ev] u (view w')"
      using call v by (auto simp: writes_sub_def created_sub_def assigned_def)
    then have "\<exists>i t. subscriptions u = upsert (sub\<lparr>ID := i, CreatedAt := t\<rparr>) (subscriptions v)"
      by (auto simp: append_as_upsert intro!: exI[of _ i] exI[of _ t])
    from onboarding_writeI[OF i(3) this] i(2) None show ?thesis by simp
  qed (use call v in \<open>simp add: writes_sub_def\<close>)
qed

lemma subscribe_with_token_spec:
  assumes free: "free_for v (Some (Inr token))"
    and sub: "\<And>s. sub = Some s \<Longrightarrow> live s \<and> subEmail s = email"
  shows "spec view v (subscribe_with_token h email repoID sub token)
    (\<lambda>r u. (if httpStatus r = 200 then onboarded email v u else same_subs v u)
       \<and> httpStatus r \<noteq> 409
       \<and> counted u = counted v @ (if httpStatus r = 200 then [''subscriptions_subscribe_successes_total''] else []))"
  unfolding subscribe_with_token_def outbox_New_def
  using free sub
  by (auto intro!: web_rules spec_read[OF new_event_spec] spec_bind[OF save_sub_spec]
        spec_bind[OF create_sub_spec] spec_bind
      simp: gin_error_def gin_message_def respond_def split: option.splits
      dest!: onboarding_write_onboarded[rotated 5])

end

text \<open>The counters one call of \<open>Subscribe\<close> increments.\<close>

definition subscribe_counters :: "web_response option \<Rightarrow> string list" where
  "subscribe_counters r =
     ''subscriptions_subscribe_attempts_total''
     # (case r of
          None \<Rightarrow> []
        | Some res \<Rightarrow>
            if httpStatus res = 200 then [''subscriptions_subscribe_successes_total'']
            else if httpStatus res = 409 then [''subscriptions_subscribe_conflicts_total''] else [])"

definition subscribe_outcome ::
  "string \<Rightarrow> 'v observed_scheme \<Rightarrow> web_response option \<Rightarrow> 'v observed_scheme \<Rightarrow> bool" where
  "subscribe_outcome email v r u =
     (case r of
        None \<Rightarrow> same_subs v u
      | Some res \<Rightarrow> if httpStatus res = 200 then onboarded email v u else same_subs v u)"

context subscription_web begin

lemma subscribe_repo_spec:
  "spec view v (subscribe_repo fuel h email i) (\<lambda>r u. subscribe_outcome email v r u
     \<and> counted u = counted v @ tl (subscribe_counters r))"
  unfolding subscribe_repo_def Let_def
  by (rule spec_read[OF find_sub_spec])
     (auto intro!: web_rules spec_read[OF free_token_spec] spec_bind[OF subscribe_with_token_spec]
       simp: subscribe_outcome_def subscribe_counters_def finds_first_def rows_where_def free_for_def
         gin_error_def gin_message_def respond_def
       split: sum.splits option.splits)

end

section \<open>Confirming, ending and listing\<close>

text \<open>A confirmation answers with the API token of a live active subscription with that confirm
  token: one that was active already, or one it has just activated with a new token.\<close>

definition confirm_outcome ::
  "string \<Rightarrow> 'v observed_scheme \<Rightarrow> web_response \<Rightarrow> 'v observed_scheme \<Rightarrow> bool" where
  "confirm_outcome token v r u =
     (if httpStatus r = 200
      then isValidToken token
         \<and> (\<exists>old \<in> set (subscriptions v). live old \<and> ConfirmToken old = token
         \<and> (if subStatus old = StatusActive
            then subscriptions u = subscriptions v \<and> httpHeaders r = [(''X-Api-Token'', APIToken old)]
            else \<exists>apiToken. isValidToken apiToken \<and> httpHeaders r = [(''X-Api-Token'', apiToken)]
              \<and> subscriptions u = upsert (old\<lparr>subStatus := StatusActive, APIToken := apiToken\<rparr>) (subscriptions v)))
      else subscriptions u = subscriptions v \<and> httpHeaders r = [])"

text \<open>Only the holder of both tokens of a subscription ends it.\<close>

definition unsubscribe_outcome ::
  "string \<Rightarrow> string \<Rightarrow> 'v observed_scheme \<Rightarrow> web_response \<Rightarrow> 'v observed_scheme \<Rightarrow> bool" where
  "unsubscribe_outcome confirmToken apiToken v r u =
     (if httpStatus r = 200
      then isValidToken confirmToken \<and> isValidToken apiToken
         \<and> (\<exists>old \<in> set (subscriptions v). live old \<and> ConfirmToken old = confirmToken \<and> APIToken old = apiToken
         \<and> subscriptions u = (if subStatus old = StatusUnsubscribed then subscriptions v
              else upsert (old\<lparr>subStatus := StatusUnsubscribed\<rparr>) (subscriptions v)))
      else subscriptions u = subscriptions v)"

text \<open>A list is given to whoever holds a valid API token of a live subscription of that email,
  and shows the subscriptions of that email that are not ended.\<close>

definition listing_outcome ::
  "string \<Rightarrow> string \<Rightarrow> 'v observed_scheme \<Rightarrow> web_response \<Rightarrow> bool" where
  "listing_outcome email apiToken v r =
     (if httpStatus r = 200
      then isValidToken apiToken
         \<and> (\<exists>s \<in> set (subscriptions v). live s \<and> subEmail s = email \<and> APIToken s = apiToken)
         \<and> (\<exists>subs repos. httpBody r = JArr (map marshal_item (subscription_items repos subs))
              \<and> mset subs = mset (rows_where (\<lambda>s. subEmail s = email \<and> subStatus s \<noteq> StatusUnsubscribed)
                                   (subscriptions v))
              \<and> mset repos = mset (rows_where (\<lambda>r. ID r \<in> RepositoryID ` set subs) (repositories v)))
      else \<exists>msg. httpBody r = JObj [(''error'', JStr msg)])"

definition rest_same :: "'v observed_scheme \<Rightarrow> 'v observed_scheme \<Rightarrow> bool" where
  "rest_same v u \<longleftrightarrow> repositories u = repositories v \<and> sagas u = sagas v
     \<and> outbox_rows u = outbox_rows v \<and> published u = published v"

lemma rest_same_simps [simp]:
  "rest_same v v" "rest_same v (counted_update f u) = rest_same v u"
  "rest_same (counted_update f v) u = rest_same v u"
  "rest_same v (subscriptions_update g u) = rest_same v u"
  by (simp_all add: rest_same_def)

lemma empty_mset_items [simp]: "subscription_items repos [] = []"
  by (simp add: subscription_items_def)

context subscription_web begin

lemma by_confirm_spec: "spec view v (FindSubscriptionByConfirmToken (hStore h) token) (\<lambda>r u. u = v
    \<and> finds_first (\<lambda>s. ConfirmToken s = token) (subscriptions v) r)"
  by (rule specI) (auto dest!: sub_by_confirm)

lemma by_tokens_spec: "spec view v (FindSubscriptionByTokens (hStore h) ct at) (\<lambda>r u. u = v
    \<and> finds_first (\<lambda>s. ConfirmToken s = ct \<and> APIToken s = at) (subscriptions v) r)"
  by (rule specI) (auto dest!: sub_by_tokens)

lemma by_email_spec: "spec view v (FindSubscriptionByEmailAndToken (hStore h) email at) (\<lambda>r u. u = v
    \<and> finds_first (\<lambda>s. subEmail s = email \<and> APIToken s = at) (subscriptions v) r)"
  by (rule specI) (auto dest!: sub_by_email)

lemma list_spec: "spec view v (ListSubscriptions (hStore h) email) (\<lambda>r u. u = v
    \<and> (case r of Inl e \<Rightarrow> True | Inr xs \<Rightarrow>
         mset xs = mset (rows_where (\<lambda>s. subEmail s = email \<and> subStatus s \<noteq> StatusUnsubscribed) (subscriptions v))))"
  by (rule specI) (auto dest!: list_subs split: sum.splits)

lemma repos_spec: "spec view v (FindReposByIDs (hStore h) ids) (\<lambda>r u. u = v
    \<and> (case r of Inl e \<Rightarrow> True | Inr xs \<Rightarrow>
         mset xs = mset (rows_where (\<lambda>r. ID r \<in> set ids) (repositories v))))"
  by (rule specI) (auto dest!: repos_by_ids split: sum.splits)

lemma plain_save_spec: "spec view v (SaveSubscription (hStore h) sub [])
    (\<lambda>r u. u = (case r of Some e \<Rightarrow> v | None \<Rightarrow> subscriptions_update (upsert sub) v))"
  by (rule specI) (auto simp: writes_sub_def saved_sub_def dest!: save_sub split: option.splits)

lemmas handler_rules = web_rules spec_read[OF by_confirm_spec] spec_read[OF by_tokens_spec]
  spec_read[OF by_email_spec] spec_read[OF list_spec] spec_read[OF repos_spec]
  spec_bind[OF plain_save_spec]

lemma activate_spec: "spec view v (activate h sub) (\<lambda>r u.
    case r of Inl _ \<Rightarrow> u = v
    | Inr sub' \<Rightarrow> if subStatus sub = StatusActive then sub' = sub \<and> u = v
        else \<exists>apiToken. isValidToken apiToken \<and> sub' = sub\<lparr>subStatus := StatusActive, APIToken := apiToken\<rparr>
          \<and> u = subscriptions_update (upsert sub') v)"
  unfolding activate_def Let_def
  by (auto intro!: handler_rules split: sum.splits option.splits; blast)

lemma end_spec: "spec view v (end_subscription h sub) (\<lambda>r u.
    u = (if r = None \<and> subStatus sub \<noteq> StatusUnsubscribed
         then subscriptions_update (upsert (sub\<lparr>subStatus := StatusUnsubscribed\<rparr>)) v else v))"
  unfolding end_subscription_def
  by (auto intro!: spec_conseq[OF plain_save_spec] spec_ret split: option.splits)

lemma Subscribe_spec:
  "spec view v (Subscribe fuel h c) (\<lambda>r u.
     subscribe_outcome (case ShouldBindJSON c of Inl _ \<Rightarrow> '''' | Inr req \<Rightarrow> TrimSpace (reqEmail req)) v r u
     \<and> counted u = counted v @ subscribe_counters r)"
  unfolding Subscribe_def Let_def
  by (auto intro!: web_rules spec_bind[OF resolve_spec] spec_conseq[OF subscribe_repo_spec]
       simp: subscribe_outcome_def subscribe_counters_def gin_error_def respond_def same_subs_def onboarded_def
       split: sum.splits option.splits)

lemma Confirm_spec:
  "spec view v (Confirm h c) (\<lambda>r u. confirm_outcome (Param c ''token'') v r u \<and> rest_same v u)"
  unfolding Confirm_def Let_def
  by (auto intro!: handler_rules spec_bind[OF activate_spec]
       simp: confirm_outcome_def gin_error_def gin_message_def respond_def finds_first_def rows_where_def
       split: sum.splits if_splits; force)

lemma Unsubscribe_spec:
  "spec view v (Unsubscribe h c) (\<lambda>r u.
     unsubscribe_outcome (Param c ''token'') (bearerToken c) v r u \<and> rest_same v u)"
  unfolding Unsubscribe_def Let_def
  by (auto intro!: handler_rules spec_bind[OF end_spec]
       simp: unsubscribe_outcome_def gin_error_def gin_message_def respond_def finds_first_def rows_where_def
       split: sum.splits option.splits if_splits; force)

lemma GetSubscriptions_spec:
  "spec view v (GetSubscriptions h c) (\<lambda>r u. u = v
     \<and> listing_outcome (TrimSpace (Query c ''email'')) (bearerToken c) v r)"
  unfolding GetSubscriptions_def Let_def
  by (auto intro!: handler_rules
       simp: listing_outcome_def gin_error_def gin_message_def respond_def finds_first_def rows_where_def
       split: sum.splits option.splits; blast)

end

section \<open>Finding a free token\<close>

context subscription_web begin

text \<open>A loop that is still looking has drawn taken tokens only.\<close>

lemma free_token_looking:
  assumes draw: "\<And>k w r w'. up k w \<Longrightarrow> run (hRandRead h) w = (r, w') \<Longrightarrow> r = Inr (bytes k) \<and> up (Suc k) w'"
    and ask: "\<And>k tok w r w'. up k w \<Longrightarrow> run (IsConfirmTokenTaken (hStore h) tok) w = (r, w')
      \<Longrightarrow> (\<exists>b. r = Inr b) \<and> up k w'"
    and "up k w" and "run (free_token fuel h) w = (r, w')"
  shows "(\<exists>tok. r = Some (Inr tok)) \<or> (r = None
    \<and> (\<forall>i \<in> {k ..< k + fuel}. \<exists>s \<in> set (subscriptions (view w)). ConfirmToken s = EncodeToString (bytes i)))"
  using assms(3,4)
proof (induction fuel arbitrary: k w)
  case (Suc fuel)
  obtain b w1 where 1: "run (hRandRead h) w = (b, w1)" by (rule prod.exhaust)
  have b: "b = Inr (bytes k)" and up1: "up (Suc k) w1" and v1: "view w1 = view w"
    using draw[OF Suc.prems(1) 1] rand[OF 1] by simp_all
  let ?tok = "EncodeToString (bytes k)"
  obtain t w2 where 2: "run (IsConfirmTokenTaken (hStore h) ?tok) w1 = (t, w2)" by (rule prod.exhaust)
  obtain x where x: "t = Inr x" and up2: "up (Suc k) w2" using ask[OF up1 2] by auto
  have v2: "view w2 = view w"
    and taken: "x \<longleftrightarrow> rows_where (\<lambda>s. ConfirmToken s = ?tok) (subscriptions (view w)) \<noteq> []"
    using token_taken[OF 2] x v1 by simp_all
  show ?case
  proof (cases x)
    case False
    then show ?thesis using Suc.prems(2) 1 2 b x by (auto simp: generateToken_def)
  next
    case True
    then have "run (free_token fuel h) w2 = (r, w')"
      using Suc.prems(2) 1 2 b x by (simp add: generateToken_def)
    note IH = Suc.IH[OF up2 this]
    have k: "\<exists>s \<in> set (subscriptions (view w)). ConfirmToken s = ?tok"
      using True taken by (auto simp: rows_where_def filter_empty_conv)
    have "\<exists>s \<in> set (subscriptions (view w)). ConfirmToken s = EncodeToString (bytes i)"
      if "i \<in> {k ..< k + Suc fuel}" and "\<forall>i \<in> {Suc k ..< Suc k + fuel}.
        \<exists>s \<in> set (subscriptions (view w)). ConfirmToken s = EncodeToString (bytes i)" for i
      using that k by (cases "i = k") auto
    then show ?thesis using IH v2 by auto
  qed
qed simp

lemma free_token_found:
  assumes draw: "\<And>k w r w'. up k w \<Longrightarrow> run (hRandRead h) w = (r, w') \<Longrightarrow> r = Inr (bytes k) \<and> up (Suc k) w'"
    and ask: "\<And>k tok w r w'. up k w \<Longrightarrow> run (IsConfirmTokenTaken (hStore h) tok) w = (r, w')
      \<Longrightarrow> (\<exists>b. r = Inr b) \<and> up k w'"
    and up: "up k w" and inj: "inj_on bytes {k ..< k + fuel}"
    and fuel: "length (subscriptions (view w)) < fuel"
    and run: "run (free_token fuel h) w = (r, w')"
  shows "\<exists>tok. r = Some (Inr tok)"
proof (rule ccontr)
  let ?f = "\<lambda>i. EncodeToString (bytes i)"
  assume "\<not> (\<exists>tok. r = Some (Inr tok))"
  then have all: "?f ` {k ..< k + fuel} \<subseteq> ConfirmToken ` set (subscriptions (view w))"
    using free_token_looking[where up = up and bytes = bytes, OF draw ask up run] by force
  have "inj_on ?f {k ..< k + fuel}"
    using inj EncodeToString_inj by (auto simp: inj_on_def)
  then have "fuel = card (?f ` {k ..< k + fuel})" by (simp add: card_image)
  also have "\<dots> \<le> card (ConfirmToken ` set (subscriptions (view w)))"
    using all by (simp add: card_mono)
  also have "\<dots> \<le> length (subscriptions (view w))"
    using card_image_le[of "set (subscriptions (view w))" ConfirmToken] card_length
    by (metis List.finite_set le_trans)
  finally show False using fuel by simp
qed

end

section \<open>The properties\<close>

text \<open>
  C2: \<open>Subscribe\<close> is all or nothing: a 200 means that the pending subscription of the trimmed
  email, the saga awaiting its token and the outbox row that carries the token to the
  notifier are all in the database, the token being well formed and nobody else's; any other
  answer leaves subscriptions, sagas and outbox as they were. The attempt is always counted,
  a success or a conflict exactly when the answer is a 200 or a 409.
\<close>

theorem subscribe_is_atomic:
  assumes "subscription_web h view" and "run (Subscribe fuel h c) w = (r, w')"
  shows "subscribe_outcome (case ShouldBindJSON c of Inl _ \<Rightarrow> '''' | Inr req \<Rightarrow> TrimSpace (reqEmail req))
      (view w) r (view w')
    \<and> counted (view w') = counted (view w) @ subscribe_counters r"
  using specD[OF subscription_web.Subscribe_spec[OF assms(1)] refl assms(2)] .

text \<open>
  C23: The search for a free token ends: while the random source does not repeat itself and the
  database answers, it takes at most one attempt more than there are subscriptions.
\<close>

theorem token_search_ends:
  assumes "subscription_web h view"
    and "\<And>k w r w'. up k w \<Longrightarrow> run (hRandRead h) w = (r, w') \<Longrightarrow> r = Inr (bytes k) \<and> up (Suc k) w'"
    and "\<And>k tok w r w'. up k w \<Longrightarrow> run (IsConfirmTokenTaken (hStore h) tok) w = (r, w')
      \<Longrightarrow> (\<exists>b. r = Inr b) \<and> up k w'"
    and "up k w" and "inj_on bytes {k ..< k + fuel}"
    and "length (subscriptions (view w)) < fuel"
  shows "\<exists>tok w'. run (free_token fuel h) w = (Some (Inr tok), w') \<and> isValidToken tok
    \<and> rows_where (\<lambda>s. ConfirmToken s = tok) (subscriptions (view w)) = []"
proof -
  obtain r w' where run: "run (free_token fuel h) w = (r, w')" by (rule prod.exhaust)
  obtain tok where tok: "r = Some (Inr tok)"
    using subscription_web.free_token_found[where up = up and bytes = bytes,
        OF assms(1) _ _ assms(4-6) run] assms(2,3) by blast
  show ?thesis
    using specD[OF subscription_web.free_token_spec[OF assms(1)] refl run] tok run
    by (auto simp: free_for_def)
qed

text \<open>
  C15: \<open>Confirm\<close> hands out an API token only for a live subscription with the given, well-formed
  confirm token: the one it has when it is active already, and otherwise a new one that is
  stored, as the subscription becomes active, before it is returned. That holds for an ended
  subscription too. Any other answer changes nothing and carries no token; nothing else in
  the database is ever changed.
\<close>

theorem confirm_activates_holder:
  assumes "subscription_web h view" and "run (Confirm h c) w = (r, w')"
  shows "confirm_outcome (Param c ''token'') (view w) r (view w') \<and> rest_same (view w) (view w')"
  using specD[OF subscription_web.Confirm_spec[OF assms(1)] refl assms(2)] .

text \<open>
  C16: \<open>Unsubscribe\<close> succeeds only for a live subscription with both the confirm token of the path
  and the API token of the bearer header, both well formed; it then is ended and nothing
  else changes. Any other answer changes nothing.
\<close>

theorem unsubscribe_needs_both_tokens:
  assumes "subscription_web h view" and "run (Unsubscribe h c) w = (r, w')"
  shows "unsubscribe_outcome (Param c ''token'') (bearerToken c) (view w) r (view w')
    \<and> rest_same (view w) (view w')"
  using specD[OF subscription_web.Unsubscribe_spec[OF assms(1)] refl assms(2)] .

text \<open>
  C17: \<open>GetSubscriptions\<close> changes nothing, and lists subscriptions only to the holder of a
  well-formed API token of a live subscription of the queried email: one item for each
  subscription of that email that is not ended and whose repository exists, and none of any
  other email. Every other answer is an error without any item.
\<close>

theorem listing_needs_token:
  assumes "subscription_web h view" and "run (GetSubscriptions h c) w = (r, w')"
  shows "view w' = view w \<and> listing_outcome (TrimSpace (Query c ''email'')) (bearerToken c) (view w) r"
  using specD[OF subscription_web.GetSubscriptions_spec[OF assms(1)] refl assms(2)] .

section \<open>Witnesses\<close>

text \<open>The handlers over the database in memory; the random bytes number the draws.\<close>

definition mem_bytes :: "nat \<Rightarrow> 8 word list" where
  "mem_bytes k = replicate 15 0 @ [word_of_nat k]"

definition mem_handler :: "mem_world SubscriptionHandler" where
  "mem_handler =
     \<lparr>hStore = NewSubscriptionStore mem_gorm,
      hResolver = (\<lambda>owner name etag. ret
        \<lparr>rData = \<lparr>ghID = 7, ghFullName = owner @ ''/'' @ name\<rparr>, rLimits = zero_limits, rETag = '''',
         rStatusCode = 200, rError = None\<rparr>),
      hRandRead = State (\<lambda>w. (Inr (mem_bytes (drawn w)), w\<lparr>drawn := Suc (drawn w)\<rparr>)),
      hServices = \<lparr>NewString = ret ''id'', NowUTC = ret ''2026-01-31T23:59:59Z''\<rparr>,
      hInc = (\<lambda>c. State (\<lambda>w. ((), counted_update (\<lambda>cs. cs @ [c]) w)))\<rparr>"

interpretation mem_web: subscription_web mem_handler obs
  unfolding mem_handler_def
  by (intro subscription_web.intro subscription_web_axioms.intro;
      unfold SubscriptionHandler.simps services.simps;
      (rule mem.subscriptions_store.subscription_repository_axioms)?)
    (auto simp: mem_now_text mem_bytes_def)

definition web_context :: "string \<Rightarrow> string \<Rightarrow> gin_context" where
  "web_context path bearer =
     \<lparr>ShouldBindJSON = Inr \<lparr>reqEmail = '' a@b.c'', reqRepo = ''o/r''\<rparr>, Param = (\<lambda>_. path),
      Query = (\<lambda>_. ''a@b.c''), GetHeader = (\<lambda>_. ''Bearer '' @ bearer)\<rparr>"

definition tok :: "char \<Rightarrow> string" where
  "tok c = replicate 32 c"

definition web_world :: mem_world where
  "web_world = empty_world\<lparr>
     repositories := [\<lparr>ID = 1, CreatedAt = 0, DeletedAt = None, repoGitHubID = 7, repoETag = '''',
       Owner = ''o'', Name = ''r'', LastRelease = \<lparr>relGitHubID = 0, TagName = ''v1'', relETag = ''''\<rparr>,
       repoStatus = StatusIdle, LastScannedAt = None\<rparr>],
     subscriptions := [(pending_subscription ''a@b.c'' 1 (tok CHR ''a''))
       \<lparr>ID := 1, subStatus := StatusActive, APIToken := tok CHR ''b''\<rparr>]\<rparr>"

theorem subscribe_is_atomic_witness:
  "case run (Subscribe 1 mem_handler (web_context '''' '''')) empty_world of (r, w') \<Rightarrow>
     subscribe_outcome (TrimSpace '' a@b.c'') (obs empty_world) r (obs w')"
  using subscribe_is_atomic[of mem_handler obs 1 "web_context '''' ''''" empty_world,
      OF mem_web.subscription_web_axioms surjective_pairing]
  by (simp add: split_beta web_context_def)

theorem confirm_activates_holder_witness:
  "case run (Confirm mem_handler (web_context (tok CHR ''a'') '''')) web_world of (r, w') \<Rightarrow>
     confirm_outcome (tok CHR ''a'') (obs web_world) r (obs w')"
  using confirm_activates_holder[of mem_handler obs "web_context (tok CHR ''a'') ''''" web_world,
      OF mem_web.subscription_web_axioms surjective_pairing]
  by (simp add: split_beta web_context_def)

theorem unsubscribe_needs_both_tokens_witness:
  "case run (Unsubscribe mem_handler (web_context (tok CHR ''a'') (tok CHR ''b''))) web_world of (r, w') \<Rightarrow>
     rest_same (obs web_world) (obs w')"
  using unsubscribe_needs_both_tokens[of mem_handler obs "web_context (tok CHR ''a'') (tok CHR ''b'')"
      web_world, OF mem_web.subscription_web_axioms surjective_pairing]
  by (simp add: split_beta)

theorem listing_needs_token_witness:
  "obs (snd (run (GetSubscriptions mem_handler (web_context '''' (tok CHR ''b''))) web_world)) = obs web_world"
  using listing_needs_token[of mem_handler obs "web_context '''' (tok CHR ''b'')" web_world,
      OF mem_web.subscription_web_axioms surjective_pairing]
  by simp

text \<open>The worlds without planned faults in which \<open>k\<close> values were drawn.\<close>

definition drew :: "nat \<Rightarrow> mem_world \<Rightarrow> bool" where
  "drew k w \<longleftrightarrow> faults w = [] \<and> drawn w = k"

lemma mem_draw:
  "drew k w \<Longrightarrow> run (hRandRead mem_handler) w = (r, w') \<Longrightarrow> r = Inr (mem_bytes k) \<and> drew (Suc k) w'"
  by (auto simp: mem_handler_def drew_def)

lemma mem_ask:
  "drew k w \<Longrightarrow> run (IsConfirmTokenTaken (hStore mem_handler) t) w = (r, w') \<Longrightarrow> (\<exists>b. r = Inr b) \<and> drew k w'"
  by (auto simp: mem_handler_def drew_def NewSubscriptionStore_def IsConfirmTokenTaken_gorm_def mem_gorm_def
      mem_table_def read_call_def attempt_def Let_def)

theorem token_search_ends_witness:
  "\<exists>token w'. run (free_token 2 mem_handler) web_world = (Some (Inr token), w') \<and> isValidToken token"
proof -
  have "inj_on mem_bytes {0 ..< 0 + 2}"
    by (auto simp: inj_on_def mem_bytes_def less_Suc_eq numeral_2_eq_2)
  moreover have "drew 0 web_world" and "length (subscriptions (obs web_world)) < 2"
    by (simp_all add: drew_def web_world_def empty_world_def)
  ultimately show ?thesis
    using token_search_ends[of mem_handler obs drew mem_bytes 0 web_world 2,
        OF mem_web.subscription_web_axioms] mem_draw mem_ask by blast
qed

end
