(* ===== verification/Redis.thy ===== *)
theory Redis
  imports Prelude
begin

text \<open>
  The Redis client that \<open>internal/infra/redis\<close> calls, as a parameter, and what is assumed of it.
\<close>

text \<open>The Redis client: \<open>SetArgs(key, 1, NX, TTL).Err()\<close>, \<open>Del\<close>, and for the response cache
  \<open>Get\<close> and \<open>Set\<close> with a time to live.\<close>

record 'w redis_client =
  redisSetNX :: "string \<Rightarrow> string \<Rightarrow> int64 \<Rightarrow> ('w, goerror option) state"
  redisDel :: "string \<Rightarrow> ('w, goerror option) state"
  redisGet :: "string \<Rightarrow> ('w, goerror + string) state"
  redisSet :: "string \<Rightarrow> string \<Rightarrow> int64 \<Rightarrow> ('w, goerror option) state"

text \<open>\<open>GetClient(addr)\<close>: the singleton behind \<open>sync.Once\<close>, a cell that is filled on the first
  call; \<open>newClient\<close> is \<open>goredis.NewClient\<close>.\<close>

record ('w, 'a) once =
  onceGet :: "('w, 'a option) state"
  onceSet :: "'a \<Rightarrow> ('w, unit) state"

definition GetClient ::
  "(string \<Rightarrow> ('w, 'w redis_client) state) \<Rightarrow> ('w, 'w redis_client) once \<Rightarrow> string \<Rightarrow> ('w, 'w redis_client) state" where
  "GetClient newClient cell addr = do {
     inst \<leftarrow> onceGet cell;
     case inst of
       Some c \<Rightarrow> ret c
     | None \<Rightarrow> do { c \<leftarrow> newClient addr; onceSet cell c; ret c } }"

text \<open>A Redis database seen within the time to live of its keys: a call that reports an error
  may or may not have taken effect.\<close>

locale redis_keys =
  fixes R :: "'w redis_client" and live :: "'w \<Rightarrow> (string \<rightharpoonup> string)"
  assumes set_nx: "\<And>key v ttl w r w'. run (redisSetNX R key v ttl) w = (r, w') \<Longrightarrow>
      (if r = None then live w key = None \<and> live w' = (live w)(key \<mapsto> v)
       else if r = Some RedisNil then live w key \<noteq> None \<and> live w' = live w
       else live w' = live w \<or> (live w key = None \<and> live w' = (live w)(key \<mapsto> v)))"
    and del: "\<And>key w r w'. run (redisDel R key) w = (r, w') \<Longrightarrow>
      live w' = (live w)(key := None) \<or> (r \<noteq> None \<and> live w' = live w)"
    and get: "\<And>key w r w'. run (redisGet R key) w = (r, w') \<Longrightarrow> live w' = live w
      \<and> (case r of Inr v \<Rightarrow> live w key = Some v | Inl e \<Rightarrow> e = RedisNil \<longrightarrow> live w key = None)"
    and set: "\<And>key v ttl w r w'. run (redisSet R key v ttl) w = (r, w') \<Longrightarrow>
      live w' = (live w)(key \<mapsto> v) \<or> (r \<noteq> None \<and> live w' = live w)"

end
