(* ===== verification/Notifier.thy ===== *)
theory Notifier
  imports Publisher Redis
begin

text \<open>
  \<open>internal/worker/notifier\<close> and \<open>internal/infra/redis/dedup.go\<close>: a domain event becomes an
  email command, published at most once per event identifier. The locale \<open>dedup_store\<close> is the
  contract of \<open>DedupStore\<close>, met by the Redis store, and \<open>notifier_world\<close> adds that of the
  command publisher. The theorems: every delivery is settled exactly once, an event is acked
  only when its command was sent now or its key was set before, any number of redeliveries
  sends it at most once, and where a failed rollback of the key loses it.
\<close>

section \<open>The Redis store of processed keys\<close>

record 'w DedupStore =
  MarkProcessed :: "string \<Rightarrow> ('w, goerror + bool) state"
  Unmark :: "string \<Rightarrow> ('w, goerror option) state"

definition dedup_MarkProcessed :: "'w redis_client \<Rightarrow> int64 \<Rightarrow> string \<Rightarrow> ('w, goerror + bool) state" where
  "dedup_MarkProcessed R ttl key = do {
     err \<leftarrow> redisSetNX R key ''1'' ttl;
     ret (if err = Some RedisNil then Inr False
          else case err of Some e \<Rightarrow> Inl e | None \<Rightarrow> Inr True) }"

definition dedup_Unmark :: "'w redis_client \<Rightarrow> string \<Rightarrow> ('w, goerror option) state" where
  "dedup_Unmark R key = redisDel R key"

definition NewDedup :: "'w redis_client \<Rightarrow> int64 \<Rightarrow> 'w DedupStore" where
  "NewDedup R ttl = \<lparr>MarkProcessed = dedup_MarkProcessed R ttl, Unmark = dedup_Unmark R\<rparr>"

section \<open>From events to commands\<close>

type_synonym 'w CommandPublisher = "DeliveryMessage \<Rightarrow> ('w, goerror option) state"

record 'w Notifier =
  nPublisher :: "'w CommandPublisher"
  nDedup :: "'w DedupStore"

definition NewNotifier :: "'w CommandPublisher \<Rightarrow> 'w DedupStore \<Rightarrow> 'w Notifier" where
  "NewNotifier publisher dedup = \<lparr>nPublisher = publisher, nDedup = dedup\<rparr>"

text \<open>\<open>commandPublisher.Publish\<close>.\<close>

definition command_Publish :: "'w Broker \<Rightarrow> 'w CommandPublisher" where
  "command_Publish B cmd =
     B CommandsExchange RoutingKeyEmailSend (marshal_DeliveryMessage cmd)"

definition dedupKeyPrefix :: string where "dedupKeyPrefix = ''processed:''"

definition decode_failed :: "string \<Rightarrow> goerror \<Rightarrow> goerror + (DeliveryMessage \<times> bool)" where
  "decode_failed t err = Inl (Err (''decode '' @ t @ '': '' @ err_text err))"

text \<open>\<open>toCommand\<close>: the command and whether to send it, or the error of a poison event.\<close>

definition toCommand :: "Envelope \<Rightarrow> goerror + (DeliveryMessage \<times> bool)" where
  "toCommand env =
     (if EnvType env = TypeReleaseDetected then
        (case DecodeReleaseDetected env of
           Inl err \<Rightarrow> decode_failed (EnvType env) err
         | Inr p \<Rightarrow> Inr (\<lparr>dmEvent = EventNewRelease, dmEmail = rdEmail p, dmRepo = rdRepo p,
                          dmRelease = rdReleaseTag p, dmPayload = []\<rparr>, True))
      else if EnvType env = TypeRepositoryMoved then
        (case DecodeRepositoryMoved env of
           Inl err \<Rightarrow> decode_failed (EnvType env) err
         | Inr p \<Rightarrow> Inr (\<lparr>dmEvent = EventRepoMoved, dmEmail = rmEmail p, dmRepo = rmRepo p,
                          dmRelease = '''', dmPayload = []\<rparr>, True))
      else if EnvType env = TypeSubscriptionCreated then
        (case DecodeSubscriptionCreated env of
           Inl err \<Rightarrow> decode_failed (EnvType env) err
         | Inr p \<Rightarrow> Inr (\<lparr>dmEvent = EventEmailVerification, dmEmail = scEmail p, dmRepo = '''',
                          dmRelease = '''', dmPayload = [(''token'', JStr (scToken p))]\<rparr>, True))
      else Inl (Err (''unknown event type: '' @ quoted (EnvType env))))"

definition notifier_process :: "'w Notifier \<Rightarrow> string \<Rightarrow> 'w Settler \<Rightarrow> ('w, unit) state" where
  "notifier_process n body s =
     (case unmarshal_Envelope body of
        Inl err \<Rightarrow> sDeadLetter s (''unmarshal envelope: '' @ err_text err)
      | Inr env \<Rightarrow>
          (case toCommand env of
             Inl err \<Rightarrow> sDeadLetter s (err_text err)
           | Inr (cmd, send) \<Rightarrow>
               if \<not> send then sAck s
               else do {
                 let key = dedupKeyPrefix @ EnvID env;
                 marked \<leftarrow> MarkProcessed (nDedup n) key;
                 case marked of
                   Inl err \<Rightarrow> sRetry s (''dedup check: '' @ err_text err)
                 | Inr fresh \<Rightarrow>
                     if \<not> fresh then sAck s
                     else do {
                       pubErr \<leftarrow> nPublisher n cmd;
                       case pubErr of
                         Some e \<Rightarrow> do {
                           unmarkErr \<leftarrow> Unmark (nDedup n) key;
                           sRetry s (''publish command: '' @ err_text e) }
                       | None \<Rightarrow> sAck s } }))"

definition notifier_Handler :: "'w Notifier \<Rightarrow> 'w DeliveryHandler" where
  "notifier_Handler n body s = notifier_process n body s"

section \<open>Every event is settled exactly once\<close>

text \<open>What the handler decides for an event whose command is to be sent, and for any body.\<close>

definition send_decision :: "'w Notifier \<Rightarrow> string \<Rightarrow> DeliveryMessage \<Rightarrow> ('w, settle_action) state" where
  "send_decision n key cmd = do {
     marked \<leftarrow> MarkProcessed (nDedup n) key;
     case marked of
       Inl err \<Rightarrow> ret (ActRetry (''dedup check: '' @ err_text err))
     | Inr fresh \<Rightarrow>
         if \<not> fresh then ret ActAck
         else do {
           pubErr \<leftarrow> nPublisher n cmd;
           case pubErr of
             Some e \<Rightarrow> do {
               unmarkErr \<leftarrow> Unmark (nDedup n) key;
               ret (ActRetry (''publish command: '' @ err_text e)) }
           | None \<Rightarrow> ret ActAck } }"

definition event_command :: "string \<Rightarrow> string + (string \<times> DeliveryMessage)" where
  "event_command body =
     (case unmarshal_Envelope body of
        Inl err \<Rightarrow> Inl (''unmarshal envelope: '' @ err_text err)
      | Inr env \<Rightarrow> (case toCommand env of
             Inl err \<Rightarrow> Inl (err_text err)
           | Inr (cmd, _) \<Rightarrow> Inr (dedupKeyPrefix @ EnvID env, cmd)))"

definition notifier_decision :: "'w Notifier \<Rightarrow> string \<Rightarrow> ('w, settle_action) state" where
  "notifier_decision n body =
     (case event_command body of
        Inl reason \<Rightarrow> ret (ActDeadLetter reason)
      | Inr (key, cmd) \<Rightarrow> send_decision n key cmd)"

lemma toCommand_sends: "toCommand env = Inr (cmd, send) \<Longrightarrow> send"
  by (auto simp: toCommand_def decode_failed_def split: if_splits sum.splits)

text \<open>
  Whatever the body and the services do, the notifier settles a delivery exactly once, as the
  last thing it does: its handler is its decision, which never calls the settler, followed by
  the one call that the decision names. No event is acked without having a command.
\<close>

theorem notifier_settles_once:
  "notifier_Handler n body s = do { a \<leftarrow> notifier_decision n body; settle_with s a }"
  by (rule state_ext)
     (auto simp: notifier_Handler_def notifier_process_def notifier_decision_def event_command_def
        send_decision_def Let_def split: sum.splits prod.splits option.splits dest: toCommand_sends)

section \<open>The contracts\<close>

locale dedup_store =
  fixes D :: "'w DedupStore" and marked :: "'w \<Rightarrow> string set"
  assumes mark: "\<And>key w r w'. run (MarkProcessed D key) w = (r, w') \<Longrightarrow>
      (case r of
         Inr True \<Rightarrow> key \<notin> marked w \<and> marked w' = insert key (marked w)
       | Inr False \<Rightarrow> key \<in> marked w \<and> marked w' = marked w
       | Inl _ \<Rightarrow> marked w \<subseteq> marked w' \<and> marked w' \<subseteq> insert key (marked w))"
    and unmark: "\<And>key w r w'. run (Unmark D key) w = (r, w') \<Longrightarrow>
      marked w' = marked w - {key} \<or> (r \<noteq> None \<and> marked w' = marked w)"

sublocale redis_keys \<subseteq> dedup: dedup_store "NewDedup R ttl" "\<lambda>w. dom (live w)"
proof
  show "run (MarkProcessed (NewDedup R ttl) key) w = (r, w') \<Longrightarrow>
      (case r of
         Inr True \<Rightarrow> key \<notin> dom (live w) \<and> dom (live w') = insert key (dom (live w))
       | Inr False \<Rightarrow> key \<in> dom (live w) \<and> dom (live w') = dom (live w)
       | Inl _ \<Rightarrow> dom (live w) \<subseteq> dom (live w') \<and> dom (live w') \<subseteq> insert key (dom (live w)))" for key w r w'
    by (auto simp: NewDedup_def dedup_MarkProcessed_def domIff split: prod.splits if_splits option.splits
        dest!: set_nx)
  show "run (Unmark (NewDedup R ttl) key) w = (r, w') \<Longrightarrow>
      dom (live w') = dom (live w) - {key} \<or> (r \<noteq> None \<and> dom (live w') = dom (live w))" for key w r w'
    unfolding NewDedup_def dedup_Unmark_def DedupStore.simps by (drule del, elim disjE) simp_all
qed

text \<open>A notifier among its services: \<open>commands\<close> lists the commands its publisher had accepted,
  in its transport's form.\<close>

locale notifier_world = dedup_store "nDedup n" marked
  for n :: "'w Notifier" and marked :: "'w \<Rightarrow> string set" +
  fixes commands :: "'w \<Rightarrow> 'c list" and sent :: "DeliveryMessage \<Rightarrow> 'c"
  assumes publish_cmd: "\<And>cmd w r w'. run (nPublisher n cmd) w = (r, w') \<Longrightarrow> marked w' = marked w
      \<and> commands w' = commands w @ (if r = None then [sent cmd] else [])"
    and mark_commands: "\<And>key w r w'. run (MarkProcessed (nDedup n) key) w = (r, w') \<Longrightarrow> commands w' = commands w"
    and unmark_commands: "\<And>key w r w'. run (Unmark (nDedup n) key) w = (r, w') \<Longrightarrow> commands w' = commands w"

text \<open>The notifier as \<open>cmd/notifier\<close> wires it: the broker and Redis do not disturb each other.\<close>

locale notifier_amqp = broker B view + redis_keys R live
  for B :: "'w Broker" and view :: "'w \<Rightarrow> 'v observed_scheme"
    and R :: "'w redis_client" and live :: "'w \<Rightarrow> (string \<rightharpoonup> string)" +
  assumes broker_live: "\<And>ex rk doc w r w'. run (B ex rk doc) w = (r, w') \<Longrightarrow> live w' = live w"
    and nx_view: "\<And>key v ttl w r w'. run (redisSetNX R key v ttl) w = (r, w') \<Longrightarrow> view w' = view w"
    and del_view: "\<And>key w r w'. run (redisDel R key) w = (r, w') \<Longrightarrow> view w' = view w"

definition command_message :: "DeliveryMessage \<Rightarrow> string \<times> string \<times> string" where
  "command_message cmd = (CommandsExchange, RoutingKeyEmailSend, json_print (marshal_DeliveryMessage cmd))"

sublocale notifier_amqp \<subseteq> wired: notifier_world "NewNotifier (command_Publish B) (NewDedup R ttl)"
  "\<lambda>w. dom (live w)" "\<lambda>w. published (view w)" command_message
proof (unfold_locales; unfold NewNotifier_def Notifier.simps)
  fix key w r w'
  show "run (MarkProcessed (NewDedup R ttl) key) w = (r, w') \<Longrightarrow>
      (case r of
         Inr True \<Rightarrow> key \<notin> dom (live w) \<and> dom (live w') = insert key (dom (live w))
       | Inr False \<Rightarrow> key \<in> dom (live w) \<and> dom (live w') = dom (live w)
       | Inl _ \<Rightarrow> dom (live w) \<subseteq> dom (live w') \<and> dom (live w') \<subseteq> insert key (dom (live w)))" for r
    by (rule dedup.mark)
  show "run (Unmark (NewDedup R ttl) key) w = (r, w') \<Longrightarrow>
      dom (live w') = dom (live w) - {key} \<or> (r \<noteq> None \<and> dom (live w') = dom (live w))" for r
    by (rule dedup.unmark)
next
  fix cmd w r w'
  show "run (command_Publish B cmd) w = (r, w') \<Longrightarrow> dom (live w') = dom (live w)
      \<and> published (view w') = published (view w) @ (if r = None then [command_message cmd] else [])"
    unfolding command_Publish_def command_message_def by (auto dest: publish broker_live)
next
  fix key w r w'
  show "run (MarkProcessed (NewDedup R ttl) key) w = (r, w') \<Longrightarrow> published (view w') = published (view w)" for r
    by (auto simp: NewDedup_def dedup_MarkProcessed_def split: prod.splits dest!: nx_view)
  show "run (Unmark (NewDedup R ttl) key) w = (r, w') \<Longrightarrow> published (view w') = published (view w)" for r
    by (auto simp: NewDedup_def dedup_Unmark_def dest!: del_view)
qed

section \<open>One delivery\<close>

context notifier_world begin

text \<open>Handling an event whose command is \<open>cmd\<close>: the key of no other event is touched; an ack
  leaves the key set, with the command sent now unless the key was set before.\<close>

lemma send_decision_outcome:
  assumes "run (send_decision n key cmd) w = (a, w')"
  shows "(marked w - {key} \<subseteq> marked w' \<and> marked w' \<subseteq> insert key (marked w))
    \<and> (if a = ActAck then key \<in> marked w'
         \<and> commands w' = commands w @ (if key \<in> marked w then [] else [sent cmd])
       else (\<exists>reason. a = ActRetry reason) \<and> commands w' = commands w \<and> (key \<in> marked w \<longrightarrow> key \<in> marked w'))"
proof -
  obtain m w1 where 1: "run (MarkProcessed (nDedup n) key) w = (m, w1)" by (rule prod.exhaust)
  note k = mark[OF 1] mark_commands[OF 1]
  show ?thesis
  proof (cases "m = Inr True")
    case False
    then show ?thesis using assms 1 k by (auto simp: send_decision_def split: sum.splits bool.splits)
  next
    case True
    obtain p w2 where 2: "run (nPublisher n cmd) w1 = (p, w2)" by (rule prod.exhaust)
    obtain u w3 where 3: "run (Unmark (nDedup n) key) w2 = (u, w3)" by (rule prod.exhaust)
    show ?thesis
      using assms True 1 2 3 k publish_cmd[OF 2] unmark[OF 3] unmark_commands[OF 3]
      by (auto simp: send_decision_def split: option.splits)
  qed
qed

end

section \<open>Redeliveries\<close>

text \<open>The decisions for deliveries that come one after the other.\<close>

fun decide_all :: "'w Notifier \<Rightarrow> string list \<Rightarrow> ('w, settle_action list) state" where
  "decide_all n [] = ret []"
| "decide_all n (body # bodies) = do {
     a \<leftarrow> notifier_decision n body;
     as \<leftarrow> decide_all n bodies;
     ret (a # as) }"

text \<open>The key is in the store only while it stands for a sent command: a rollback works, and a
  failed attempt to set the key did not set it.\<close>

definition keys_roll_back :: "'w DedupStore \<Rightarrow> ('w \<Rightarrow> string set) \<Rightarrow> string \<Rightarrow> bool" where
  "keys_roll_back D marked key \<longleftrightarrow>
     (\<forall>w r w'. run (Unmark D key) w = (r, w') \<longrightarrow> key \<notin> marked w')
   \<and> (\<forall>w e w'. run (MarkProcessed D key) w = (Inl e, w') \<longrightarrow> key \<in> marked w' \<longrightarrow> key \<in> marked w)"

context notifier_world begin

lemma decide_step:
  assumes "run (decide_all n (body # bodies)) w = (as, w')" and "event_command body = Inr (key, cmd)"
  obtains a as' w1 where "run (send_decision n key cmd) w = (a, w1)"
    and "run (decide_all n bodies) w1 = (as', w')" and "as = a # as'"
  using assms by (auto simp: notifier_decision_def split: prod.splits)

lemma redeliveries_send_once:
  assumes "run (decide_all n bodies) w = (as, w')" and "\<forall>b \<in> set bodies. event_command b = Inr (key, cmd)"
  shows "if key \<in> marked w then commands w' = commands w \<and> key \<in> marked w'
    else commands w' \<in> {commands w, commands w @ [sent cmd]}"
  using assms
proof (induction bodies arbitrary: w as)
  case (Cons body bodies)
  have "event_command body = Inr (key, cmd)" using Cons.prems(2) by simp
  with Cons.prems(1) obtain a as' w1 where 1: "run (send_decision n key cmd) w = (a, w1)"
    and 2: "run (decide_all n bodies) w1 = (as', w')" by (rule decide_step)
  show ?case
    using Cons.IH[OF 2] Cons.prems(2) send_decision_outcome[OF 1] by (auto split: if_splits)
qed simp

lemma rolled_back_decision:
  assumes "keys_roll_back (nDedup n) marked key" and run: "run (send_decision n key cmd) w = (a, w')"
    and "a \<noteq> ActAck" and "key \<notin> marked w"
  shows "key \<notin> marked w'"
proof -
  obtain m w1 where 1: "run (MarkProcessed (nDedup n) key) w = (m, w1)" by (rule prod.exhaust)
  obtain p w2 where 2: "run (nPublisher n cmd) w1 = (p, w2)" by (rule prod.exhaust)
  obtain u w3 where 3: "run (Unmark (nDedup n) key) w2 = (u, w3)" by (rule prod.exhaust)
  show ?thesis
    using assms 1 2 3 mark[OF 1]
    by (auto simp: send_decision_def keys_roll_back_def split: option.splits sum.splits bool.splits if_splits)
qed

lemma acked_once:
  assumes "keys_roll_back (nDedup n) marked key"
    and "run (decide_all n bodies) w = (as, w')" and "\<forall>b \<in> set bodies. event_command b = Inr (key, cmd)"
    and "key \<notin> marked w"
  shows "commands w' = commands w @ (if ActAck \<in> set as then [sent cmd] else [])"
  using assms(2-)
proof (induction bodies arbitrary: w as)
  case (Cons body bodies)
  have ev: "event_command body = Inr (key, cmd)" "\<forall>b \<in> set bodies. event_command b = Inr (key, cmd)"
    using Cons.prems(2) by simp_all
  from Cons.prems(1) ev(1) obtain a as' w1 where 1: "run (send_decision n key cmd) w = (a, w1)"
    and 2: "run (decide_all n bodies) w1 = (as', w')" and as: "as = a # as'" by (rule decide_step)
  note o = send_decision_outcome[OF 1]
  show ?case
  proof (cases "a = ActAck")
    case True
    then show ?thesis
      using o redeliveries_send_once[OF 2 ev(2)] as Cons.prems(3) by simp
  next
    case False
    then have "key \<notin> marked w1" using rolled_back_decision[OF assms(1) 1] Cons.prems(3) by simp
    then show ?thesis using Cons.IH[OF 2 ev(2)] o as False by (simp split: if_splits)
  qed
qed simp

end

section \<open>The properties\<close>

text \<open>
  C29: An event is dead-lettered exactly when it has no command, and then nothing else happens; it
  is acked only with its key set, and either its command was accepted now or the key was set
  before; a retry has sent nothing. The key of no other event is touched.
\<close>

theorem notifier_acks_only_sent:
  assumes "notifier_world n marked commands sent" and "run (notifier_decision n body) w = (a, w')"
  shows "case event_command body of
      Inl reason \<Rightarrow> a = ActDeadLetter reason \<and> w' = w
    | Inr (key, cmd) \<Rightarrow> marked w - {key} \<subseteq> marked w' \<and> marked w' \<subseteq> insert key (marked w)
        \<and> (if a = ActAck then key \<in> marked w'
             \<and> commands w' = commands w @ (if key \<in> marked w then [] else [sent cmd])
           else (\<exists>reason. a = ActRetry reason) \<and> commands w' = commands w)"
  using assms(2) notifier_world.send_decision_outcome[OF assms(1)]
  by (simp add: notifier_decision_def split: sum.splits prod.splits) blast

text \<open>
  However often and with whatever failures an event is delivered again, its command is sent at
  most once.
\<close>

theorem redelivered_event_sent_once:
  assumes "notifier_world n marked commands sent" and "run (decide_all n bodies) w = (as, w')"
    and "\<forall>b \<in> set bodies. event_command b = Inr (key, cmd)"
  shows "commands w' \<in> {commands w, commands w @ [sent cmd]}"
  using notifier_world.redeliveries_send_once[OF assms] by (simp split: if_splits)

text \<open>
  C13: While failed attempts take the key back, an event that was not sent before is sent exactly
  once as soon as one of its deliveries is acked, and not at all before.
\<close>

theorem acked_event_was_sent:
  assumes "notifier_world n marked commands sent" and "keys_roll_back (nDedup n) marked key"
    and "run (decide_all n bodies) w = (as, w')"
    and "\<forall>b \<in> set bodies. event_command b = Inr (key, cmd)" and "key \<notin> marked w"
  shows "commands w' = commands w @ (if ActAck \<in> set as then [sent cmd] else [])"
  by (rule notifier_world.acked_once[OF assms])

text \<open>
  C31: A rollback that fails loses the event: the key outlives the failed publish, and every later
  delivery is acked, when the store answers, without the command ever being sent.
\<close>

theorem failed_rollback_loses_event:
  assumes "notifier_world n marked commands sent"
    and "event_command body = Inr (key, cmd)"
    and "run (notifier_decision n body) w = (ActRetry reason, w1)" and "key \<in> marked w1"
    and "run (decide_all n (replicate k body)) w1 = (as, w')"
  shows "commands w' = commands w \<and> key \<in> marked w'"
  using notifier_world.redeliveries_send_once[OF assms(1,5), of key cmd]
    notifier_world.send_decision_outcome[OF assms(1), of key cmd w "ActRetry reason" w1] assms(2-4)
  by (auto simp: notifier_decision_def)

section \<open>A notifier in memory\<close>

text \<open>A broker and a Redis database, with the schedule of the calls that fail.\<close>

record notifier_mem =
  nmLive :: "string \<rightharpoonup> string"
  nmPublished :: "(string \<times> string \<times> string) list"
  nmFaults :: "bool list"

definition nm_call :: "(notifier_mem \<Rightarrow> goerror option \<times> notifier_mem) \<Rightarrow> (notifier_mem, goerror option) state" where
  "nm_call f = State (\<lambda>w.
     let w1 = w\<lparr>nmFaults := tl (nmFaults w)\<rparr>
     in if nmFaults w \<noteq> [] \<and> hd (nmFaults w) then (Some (Err ''unavailable''), w1) else f w1)"

definition nm_broker :: "notifier_mem Broker" where
  "nm_broker ex rk doc = nm_call (\<lambda>w. (None, w\<lparr>nmPublished := nmPublished w @ [(ex, rk, json_print doc)]\<rparr>))"

text \<open>The calls of a database that is \<open>up\<close> do not fail.\<close>

definition nm_db_call :: "bool \<Rightarrow> (notifier_mem \<Rightarrow> goerror option \<times> notifier_mem) \<Rightarrow> (notifier_mem, goerror option) state" where
  "nm_db_call up f = (if up then State f else nm_call f)"

definition nm_redis :: "bool \<Rightarrow> notifier_mem redis_client" where
  "nm_redis up =
     \<lparr>redisSetNX = (\<lambda>key v ttl. nm_db_call up (\<lambda>w.
        if nmLive w key = None then (None, w\<lparr>nmLive := (nmLive w)(key \<mapsto> v)\<rparr>) else (Some RedisNil, w))),
      redisDel = (\<lambda>key. nm_db_call up (\<lambda>w. (None, w\<lparr>nmLive := (nmLive w)(key := None)\<rparr>))),
      redisGet = (\<lambda>key. State (\<lambda>w. (case nmLive w key of None \<Rightarrow> Inl RedisNil | Some v \<Rightarrow> Inr v, w))),
      redisSet = (\<lambda>key v ttl. nm_db_call up (\<lambda>w. (None, w\<lparr>nmLive := (nmLive w)(key \<mapsto> v)\<rparr>)))\<rparr>"

definition nm_view :: "notifier_mem \<Rightarrow> observed" where
  "nm_view w = \<lparr>repositories = [], subscriptions = [], sagas = [], outbox_rows = [],
     published = nmPublished w, counted = []\<rparr>"

interpretation nm: notifier_amqp nm_broker nm_view "nm_redis up" nmLive for up
  by unfold_locales
    (auto simp: nm_broker_def nm_redis_def nm_view_def nm_db_call_def nm_call_def Let_def split: if_splits option.splits)

definition nm_notifier :: "bool \<Rightarrow> notifier_mem Notifier" where
  "nm_notifier up = NewNotifier (command_Publish nm_broker) (NewDedup (nm_redis up) 86400000000000)"

lemma nm_world: "notifier_world (nm_notifier up) (\<lambda>w. dom (nmLive w)) (\<lambda>w. published (nm_view w)) command_message"
  unfolding nm_notifier_def by (rule nm.wired.notifier_world_axioms)

definition sample_event :: string where
  "sample_event = json_print (marshal_Envelope
     \<lparr>EnvID = ''e1'', EnvType = TypeRepositoryMoved, OccurredAt = ''2026-01-31T23:59:59.5Z'', Version = 1,
      EnvPayload = Some (marshal_RepositoryMoved \<lparr>rmEmail = ''a@b.c'', rmRepo = ''o/r''\<rparr>)\<rparr>)"

definition sample_command :: DeliveryMessage where
  "sample_command = \<lparr>dmEvent = EventRepoMoved, dmEmail = ''a@b.c'', dmRepo = ''o/r'', dmRelease = '''', dmPayload = []\<rparr>"

lemma sample_event_command: "event_command sample_event = Inr (''processed:e1'', sample_command)"
proof -
  have "valid_rfc3339 ''2026-01-31T23:59:59.5Z''"
    using counter_clock by (simp add: counter_services_def)
  then show ?thesis
    by (simp add: event_command_def sample_event_def unmarshal_marshal_Envelope int64_in_range_def
        toCommand_def event_types decode_marshal(2) dedupKeyPrefix_def sample_command_def)
qed

definition nm_start :: "bool list \<Rightarrow> notifier_mem" where
  "nm_start fs = \<lparr>nmLive = Map.empty, nmPublished = [], nmFaults = fs\<rparr>"

lemmas nm_run = nm_notifier_def NewNotifier_def NewDedup_def nm_redis_def nm_broker_def nm_db_call_def nm_call_def
  dedup_MarkProcessed_def dedup_Unmark_def command_Publish_def command_message_def nm_start_def
  notifier_decision_def send_decision_def sample_event_command

theorem notifier_acks_only_sent_witness:
  "published (nm_view (snd (run (notifier_decision (nm_notifier False) sample_event) (nm_start []))))
     = [command_message sample_command]"
proof -
  have "fst (run (notifier_decision (nm_notifier False) sample_event) (nm_start [])) = ActAck"
    by (simp add: nm_run)
  then show ?thesis
    using notifier_acks_only_sent[OF nm_world surjective_pairing, of False sample_event "nm_start []"]
    by (simp add: sample_event_command nm_start_def nm_view_def)
qed

theorem redelivered_event_sent_once_witness:
  "published (nm_view (snd (run (decide_all (nm_notifier False) [sample_event, sample_event])
      (nm_start [False, True])))) \<in> {[], [command_message sample_command]}"
  using redelivered_event_sent_once[OF nm_world surjective_pairing, of "[sample_event, sample_event]"
      "''processed:e1''" sample_command False "nm_start [False, True]"]
  by (simp add: sample_event_command nm_start_def nm_view_def)

lemma nm_up_rolls_back: "keys_roll_back (nDedup (nm_notifier True)) (\<lambda>w. dom (nmLive w)) key"
  by (auto simp: keys_roll_back_def nm_run split: if_splits)

theorem acked_event_was_sent_witness:
  "published (nm_view (snd (run (decide_all (nm_notifier True) [sample_event, sample_event, sample_event])
      (nm_start [True])))) = [command_message sample_command]"
proof -
  have "ActAck \<in> set (fst (run (decide_all (nm_notifier True) [sample_event, sample_event, sample_event])
      (nm_start [True])))"
    by (simp add: nm_run)
  then show ?thesis
    using acked_event_was_sent[OF nm_world nm_up_rolls_back surjective_pairing, of
        "[sample_event, sample_event, sample_event]" "''processed:e1''" sample_command "nm_start [True]"]
    by (simp add: sample_event_command nm_start_def nm_view_def)
qed

theorem failed_rollback_loses_event_witness:
  "published (nm_view (snd (run (decide_all (nm_notifier False) (replicate 5 sample_event))
      (snd (run (notifier_decision (nm_notifier False) sample_event) (nm_start [False, True, True])))))) = []"
proof -
  have "run (notifier_decision (nm_notifier False) sample_event) (nm_start [False, True, True])
      = (ActRetry ''publish command: unavailable'',
         \<lparr>nmLive = [''processed:e1'' \<mapsto> ''1''], nmPublished = [], nmFaults = []\<rparr>)"
    by (simp add: nm_run)
  then show ?thesis
    using failed_rollback_loses_event[OF nm_world sample_event_command _ _ surjective_pairing, of False
        "nm_start [False, True, True]" "''publish command: unavailable''"
        "\<lparr>nmLive = [''processed:e1'' \<mapsto> ''1''], nmPublished = [], nmFaults = []\<rparr>" 5]
    by (simp add: nm_view_def nm_start_def)
qed

end
