(* ===== verification/Mailer.thy ===== *)
theory Mailer
  imports Publisher
begin

text \<open>
  \<open>internal/worker/mailer\<close> and \<open>internal/infra/smtp/client.go\<close>: an email command is turned into
  an email and sent with a bounded number of attempts; a verification email's outcome is
  reported to the onboarding saga. The locale \<open>mailer_world\<close> is the contract of the services the
  mailer calls, met by the SMTP client and the result publisher. The theorems: every command is
  settled exactly once, the number of attempts and the time waited between them are bounded,
  and an ack, a retry and a dead letter mean what they should.
\<close>

section \<open>The mailer\<close>

definition maxSMTPRetries :: int where "maxSMTPRetries = 5"

definition maxResultReportRetries :: int where "maxResultReportRetries = 3"

definition OutcomeDelivered :: string where "OutcomeDelivered = ''delivered''"
definition OutcomeFailed :: string where "OutcomeFailed = ''failed''"
definition OutcomePoison :: string where "OutcomePoison = ''poison''"

lemmas outcomes = OutcomeDelivered_def OutcomeFailed_def OutcomePoison_def

text \<open>\<open>errors.Is(err, ErrUnknownEmailType)\<close>.\<close>

definition is_unknown_type :: "goerror \<Rightarrow> bool" where
  "is_unknown_type e = (case e of ErrUnknownEmailType _ \<Rightarrow> True | _ \<Rightarrow> False)"

definition DeliveryOutcome :: "goerror option \<Rightarrow> string" where
  "DeliveryOutcome err =
     (case err of
        None \<Rightarrow> OutcomeDelivered
      | Some e \<Rightarrow> if is_unknown_type e then OutcomePoison else OutcomeFailed)"

text \<open>\<open>EmailSender\<close>: recipient, subject and body.\<close>

type_synonym 'w EmailSender = "string \<Rightarrow> string \<Rightarrow> string \<Rightarrow> ('w, goerror option) state"

record 'w ResultPublisher =
  rpDelivered :: "string \<Rightarrow> ('w, goerror option) state"
  rpFailed :: "string \<Rightarrow> string \<Rightarrow> ('w, goerror option) state"

text \<open>Beside its fields the mailer reaches \<open>select { <-ctx.Done() ... <-time.After(d) }\<close>, which
  gives the context's error if that is done first, the metrics, and \<open>fmt.Sprintf("%v", x)\<close> for
  a payload value other than a string or nil.\<close>

record 'w Mailer =
  mSender :: "'w EmailSender"
  mResults :: "'w ResultPublisher option"
  mMaxRetries :: int
  mBaseBackoff :: int64
  mWait :: "int64 \<Rightarrow> ('w, goerror option) state"
  mObserve :: "string \<Rightarrow> string \<Rightarrow> ('w, unit) state"
  mFormat :: "json \<Rightarrow> string"

definition NewMailer ::
  "'w EmailSender \<Rightarrow> 'w ResultPublisher option \<Rightarrow> (int64 \<Rightarrow> ('w, goerror option) state)
     \<Rightarrow> (string \<Rightarrow> string \<Rightarrow> ('w, unit) state) \<Rightarrow> (json \<Rightarrow> string) \<Rightarrow> 'w Mailer" where
  "NewMailer sender results wait observe format =
     \<lparr>mSender = sender, mResults = results, mMaxRetries = maxSMTPRetries, mBaseBackoff = 1000000000,
      mWait = wait, mObserve = observe, mFormat = format\<rparr>"

section \<open>Emails\<close>

text \<open>\<open>msg.Payload["token"]\<close>: the last binding of the key counts, and a missing key is nil.\<close>

definition payload_value :: "DeliveryMessage \<Rightarrow> string \<Rightarrow> json option" where
  "payload_value msg k = map_of (rev (dmPayload msg)) k"

definition format_value :: "(json \<Rightarrow> string) \<Rightarrow> json option \<Rightarrow> string" where
  "format_value other v =
     (case v of
        None \<Rightarrow> ''<nil>''
      | Some JNull \<Rightarrow> ''<nil>''
      | Some (JStr s) \<Rightarrow> s
      | Some (JBool b) \<Rightarrow> (if b then ''true'' else ''false'')
      | Some j \<Rightarrow> other j)"

text \<open>Subject and body, or \<open>None\<close> for an unknown event.\<close>

definition buildEmail :: "(json \<Rightarrow> string) \<Rightarrow> DeliveryMessage \<Rightarrow> (string \<times> string) option" where
  "buildEmail other msg =
     (if dmEvent msg = EventNewRelease then
        Some (''New release for '' @ dmRepo msg @ '': '' @ dmRelease msg,
              ''A new release '' @ dmRelease msg @ '' is available for '' @ dmRepo msg @ ''.'')
      else if dmEvent msg = EventRepoMoved then
        Some (''Repository moved: '' @ dmRepo msg,
              ''The repository '' @ dmRepo msg @ '' has been moved or renamed.'')
      else if dmEvent msg = EventEmailVerification then
        Some (''Verify your email'',
              ''Your verification token is '' @ format_value other (payload_value msg ''token''))
      else None)"

definition verificationToken :: "DeliveryMessage \<Rightarrow> string" where
  "verificationToken msg = (case payload_value msg ''token'' of Some (JStr tok) \<Rightarrow> tok | _ \<Rightarrow> '''')"

section \<open>Attempts\<close>

text \<open>
  \<open>for attempt := range n { if err = act(); err == nil { return nil }; if attempt < n-1 { select
  ... } }; return err\<close>, with \<open>k = n - attempt\<close>: the loop of both \<open>sendWithRetry\<close> and
  \<open>reportWithRetry\<close>.
\<close>

fun attempt_loop ::
  "nat \<Rightarrow> int64 \<Rightarrow> goerror option \<Rightarrow> (int64 \<Rightarrow> ('w, goerror option) state) \<Rightarrow> ('w, goerror option) state
     \<Rightarrow> ('w, goerror option) state" where
  "attempt_loop 0 backoff err wait act = ret err"
| "attempt_loop (Suc k) backoff err wait act = do {
     err \<leftarrow> act;
     if err = None then ret None
     else if 0 < k then do {
       cancelled \<leftarrow> wait backoff;
       case cancelled of
         Some ctxErr \<Rightarrow> ret (Some ctxErr)
       | None \<Rightarrow> attempt_loop k (backoff * 2) err wait act }
     else attempt_loop k backoff err wait act }"

definition sendWithRetry :: "'w Mailer \<Rightarrow> string \<Rightarrow> string \<Rightarrow> string \<Rightarrow> ('w, goerror option) state" where
  "sendWithRetry m email subject body =
     attempt_loop (nat (mMaxRetries m)) (mBaseBackoff m) None (mWait m) (mSender m email subject body)"

definition reportWithRetry :: "'w Mailer \<Rightarrow> ('w, goerror option) state \<Rightarrow> ('w, goerror option) state" where
  "reportWithRetry m fn =
     attempt_loop (nat maxResultReportRetries) (mBaseBackoff m) None (mWait m) fn"

text \<open>The error of a report is only logged.\<close>

definition reportDelivered :: "'w Mailer \<Rightarrow> 'w ResultPublisher \<Rightarrow> DeliveryMessage \<Rightarrow> ('w, unit) state" where
  "reportDelivered m results msg = do {
     err \<leftarrow> reportWithRetry m (rpDelivered results (verificationToken msg));
     ret () }"

definition reportFailed ::
  "'w Mailer \<Rightarrow> 'w ResultPublisher \<Rightarrow> DeliveryMessage \<Rightarrow> goerror \<Rightarrow> ('w, unit) state" where
  "reportFailed m results msg cause = do {
     err \<leftarrow> reportWithRetry m (rpFailed results (verificationToken msg) (err_text cause));
     ret () }"

section \<open>Delivery\<close>

definition mailer_Deliver :: "'w Mailer \<Rightarrow> DeliveryMessage \<Rightarrow> ('w, goerror option) state" where
  "mailer_Deliver m msg =
     (case buildEmail (mFormat m) msg of
        None \<Rightarrow> ret (Some (ErrUnknownEmailType (quoted (dmEvent msg))))
      | Some (subject, body) \<Rightarrow> do {
          sendErr \<leftarrow> sendWithRetry m (dmEmail msg) subject body;
          case sendErr of
            Some err \<Rightarrow> do {
              (case mResults m of
                 Some results \<Rightarrow>
                   if dmEvent msg = EventEmailVerification then reportFailed m results msg err else ret ()
               | None \<Rightarrow> ret ());
              ret (Some err) }
          | None \<Rightarrow> do {
              (case mResults m of
                 Some results \<Rightarrow>
                   if dmEvent msg = EventEmailVerification then reportDelivered m results msg else ret ()
               | None \<Rightarrow> ret ());
              ret None } })"

definition TransportAMQP :: string where "TransportAMQP = ''amqp''"

definition mailer_process :: "'w Mailer \<Rightarrow> string \<Rightarrow> 'w Settler \<Rightarrow> ('w, unit) state" where
  "mailer_process m body s =
     (case unmarshal_DeliveryMessage body of
        Inl err \<Rightarrow> sDeadLetter s (''unmarshal command: '' @ err_text err)
      | Inr msg \<Rightarrow> do {
          err \<leftarrow> mailer_Deliver m msg;
          mObserve m TransportAMQP (DeliveryOutcome err);
          case err of
            None \<Rightarrow> sAck s
          | Some e \<Rightarrow>
              if is_unknown_type e then sDeadLetter s (err_text e)
              else if dmEvent msg = EventEmailVerification \<and> mResults m \<noteq> None then sAck s
              else sRetry s (''smtp send failed: '' @ err_text e) })"

definition mailer_Handler :: "'w Mailer \<Rightarrow> 'w DeliveryHandler" where
  "mailer_Handler m body s = mailer_process m body s"

section \<open>Every command is settled exactly once\<close>

definition mailer_decision :: "'w Mailer \<Rightarrow> string \<Rightarrow> ('w, settle_action) state" where
  "mailer_decision m body =
     (case unmarshal_DeliveryMessage body of
        Inl err \<Rightarrow> ret (ActDeadLetter (''unmarshal command: '' @ err_text err))
      | Inr msg \<Rightarrow> do {
          err \<leftarrow> mailer_Deliver m msg;
          mObserve m TransportAMQP (DeliveryOutcome err);
          ret (case err of
                 None \<Rightarrow> ActAck
               | Some e \<Rightarrow>
                   if is_unknown_type e then ActDeadLetter (err_text e)
                   else if dmEvent msg = EventEmailVerification \<and> mResults m \<noteq> None then ActAck
                   else ActRetry (''smtp send failed: '' @ err_text e)) })"

text \<open>
  Whatever the body and the services do, the mailer settles a command exactly once, as the
  last thing it does: its handler is its decision, which never calls the settler, followed by
  the one call that the decision names.
\<close>

theorem mailer_settles_once:
  "mailer_Handler m body s = do { a \<leftarrow> mailer_decision m body; settle_with s a }"
  by (rule state_ext)
     (auto simp: mailer_Handler_def mailer_process_def mailer_decision_def
        split: sum.splits prod.splits option.splits)

section \<open>The history of a mailer\<close>

text \<open>What the mailer asks of its services, with the answers.\<close>

datatype report = ReportDelivered string | ReportFailed string string

datatype mail_event =
    EvSent string string string "goerror option"
  | EvReported report "goerror option"
  | EvWaited int64 "goerror option"
  | EvObserved string string

text \<open>The services of a mailer keep a history \<open>tr\<close>: every call adds itself.\<close>

locale mailer_world =
  fixes m :: "'w Mailer" and tr :: "'w \<Rightarrow> mail_event list"
  assumes send_tr: "\<And>to sub body w r w'. run (mSender m to sub body) w = (r, w') \<Longrightarrow>
      tr w' = tr w @ [EvSent to sub body r]"
    and wait_tr: "\<And>d w r w'. run (mWait m d) w = (r, w') \<Longrightarrow> tr w' = tr w @ [EvWaited d r]"
    and observe_tr: "\<And>t out w r w'. run (mObserve m t out) w = (r, w') \<Longrightarrow>
      tr w' = tr w @ [EvObserved t out]"
    and delivered_tr: "\<And>results tok w r w'. mResults m = Some results \<Longrightarrow>
      run (rpDelivered results tok) w = (r, w') \<Longrightarrow> tr w' = tr w @ [EvReported (ReportDelivered tok) r]"
    and failed_tr: "\<And>results tok why w r w'. mResults m = Some results \<Longrightarrow>
      run (rpFailed results tok why) w = (r, w') \<Longrightarrow> tr w' = tr w @ [EvReported (ReportFailed tok why) r]"

text \<open>Any mailer can be watched: its services record their calls beside the world.\<close>

definition recording :: "('a \<Rightarrow> mail_event) \<Rightarrow> ('w, 'a) state \<Rightarrow> ('w \<times> mail_event list, 'a) state" where
  "recording ev c = State (\<lambda>(w, es). case run c w of (r, w') \<Rightarrow> (r, (w', es @ [ev r])))"

definition watched :: "'w Mailer \<Rightarrow> ('w \<times> mail_event list) Mailer" where
  "watched m =
     \<lparr>mSender = (\<lambda>to sub body. recording (EvSent to sub body) (mSender m to sub body)),
      mResults = map_option (\<lambda>results.
        \<lparr>rpDelivered = (\<lambda>tok. recording (EvReported (ReportDelivered tok)) (rpDelivered results tok)),
         rpFailed = (\<lambda>tok why. recording (EvReported (ReportFailed tok why)) (rpFailed results tok why))\<rparr>)
        (mResults m),
      mMaxRetries = mMaxRetries m, mBaseBackoff = mBaseBackoff m,
      mWait = (\<lambda>d. recording (EvWaited d) (mWait m d)),
      mObserve = (\<lambda>t out. recording (\<lambda>_. EvObserved t out) (mObserve m t out)),
      mFormat = mFormat m\<rparr>"

interpretation watching: mailer_world "watched m" snd for m :: "'w Mailer"
  by unfold_locales (auto simp: watched_def recording_def split: prod.splits)

text \<open>Watching changes nothing.\<close>

definition mirrors :: "('w \<times> mail_event list, 'a) state \<Rightarrow> ('w, 'a) state \<Rightarrow> bool" where
  "mirrors c' c \<longleftrightarrow> (\<forall>w es. \<exists>es'. run c' (w, es) = (fst (run c w), (snd (run c w), es')))"

lemma mirrors_ret: "mirrors (ret a) (ret a)"
  by (simp add: mirrors_def)

lemma mirrors_bind: "mirrors c' c \<Longrightarrow> (\<And>a. mirrors (f' a) (f a)) \<Longrightarrow> mirrors (State_Monad.bind c' f') (State_Monad.bind c f)"
  unfolding mirrors_def by (simp add: split_beta) (metis fst_conv snd_conv)

lemma mirrors_recording: "mirrors (recording ev c) c"
  by (simp add: mirrors_def recording_def split: prod.splits)

lemmas mirroring = mirrors_ret mirrors_bind mirrors_recording

lemma mirrors_loop:
  assumes "\<And>d. mirrors (wait' d) (wait d)" and "mirrors act' act"
  shows "mirrors (attempt_loop k b err wait' act') (attempt_loop k b err wait act)"
  by (induction k arbitrary: b err) (auto intro!: mirroring assms split: option.split)

lemma mirrors_Deliver: "mirrors (mailer_Deliver (watched m) msg) (mailer_Deliver m msg)"
  by (auto simp: mailer_Deliver_def watched_def sendWithRetry_def reportFailed_def reportDelivered_def
      reportWithRetry_def intro!: mirroring mirrors_loop split: option.split)

lemma mirrors_decision: "mirrors (mailer_decision (watched m) body) (mailer_decision m body)"
proof -
  have "mirrors (mObserve (watched m) t out) (mObserve m t out)" for t out
    by (simp add: watched_def mirrors_recording)
  moreover have res: "mResults (watched m) = None \<longleftrightarrow> mResults m = None" by (simp add: watched_def)
  ultimately show ?thesis
    unfolding mailer_decision_def res
    by (auto intro!: mirrors_ret mirrors_bind mirrors_Deliver split: sum.split)
qed

section \<open>A bounded series of attempts\<close>

text \<open>Failed attempts with the waits after them, from the wait \<open>b\<close> on.\<close>

fun failed_attempts :: "(goerror option \<Rightarrow> mail_event) \<Rightarrow> int64 \<Rightarrow> goerror list \<Rightarrow> mail_event list" where
  "failed_attempts ev b [] = []"
| "failed_attempts ev b (e # fs) = ev (Some e) # EvWaited b None # failed_attempts ev (b * 2) fs"

text \<open>The series of at most \<open>n\<close> attempts with result \<open>r\<close>: a success, the error of the last
  attempt, or that of the context.\<close>

definition attempts_of ::
  "(goerror option \<Rightarrow> mail_event) \<Rightarrow> nat \<Rightarrow> int64 \<Rightarrow> goerror option \<Rightarrow> mail_event list \<Rightarrow> bool" where
  "attempts_of ev n b r es \<longleftrightarrow> (\<exists>fs. length fs < n
     \<and> (r = None \<and> es = failed_attempts ev b fs @ [ev None]
        \<or> (\<exists>e. Suc (length fs) = n \<and> r = Some e \<and> es = failed_attempts ev b fs @ [ev (Some e)])
        \<or> (\<exists>e c. Suc (length fs) < n \<and> r = Some c
             \<and> es = failed_attempts ev b fs @ [ev (Some e), EvWaited (b * 2 ^ length fs) (Some c)])))"

lemma attempts_of_retry:
  "attempts_of ev n (b * 2) r es \<Longrightarrow> attempts_of ev (Suc n) b r (ev (Some e) # EvWaited b None # es)"
  unfolding attempts_of_def
  by (elim exE conjE, rule_tac x = "e # fs" in exI) (auto simp: ac_simps)

lemma attempt_loop_tr:
  assumes act: "\<And>w r w'. run act w = (r, w') \<Longrightarrow> tr w' = tr w @ [ev r]"
    and wait: "\<And>d w r w'. run (wait d) w = (r, w') \<Longrightarrow> tr w' = tr w @ [EvWaited d r]"
    and "run (attempt_loop (Suc k) b err wait act) w = (r, w')"
  shows "\<exists>es. tr w' = tr w @ es \<and> attempts_of ev (Suc k) b r es"
  using assms(3)
proof (induction k arbitrary: b err w)
  case 0
  obtain a w1 where 1: "run act w = (a, w1)" by (rule prod.exhaust)
  show ?case
    using 0 1 act[OF 1]
    by (cases a) (auto simp: attempts_of_def intro!: exI[of _ "[]"])
next
  case (Suc k)
  obtain a w1 where 1: "run act w = (a, w1)" by (rule prod.exhaust)
  obtain c w2 where 2: "run (wait b) w1 = (c, w2)" by (rule prod.exhaust)
  note t = act[OF 1] wait[OF 2]
  show ?case
  proof (cases a)
    case None
    then show ?thesis using Suc.prems 1 t by (auto simp: attempts_of_def intro!: exI[of _ "[]"])
  next
    case (Some e)
    show ?thesis
    proof (cases c)
      case None
      then have "run (attempt_loop (Suc k) (b * 2) (Some e) wait act) w2 = (r, w')"
        using Suc.prems 1 2 Some by simp
      from Suc.IH[OF this] obtain es where "tr w' = tr w2 @ es" "attempts_of ev (Suc k) (b * 2) r es" by blast
      then show ?thesis using t Some None attempts_of_retry by fastforce
    next
      case (Some c)
      then show ?thesis
        using Suc.prems 1 2 t \<open>a = Some e\<close>
        by (auto simp: attempts_of_def intro!: exI[of _ "[]"])
    qed
  qed
qed

text \<open>What the attempts and the waits keep, a series keeps.\<close>

lemma attempt_loop_inv:
  assumes act: "\<And>w r w'. P w \<Longrightarrow> run act w = (r, w') \<Longrightarrow> P w'"
    and wait: "\<And>d w r w'. P w \<Longrightarrow> run (wait d) w = (r, w') \<Longrightarrow> P w'"
    and "P w" and "run (attempt_loop k b err wait act) w = (r, w')"
  shows "P w'"
  using assms(3,4)
proof (induction k arbitrary: b err w)
  case (Suc k)
  obtain a w1 where 1: "run act w = (a, w1)" by (rule prod.exhaust)
  obtain c w2 where 2: "run (wait b) w1 = (c, w2)" by (rule prod.exhaust)
  note keep = act[OF Suc.prems(1) 1] wait[OF act[OF Suc.prems(1) 1] 2]
  show ?case
  proof (cases "a = None \<or> c \<noteq> None \<and> 0 < k")
    case True
    then show ?thesis using Suc.prems(2) 1 2 keep by (auto split: if_splits)
  next
    case False
    then have "run (attempt_loop k (if 0 < k then b * 2 else b) a wait act) (if 0 < k then w2 else w1) = (r, w')"
      using Suc.prems(2) 1 2 by auto
    moreover have "P (if 0 < k then w2 else w1)" using keep by simp
    ultimately show ?thesis using Suc.IH by blast
  qed
qed simp

text \<open>The number of attempts and the time waited in a series.\<close>

fun waited :: "mail_event \<Rightarrow> int" where
  "waited (EvWaited d _) = sint d"
| "waited _ = 0"

fun is_wait :: "mail_event \<Rightarrow> bool" where
  "is_wait (EvWaited _ _) = True"
| "is_wait _ = False"

lemma failed_attempts_count:
  assumes "\<And>r. \<not> is_wait (ev r)"
  shows "length (filter (\<lambda>e. \<not> is_wait e) (failed_attempts ev b fs)) = length fs"
  using assms by (induction fs arbitrary: b) auto

lemma attempts_of_count:
  assumes "attempts_of ev n b r es" and "\<And>r. \<not> is_wait (ev r)"
  shows "length (filter (\<lambda>e. \<not> is_wait e) es) \<le> n"
  using assms failed_attempts_count[of ev] by (auto simp: attempts_of_def)

lemma failed_attempts_wait:
  assumes "\<And>r. waited (ev r) = 0" and "0 \<le> k" and "k * 2 ^ length fs < 2 ^ 63"
  shows "sum_list (map waited (failed_attempts ev (word_of_int k) fs)) = k * (2 ^ length fs - 1)"
  using assms(2,3)
proof (induction fs arbitrary: k)
  case (Cons f fs)
  have "k * 1 \<le> k * (2 ^ length (f # fs))"
    using one_le_power[of "2 :: int" "length (f # fs)"] Cons.prems(1) by (intro mult_left_mono) simp_all
  then have "sint (word_of_int k :: int64) = k"
    using Cons.prems by (intro sint_word_of_int64) (auto simp: int64_in_range_def)
  moreover have "(word_of_int k :: int64) * 2 = word_of_int (2 * k)" by (simp add: mult.commute)
  ultimately show ?case
    using Cons.IH[of "2 * k"] Cons.prems assms(1) by (simp add: algebra_simps)
qed simp

lemma attempts_of_wait:
  assumes "attempts_of ev n (word_of_int k) r es" and ev: "\<And>r. waited (ev r) = 0"
    and k: "0 \<le> k" "k * 2 ^ n < 2 ^ 63" and "0 < n"
  shows "sum_list (map waited es) \<le> k * (2 ^ (n - 1) - 1)"
proof -
  have small: "k * 2 ^ i < 2 ^ 63" if "i \<le> n" for i
    using mult_left_mono[OF power_increasing[OF that, of "2 :: int"] k(1)] k by simp
  have mono: "k * (2 ^ i - 1) \<le> k * (2 ^ j - 1)" if "i \<le> j" for i j :: nat
    using mult_left_mono[OF power_increasing[OF that, of "2 :: int"] k(1)] by (simp add: algebra_simps)
  from assms(1) obtain fs where fs: "length fs < n"
    and es: "(\<exists>r. es = failed_attempts ev (word_of_int k) fs @ [ev r])
      \<or> Suc (length fs) < n \<and> (\<exists>e c. es = failed_attempts ev (word_of_int k) fs
          @ [ev (Some e), EvWaited (word_of_int k * 2 ^ length fs) (Some c)])"
    unfolding attempts_of_def by blast
  have sum: "sum_list (map waited (failed_attempts ev (word_of_int k) fs)) = k * (2 ^ length fs - 1)"
    by (rule failed_attempts_wait[OF ev k(1)]) (use small fs in simp)
  from es show ?thesis
  proof (elim disjE exE conjE)
    fix r assume "es = failed_attempts ev (word_of_int k) fs @ [ev r]"
    then show ?thesis using sum ev mono[of "length fs" "n - 1"] fs by simp
  next
    fix e c assume len: "Suc (length fs) < n"
      and es: "es = failed_attempts ev (word_of_int k) fs
        @ [ev (Some e), EvWaited (word_of_int k * 2 ^ length fs) (Some c)]"
    have "(word_of_int k :: int64) * 2 ^ length fs = word_of_int (k * 2 ^ length fs)" by simp
    moreover have "0 \<le> k * 2 ^ length fs" using k(1) by simp
    ultimately have "sint ((word_of_int k :: int64) * 2 ^ length fs) = k * 2 ^ length fs"
      using sint_word_of_int64[of "k * 2 ^ length fs"] small[of "length fs"] fs
      by (simp add: int64_in_range_def)
    then have "sum_list (map waited es) = k * (2 ^ Suc (length fs) - 1)"
      using sum ev by (simp add: es algebra_simps)
    then show ?thesis using mono[of "Suc (length fs)" "n - 1"] len by simp
  qed
qed

section \<open>The history of a delivery\<close>

text \<open>The report that follows a send with result \<open>r\<close>, and the whole history of a delivery.\<close>

definition outcome_report :: "DeliveryMessage \<Rightarrow> goerror option \<Rightarrow> report" where
  "outcome_report msg r =
     (case r of
        None \<Rightarrow> ReportDelivered (verificationToken msg)
      | Some e \<Rightarrow> ReportFailed (verificationToken msg) (err_text e))"

definition reporting :: "'w Mailer \<Rightarrow> DeliveryMessage \<Rightarrow> bool" where
  "reporting m msg \<longleftrightarrow> dmEvent msg = EventEmailVerification \<and> mResults m \<noteq> None"

definition delivery_history :: "'w Mailer \<Rightarrow> DeliveryMessage \<Rightarrow> goerror option \<Rightarrow> mail_event list \<Rightarrow> bool" where
  "delivery_history m msg r es \<longleftrightarrow>
     (case buildEmail (mFormat m) msg of
        None \<Rightarrow> r = Some (ErrUnknownEmailType (quoted (dmEvent msg))) \<and> es = []
      | Some (sub, body) \<Rightarrow> \<exists>ss rs rr. es = ss @ rs
          \<and> attempts_of (EvSent (dmEmail msg) sub body) (nat (mMaxRetries m)) (mBaseBackoff m) r ss
          \<and> (if reporting m msg
             then attempts_of (EvReported (outcome_report msg r)) (nat maxResultReportRetries) (mBaseBackoff m) rr rs
             else rs = []))"

lemma delivery_historyI:
  assumes "buildEmail (mFormat m) msg = Some (sub, body)"
    and "attempts_of (EvSent (dmEmail msg) sub body) (nat (mMaxRetries m)) (mBaseBackoff m) r ss"
    and "if reporting m msg
      then attempts_of (EvReported (outcome_report msg r)) (nat maxResultReportRetries) (mBaseBackoff m) rr rs
      else rs = []"
  shows "delivery_history m msg r (ss @ rs)"
  unfolding delivery_history_def assms(1) option.case prod.case using assms(2,3) by blast

lemma delivery_historyE:
  assumes "delivery_history m msg r es" and "buildEmail (mFormat m) msg = Some (sub, body)"
  obtains ss rs rr where "es = ss @ rs"
    and "attempts_of (EvSent (dmEmail msg) sub body) (nat (mMaxRetries m)) (mBaseBackoff m) r ss"
    and "if reporting m msg
      then attempts_of (EvReported (outcome_report msg r)) (nat maxResultReportRetries) (mBaseBackoff m) rr rs
      else rs = []"
  using assms(1) unfolding delivery_history_def assms(2) option.case prod.case by blast

context mailer_world begin

lemma send_history:
  assumes "0 < mMaxRetries m" and "run (sendWithRetry m to sub body) w = (r, w')"
  shows "\<exists>es. tr w' = tr w @ es \<and> attempts_of (EvSent to sub body) (nat (mMaxRetries m)) (mBaseBackoff m) r es"
proof -
  obtain k where k: "nat (mMaxRetries m) = Suc k" using assms(1) by (cases "nat (mMaxRetries m)") auto
  show ?thesis
    using attempt_loop_tr[of "mSender m to sub body" tr "EvSent to sub body" "mWait m", OF send_tr wait_tr] assms(2)
    unfolding sendWithRetry_def k by blast
qed

lemma report_history:
  assumes "\<And>w r w'. run fn w = (r, w') \<Longrightarrow> tr w' = tr w @ [EvReported rep r]"
    and "run (reportWithRetry m fn) w = (r, w')"
  shows "\<exists>es. tr w' = tr w @ es \<and> attempts_of (EvReported rep) (nat maxResultReportRetries) (mBaseBackoff m) r es"
proof -
  have k: "nat maxResultReportRetries = Suc 2" by (simp add: maxResultReportRetries_def)
  show ?thesis
    using attempt_loop_tr[of fn tr "EvReported rep" "mWait m", OF assms(1) wait_tr] assms(2)
    unfolding reportWithRetry_def k by blast
qed

lemma delivered_history:
  assumes "mResults m = Some results" and "run (reportDelivered m results msg) w = (u, w')"
  shows "\<exists>es rr. tr w' = tr w @ es \<and> attempts_of (EvReported (ReportDelivered (verificationToken msg)))
    (nat maxResultReportRetries) (mBaseBackoff m) rr es"
  using assms(2) report_history[of "rpDelivered results (verificationToken msg)", OF delivered_tr[OF assms(1)]]
  unfolding reportDelivered_def by (fastforce split: prod.splits)

lemma failed_history:
  assumes "mResults m = Some results" and "run (reportFailed m results msg e) w = (u, w')"
  shows "\<exists>es rr. tr w' = tr w @ es \<and> attempts_of (EvReported (ReportFailed (verificationToken msg) (err_text e)))
    (nat maxResultReportRetries) (mBaseBackoff m) rr es"
  using assms(2) report_history[of "rpFailed results (verificationToken msg) (err_text e)", OF failed_tr[OF assms(1)]]
  unfolding reportFailed_def by (fastforce split: prod.splits)

lemma Deliver_history:
  assumes "0 < mMaxRetries m" and run: "run (mailer_Deliver m msg) w = (r, w')"
  shows "\<exists>es. tr w' = tr w @ es \<and> delivery_history m msg r es"
proof (cases "buildEmail (mFormat m) msg")
  case None
  then show ?thesis using run by (simp add: mailer_Deliver_def delivery_history_def)
next
  case (Some mail)
  obtain sub body where mail: "mail = (sub, body)" by (rule prod.exhaust)
  obtain s w1 where 1: "run (sendWithRetry m (dmEmail msg) sub body) w = (s, w1)" by (rule prod.exhaust)
  from send_history[OF assms(1) 1] obtain ss where ss: "tr w1 = tr w @ ss"
    "attempts_of (EvSent (dmEmail msg) sub body) (nat (mMaxRetries m)) (mBaseBackoff m) s ss" by blast
  have rest: "r = s \<and> (\<exists>rs rr. tr w' = tr w1 @ rs \<and> (if reporting m msg
      then attempts_of (EvReported (outcome_report msg s)) (nat maxResultReportRetries) (mBaseBackoff m) rr rs
      else rs = []))"
  proof (cases "reporting m msg")
    case False
    then show ?thesis
      using run Some mail 1 by (auto simp: mailer_Deliver_def reporting_def split: option.splits)
  next
    case True
    then obtain results where res: "mResults m = Some results" "dmEvent msg = EventEmailVerification"
      by (auto simp: reporting_def)
    show ?thesis
    proof (cases s)
      case None
      obtain u w2 where 2: "run (reportDelivered m results msg) w1 = (u, w2)" by (rule prod.exhaust)
      show ?thesis
        using run Some mail 1 2 res None True delivered_history[OF res(1) 2]
        by (auto simp: mailer_Deliver_def outcome_report_def)
    next
      case (Some e)
      obtain u w2 where 2: "run (reportFailed m results msg e) w1 = (u, w2)" by (rule prod.exhaust)
      show ?thesis
        using run \<open>buildEmail _ _ = _\<close> mail 1 2 res Some True failed_history[OF res(1) 2]
        by (auto simp: mailer_Deliver_def outcome_report_def)
    qed
  qed
  then obtain rs rr where "r = s" and rs: "tr w' = tr w1 @ rs" and "if reporting m msg
      then attempts_of (EvReported (outcome_report msg s)) (nat maxResultReportRetries) (mBaseBackoff m) rr rs
      else rs = []" by blast
  then have "delivery_history m msg r (ss @ rs)"
    using ss(2) Some mail delivery_historyI by blast
  then show ?thesis using rs ss by (intro exI[of _ "ss @ rs"]) simp
qed

end

text \<open>The kinds of events, and what a series of attempts may hold.\<close>

fun is_send :: "mail_event \<Rightarrow> bool" where
  "is_send (EvSent _ _ _ _) = True"
| "is_send _ = False"

fun is_report :: "mail_event \<Rightarrow> bool" where
  "is_report (EvReported _ _) = True"
| "is_report _ = False"

lemma failed_attempts_mem:
  "x \<in> set (failed_attempts ev b fs) \<Longrightarrow> (\<exists>e. x = ev (Some e)) \<or> (\<exists>d. x = EvWaited d None)"
  by (induction fs arbitrary: b) auto

lemma attempts_of_mem:
  assumes "attempts_of ev n b r es" and "x \<in> set es"
  shows "(\<exists>a. x = ev a) \<or> (\<exists>d c. x = EvWaited d c)"
  using assms failed_attempts_mem[of x ev b] unfolding attempts_of_def by fastforce

lemma attempts_of_success:
  assumes "attempts_of ev n b r es" and "\<And>a. \<not> is_wait (ev a)" and "inj ev"
  shows "ev None \<in> set es \<longleftrightarrow> r = None"
proof -
  have "ev None \<noteq> EvWaited d c" for d c using assms(2)[of None] by auto
  moreover have "ev None \<noteq> ev (Some e)" for e using injD[OF assms(3)] by blast
  ultimately show ?thesis
    using assms(1) failed_attempts_mem[of "ev None" ev b] unfolding attempts_of_def by fastforce
qed

lemma attempts_of_tried: "attempts_of ev n b r es \<Longrightarrow> \<exists>a. ev a \<in> set es"
  unfolding attempts_of_def by fastforce

text \<open>The numbers of a delivery with the mailer's constants.\<close>

lemma attempts_of_filter:
  assumes "attempts_of ev n b r es" and "\<And>a. \<not> P (ev a)" and "\<And>d c. \<not> P (EvWaited d c)"
  shows "filter P es = []"
  using attempts_of_mem[OF assms(1)] assms(2,3) by (fastforce simp: filter_empty_conv)

lemma filter_weaker: "(\<And>x. P x \<Longrightarrow> Q x) \<Longrightarrow> length (filter P xs) \<le> length (filter Q xs)"
  by (induction xs) auto

lemma delivery_numbers:
  assumes "delivery_history m msg r es" and "mMaxRetries m = 5" and "mBaseBackoff m = 1000000000"
  shows "length (filter is_send es) \<le> 5 \<and> length (filter is_report es) \<le> 3
    \<and> sum_list (map waited es) \<le> 18000000000"
proof (cases "buildEmail (mFormat m) msg")
  case None
  then show ?thesis using assms by (simp add: delivery_history_def)
next
  case (Some mail)
  then obtain sub body where mail: "buildEmail (mFormat m) msg = Some (sub, body)" by (cases mail) auto
  from assms(1) mail obtain ss rs rr where es: "es = ss @ rs"
    and s: "attempts_of (EvSent (dmEmail msg) sub body) (nat (mMaxRetries m)) (mBaseBackoff m) r ss"
    and t: "if reporting m msg
      then attempts_of (EvReported (outcome_report msg r)) (nat maxResultReportRetries) (mBaseBackoff m) rr rs
      else rs = []" by (rule delivery_historyE)
  have b: "mBaseBackoff m = word_of_int 1000000000" "nat (mMaxRetries m) = 5" "nat maxResultReportRetries = 3"
    using assms by (simp_all add: maxResultReportRetries_def)
  note s = s[unfolded b] and t = t[unfolded b]
  have "length (filter is_send ss) \<le> 5"
    using attempts_of_count[OF s] filter_weaker[of is_send "\<lambda>e. \<not> is_wait e" ss]
    by (fastforce elim: is_send.elims)
  moreover have "filter is_report ss = []" by (rule attempts_of_filter[OF s]) simp_all
  moreover have "sum_list (map waited ss) \<le> 1000000000 * (2 ^ (5 - 1) - 1)"
    by (rule attempts_of_wait[OF s]) simp_all
  moreover have "length (filter is_report rs) \<le> 3 \<and> filter is_send rs = []
      \<and> sum_list (map waited rs) \<le> 1000000000 * (2 ^ (3 - 1) - 1)"
  proof (cases "reporting m msg")
    case True
    with t have t: "attempts_of (EvReported (outcome_report msg r)) 3 (word_of_int 1000000000) rr rs" by simp
    have "length (filter is_report rs) \<le> 3"
      using attempts_of_count[OF t] filter_weaker[of is_report "\<lambda>e. \<not> is_wait e" rs]
      by (fastforce elim: is_report.elims)
    moreover have "filter is_send rs = []" by (rule attempts_of_filter[OF t]) simp_all
    moreover have "sum_list (map waited rs) \<le> 1000000000 * (2 ^ (3 - 1) - 1)"
      by (rule attempts_of_wait[OF t]) simp_all
    ultimately show ?thesis by simp
  qed (use t in simp)
  ultimately show ?thesis using es by simp
qed

text \<open>
  One delivery makes at most five SMTP attempts and at most three attempts to report the
  outcome, and waits at most eighteen seconds between them, whatever its services answer.
\<close>

theorem mailer_attempts_bounded:
  "let m = NewMailer sender results wait observe format in
   case run (mailer_Deliver (watched m) msg) (w, []) of (r, (w', es)) \<Rightarrow>
     run (mailer_Deliver m msg) w = (r, w')
   \<and> length (filter is_send es) \<le> 5 \<and> length (filter is_report es) \<le> 3
   \<and> sum_list (map waited es) \<le> 18000000000"
proof -
  let ?m = "NewMailer sender results wait observe format"
  obtain r w' es where run: "run (mailer_Deliver (watched ?m) msg) (w, []) = (r, (w', es))"
    by (metis prod.exhaust)
  have "0 < mMaxRetries (watched ?m)" by (simp add: watched_def NewMailer_def maxSMTPRetries_def)
  from watching.Deliver_history[OF this run] have "delivery_history (watched ?m) msg r es" by simp
  then have "length (filter is_send es) \<le> 5 \<and> length (filter is_report es) \<le> 3
      \<and> sum_list (map waited es) \<le> 18000000000"
    by (rule delivery_numbers) (simp_all add: watched_def NewMailer_def maxSMTPRetries_def)
  moreover have "run (mailer_Deliver ?m msg) w = (r, w')"
    using mirrors_Deliver[of ?m msg] run unfolding mirrors_def by (metis Pair_inject prod.collapse)
  ultimately show ?thesis using run by (simp add: Let_def)
qed

section \<open>What a settlement means\<close>

text \<open>Errors of the services are not the mailer's own \<open>ErrUnknownEmailType\<close>.\<close>

definition own_errors :: "('w, goerror option) state \<Rightarrow> bool" where
  "own_errors c \<longleftrightarrow> (\<forall>w e w'. run c w = (Some e, w') \<longrightarrow> \<not> is_unknown_type e)"

lemma own_errorsD: "own_errors c \<Longrightarrow> run c w = (Some e, w') \<Longrightarrow> \<not> is_unknown_type e"
  by (auto simp: own_errors_def)

lemma own_errors_recording: "own_errors c \<Longrightarrow> own_errors (recording ev c)"
  by (auto simp: own_errors_def recording_def split: prod.splits)

lemma is_unknown_type_simp [simp]: "is_unknown_type (ErrUnknownEmailType t)"
  by (simp add: is_unknown_type_def)

lemma own_errors_loop:
  assumes "own_errors act" and "\<And>d. own_errors (wait d)"
  shows "own_errors (attempt_loop (Suc k) b err wait act)"
  unfolding own_errors_def
proof (intro allI impI)
  fix w e w'
  show "run (attempt_loop (Suc k) b err wait act) w = (Some e, w') \<Longrightarrow> \<not> is_unknown_type e"
  proof (induction k arbitrary: b err w)
    case 0
    then show ?case by (auto split: prod.splits if_splits dest: own_errorsD[OF assms(1)])
  next
    case (Suc k)
    obtain a w1 where 1: "run act w = (a, w1)" by (rule prod.exhaust)
    obtain c w2 where 2: "run (wait b) w1 = (c, w2)" by (rule prod.exhaust)
    show ?case
    proof (cases a)
      case (Some e1)
      then show ?thesis
        using Suc.IH[of "b * 2" a w2] Suc.prems 1 2 own_errorsD[OF assms(2), of b w1 _ w2]
        by (cases c) auto
    qed (use Suc.prems 1 in simp)
  qed
qed

lemma Deliver_unknown:
  assumes "\<And>to sub body. own_errors (mSender m to sub body)" and "\<And>d. own_errors (mWait m d)"
    and "0 < mMaxRetries m" and "run (mailer_Deliver m msg) w = (Some e, w')"
  shows "is_unknown_type e \<longleftrightarrow> buildEmail (mFormat m) msg = None"
proof -
  obtain k where k: "nat (mMaxRetries m) = Suc k" using assms(3) by (cases "nat (mMaxRetries m)") auto
  have own: "own_errors (sendWithRetry m to sub body)" for to sub body
    unfolding sendWithRetry_def k by (rule own_errors_loop[OF assms(1,2)])
  show ?thesis
    using assms(4) by (auto simp: mailer_Deliver_def split: option.splits prod.splits dest: own_errorsD[OF own])
qed

definition verdict :: "'w Mailer \<Rightarrow> DeliveryMessage \<Rightarrow> string \<Rightarrow> string \<Rightarrow> settle_action \<Rightarrow> mail_event list \<Rightarrow> bool" where
  "verdict m msg sub body a es \<longleftrightarrow>
     (let accepted = (EvSent (dmEmail msg) sub body None \<in> set es) in
        (\<forall>to s b r. EvSent to s b r \<in> set es \<longrightarrow> to = dmEmail msg \<and> s = sub \<and> b = body)
      \<and> (if accepted \<or> reporting m msg then a = ActAck else \<exists>why. a = ActRetry why)
      \<and> EvObserved TransportAMQP (if accepted then OutcomeDelivered else OutcomeFailed) \<in> set es
      \<and> ((\<exists>rep r. EvReported rep r \<in> set es) \<longleftrightarrow> reporting m msg)
      \<and> (\<forall>rep r. EvReported rep r \<in> set es \<longrightarrow>
           (if accepted then rep = ReportDelivered (verificationToken msg)
            else \<exists>why. rep = ReportFailed (verificationToken msg) why)))"

lemma history_verdict:
  assumes hist: "delivery_history m msg r es" and mail: "buildEmail (mFormat m) msg = Some (sub, body)"
    and a: "a = (case r of None \<Rightarrow> ActAck | Some e \<Rightarrow> if reporting m msg then ActAck else ActRetry (f e))"
  shows "verdict m msg sub body a (es @ [EvObserved TransportAMQP (if r = None then OutcomeDelivered else OutcomeFailed)])"
proof -
  from hist mail obtain ss rs rr where es: "es = ss @ rs"
    and s: "attempts_of (EvSent (dmEmail msg) sub body) (nat (mMaxRetries m)) (mBaseBackoff m) r ss"
    and t: "if reporting m msg
      then attempts_of (EvReported (outcome_report msg r)) (nat maxResultReportRetries) (mBaseBackoff m) rr rs
      else rs = []" by (rule delivery_historyE)
  have sent: "to = dmEmail msg \<and> s' = sub \<and> b' = body" if "EvSent to s' b' r' \<in> set ss" for to s' b' r'
    using attempts_of_mem[OF s that] by auto
  have reported: "rep = outcome_report msg r" and reports: "reporting m msg" if "EvReported rep r' \<in> set rs" for rep r'
    using that t attempts_of_mem[of "EvReported (outcome_report msg r)" _ _ rr rs "EvReported rep r'"]
    by (auto split: if_splits)
  have tried: "\<exists>a. EvReported (outcome_report msg r) a \<in> set rs" if "reporting m msg"
    using that t attempts_of_tried[of "EvReported (outcome_report msg r)"] by auto
  have no_sent: "EvSent to s' b' r' \<notin> set rs" for to s' b' r'
    using t attempts_of_mem[of "EvReported (outcome_report msg r)" _ _ rr rs "EvSent to s' b' r'"]
    by (auto split: if_splits)
  have no_rep: "EvReported rep r' \<notin> set ss" for rep r'
    using attempts_of_mem[OF s] by auto
  have "EvSent (dmEmail msg) sub body None \<in> set ss \<longleftrightarrow> r = None"
    by (rule attempts_of_success[OF s]) (simp_all add: inj_def)
  then have acc: "EvSent (dmEmail msg) sub body None \<in> set es \<longleftrightarrow> r = None" using es no_sent by auto
  let ?es = "es @ [EvObserved TransportAMQP (if r = None then OutcomeDelivered else OutcomeFailed)]"
  have mem: "EvSent to s' b' r' \<in> set ?es \<longleftrightarrow> EvSent to s' b' r' \<in> set ss"
    "EvReported rep r' \<in> set ?es \<longleftrightarrow> EvReported rep r' \<in> set rs" for to s' b' r' rep
    using no_sent no_rep es by auto
  have acc': "EvSent (dmEmail msg) sub body None \<in> set ss \<longleftrightarrow> r = None" using acc es no_sent by auto
  show ?thesis
    unfolding verdict_def Let_def mem acc'
  proof (intro conjI)
    show "\<forall>to s b r. EvSent to s b r \<in> set ss \<longrightarrow> to = dmEmail msg \<and> s = sub \<and> b = body"
      using sent by blast
    show "if r = None \<or> reporting m msg then a = ActAck else \<exists>why. a = ActRetry why"
      using a by (cases r) auto
    show "EvObserved TransportAMQP (if r = None then OutcomeDelivered else OutcomeFailed) \<in> set ?es" by simp
    show "(\<exists>rep r. EvReported rep r \<in> set rs) \<longleftrightarrow> reporting m msg" using reports tried by blast
    show "\<forall>rep ra. EvReported rep ra \<in> set rs \<longrightarrow>
      (if r = None then rep = ReportDelivered (verificationToken msg)
       else \<exists>why. rep = ReportFailed (verificationToken msg) why)"
      using reported by (cases r) (auto simp: outcome_report_def)
  qed
qed

context mailer_world begin

lemma decision_verdict:
  assumes "\<And>to sub body. own_errors (mSender m to sub body)" and "\<And>d. own_errors (mWait m d)"
    and "0 < mMaxRetries m" and run: "run (mailer_decision m text) w = (a, w')" and "tr w = []"
    and msg: "unmarshal_DeliveryMessage text = Inr msg"
  shows "case buildEmail (mFormat m) msg of
      None \<Rightarrow> (\<exists>why. a = ActDeadLetter why) \<and> tr w' = [EvObserved TransportAMQP OutcomePoison]
    | Some (sub, body) \<Rightarrow> verdict m msg sub body a (tr w')"
proof -
  obtain r w1 where 1: "run (mailer_Deliver m msg) w = (r, w1)" by (rule prod.exhaust)
  obtain u w2 where 2: "run (mObserve m TransportAMQP (DeliveryOutcome r)) w1 = (u, w2)" by (rule prod.exhaust)
  from Deliver_history[OF assms(3) 1] assms(5) have hist: "delivery_history m msg r (tr w1)" by auto
  note unknown = Deliver_unknown[OF assms(1-3)]
  have w': "w' = w2" and a: "a = (case r of None \<Rightarrow> ActAck | Some e \<Rightarrow>
      if is_unknown_type e then ActDeadLetter (err_text e) else if reporting m msg then ActAck
      else ActRetry (''smtp send failed: '' @ err_text e))"
    using run 1 2 msg unfolding mailer_decision_def reporting_def by auto
  have tr: "tr w' = tr w1 @ [EvObserved TransportAMQP (DeliveryOutcome r)]"
    using observe_tr[OF 2] w' by simp
  show ?thesis
  proof (cases "buildEmail (mFormat m) msg")
    case None
    then show ?thesis
      using hist tr a by (auto simp: delivery_history_def DeliveryOutcome_def is_unknown_type_def)
  next
    case (Some mail)
    then obtain sub body where mail: "buildEmail (mFormat m) msg = Some (sub, body)" by (cases mail) auto
    have own: "\<not> is_unknown_type e" if "r = Some e" for e using unknown 1 that mail by simp
    then have "DeliveryOutcome r = (if r = None then OutcomeDelivered else OutcomeFailed)"
      by (auto simp: DeliveryOutcome_def split: option.splits)
    moreover have "a = (case r of None \<Rightarrow> ActAck
        | Some e \<Rightarrow> if reporting m msg then ActAck else ActRetry (''smtp send failed: '' @ err_text e))"
      using a own by (auto split: option.splits)
    ultimately show ?thesis using history_verdict[OF hist mail, of a] mail tr by simp
  qed
qed

end

text \<open>
  C14: The verdict on a command. Undecodable text and a command of an unknown type are dead-lettered
  with nothing sent. Otherwise only the command's own email is ever tried; the command is acked
  when the SMTP server accepted it, or when it is a verification whose failure goes to the
  saga, and retried in every other case; the metric counts what happened; and a verification's
  outcome, and no other, is reported, with the command's token and as what it was.
\<close>

theorem mailer_verdict:
  assumes "\<And>to sub body. own_errors (sender to sub body)" and "\<And>d. own_errors (wait d)"
  shows "let m = NewMailer sender results wait observe format in
    case run (mailer_decision (watched m) cmd) (w, []) of (a, (w', es)) \<Rightarrow>
      run (mailer_decision m cmd) w = (a, w')
    \<and> (case unmarshal_DeliveryMessage cmd of
         Inl _ \<Rightarrow> (\<exists>why. a = ActDeadLetter why) \<and> es = []
       | Inr msg \<Rightarrow>
           (case buildEmail format msg of
              None \<Rightarrow> (\<exists>why. a = ActDeadLetter why) \<and> es = [EvObserved TransportAMQP OutcomePoison]
            | Some (sub, body) \<Rightarrow> verdict m msg sub body a es))"
proof -
  let ?m = "NewMailer sender results wait observe format"
  obtain a w' es where run: "run (mailer_decision (watched ?m) cmd) (w, []) = (a, (w', es))"
    by (metis prod.exhaust)
  have own: "own_errors (mSender (watched ?m) to sub body)" "own_errors (mWait (watched ?m) d)" for to sub body d
    using assms by (simp_all add: watched_def NewMailer_def own_errors_recording)
  have max: "0 < mMaxRetries (watched ?m)" by (simp add: watched_def NewMailer_def maxSMTPRetries_def)
  have plain: "run (mailer_decision ?m cmd) w = (a, w')"
    using mirrors_decision[of ?m cmd] run unfolding mirrors_def by (metis Pair_inject prod.collapse)
  have same: "mFormat (watched ?m) = format" "verdict (watched ?m) = verdict ?m"
    by (auto simp: watched_def NewMailer_def verdict_def reporting_def fun_eq_iff Let_def)
  show ?thesis
  proof (cases "unmarshal_DeliveryMessage cmd")
    case (Inl e)
    then show ?thesis using run plain by (auto simp: mailer_decision_def)
  next
    case (Inr msg)
    from watching.decision_verdict[OF own max run _ Inr, unfolded same snd_conv] show ?thesis
      using run plain Inr by (simp add: Let_def)
  qed
qed

section \<open>The providers\<close>

text \<open>\<open>internal/infra/smtp/client.go\<close>. Of the mail library: parsing of addresses, the options of
  a client with its check, and \<open>DialAndSendWithContext\<close>.\<close>

record mail_message =
  mailFromAddr :: string
  mailToAddr :: string
  mailSubject :: string
  mailBody :: string

record mail_options =
  mailPort :: int
  mailUsername :: string
  mailPassword :: string
  mailTimeout :: int64
  mailSSL :: bool

record 'w mail_library =
  parseFrom :: "string \<Rightarrow> goerror + string"
  formatFrom :: "string \<Rightarrow> string \<Rightarrow> goerror + string"
  parseTo :: "string \<Rightarrow> goerror + string"
  mailNewClient :: "string \<Rightarrow> mail_options \<Rightarrow> goerror option"
  mailDialAndSend :: "string \<Rightarrow> mail_options \<Rightarrow> mail_message \<Rightarrow> ('w, goerror option) state"

record smtp_client =
  smtpHost :: string
  smtpPort :: int
  smtpUsername :: string
  smtpPassword :: string
  smtpFrom :: string
  smtpSenderEmail :: string

definition smtp_NewClient ::
  "string \<Rightarrow> int \<Rightarrow> string \<Rightarrow> string \<Rightarrow> string \<Rightarrow> string \<Rightarrow> smtp_client" where
  "smtp_NewClient host port username password from senderEmail =
     \<lparr>smtpHost = host, smtpPort = port, smtpUsername = username, smtpPassword = password,
      smtpFrom = from, smtpSenderEmail = senderEmail\<rparr>"

text \<open>The sender address: the configured one if it is a full address, else a name for the sender's
  email, else that email alone.\<close>

definition smtp_from :: "'w mail_library \<Rightarrow> smtp_client \<Rightarrow> goerror + string" where
  "smtp_from L c =
     (case parseFrom L (smtpFrom c) of
        Inr addr \<Rightarrow> Inr addr
      | Inl _ \<Rightarrow>
          (case formatFrom L (smtpFrom c) (smtpSenderEmail c) of
             Inr addr \<Rightarrow> Inr addr
           | Inl _ \<Rightarrow> parseFrom L (smtpSenderEmail c)))"

definition smtp_options :: "smtp_client \<Rightarrow> mail_options" where
  "smtp_options c =
     \<lparr>mailPort = smtpPort c, mailUsername = smtpUsername c, mailPassword = smtpPassword c,
      mailTimeout = 15 * 1000000000, mailSSL = (smtpPort c = 465)\<rparr>"

definition smtp_SendEmail :: "'w mail_library \<Rightarrow> smtp_client \<Rightarrow> 'w EmailSender" where
  "smtp_SendEmail L c to subject body =
     (case smtp_from L c of
        Inl err \<Rightarrow> ret (Some err)
      | Inr from \<Rightarrow>
          (case parseTo L to of
             Inl err \<Rightarrow> ret (Some err)
           | Inr rcpt \<Rightarrow>
               (case mailNewClient L (smtpHost c) (smtp_options c) of
                  Some err \<Rightarrow> ret (Some err)
                | None \<Rightarrow> mailDialAndSend L (smtpHost c) (smtp_options c)
                    \<lparr>mailFromAddr = from, mailToAddr = rcpt, mailSubject = subject, mailBody = body\<rparr>)))"

text \<open>\<open>resultPublisher\<close>: the result events over a broker.\<close>

definition result_VerificationDelivered ::
  "'w services \<Rightarrow> 'w Broker \<Rightarrow> string \<Rightarrow> ('w, goerror option) state" where
  "result_VerificationDelivered S B token = do {
     built \<leftarrow> NewVerificationDelivered S \<lparr>vdToken = token\<rparr>;
     case built of
       Inl err \<Rightarrow> ret (Some err)
     | Inr env \<Rightarrow> B EventsExchange RoutingKeyVerificationDelivered (marshal_Envelope env) }"

definition result_VerificationFailed ::
  "'w services \<Rightarrow> 'w Broker \<Rightarrow> string \<Rightarrow> string \<Rightarrow> ('w, goerror option) state" where
  "result_VerificationFailed S B token reason = do {
     built \<leftarrow> NewVerificationFailed S \<lparr>vfToken = token, vfReason = reason\<rparr>;
     case built of
       Inl err \<Rightarrow> ret (Some err)
     | Inr env \<Rightarrow> B EventsExchange RoutingKeyVerificationFailed (marshal_Envelope env) }"

definition NewResultPublisher :: "'w services \<Rightarrow> 'w Broker \<Rightarrow> 'w ResultPublisher" where
  "NewResultPublisher S B =
     \<lparr>rpDelivered = result_VerificationDelivered S B, rpFailed = result_VerificationFailed S B\<rparr>"

text \<open>The mailer as \<open>cmd/mailer\<close> wires it.\<close>

definition wired_mailer ::
  "'w mail_library \<Rightarrow> smtp_client \<Rightarrow> 'w services \<Rightarrow> 'w Broker \<Rightarrow> (int64 \<Rightarrow> ('w, goerror option) state)
     \<Rightarrow> (string \<Rightarrow> string \<Rightarrow> ('w, unit) state) \<Rightarrow> (json \<Rightarrow> string) \<Rightarrow> 'w Mailer" where
  "wired_mailer L c S B wait observe format =
     NewMailer (smtp_SendEmail L c) (Some (NewResultPublisher S B)) wait observe format"

section \<open>A mailer at work\<close>

text \<open>A mailer over a countdown: its sender fails until the count is zero.\<close>

definition countdown_sender :: "nat EmailSender" where
  "countdown_sender to sub body = State (\<lambda>n. if n = 0 then (None, 0) else (Some (Err ''450 busy''), n - 1))"

lemma countdown_errors: "own_errors (countdown_sender to sub body)" "own_errors (ret None)"
  by (auto simp: own_errors_def countdown_sender_def is_unknown_type_def)

definition verification_command :: DeliveryMessage where
  "verification_command = \<lparr>dmEvent = EventEmailVerification, dmEmail = ''a@b.c'', dmRepo = '''', dmRelease = '''',
     dmPayload = [(''token'', JStr ''t'')]\<rparr>"

theorem mailer_verdict_witness:
  "case run (mailer_decision (watched (NewMailer countdown_sender None (\<lambda>d. ret None) (\<lambda>t out. ret ()) (\<lambda>j. ''?'')))
      (json_print (marshal_DeliveryMessage verification_command))) (2, []) of (a, (n, es)) \<Rightarrow>
     verdict (NewMailer countdown_sender None (\<lambda>d. ret None) (\<lambda>t out. ret ()) (\<lambda>j. ''?'')) verification_command
       ''Verify your email'' ''Your verification token is t'' a es"
proof -
  have "unmarshal_DeliveryMessage (json_print (marshal_DeliveryMessage verification_command)) = Inr verification_command"
    by (rule command_roundtrip) (simp add: verification_command_def)
  moreover have "buildEmail (\<lambda>j. ''?'') verification_command = Some (''Verify your email'', ''Your verification token is t'')"
    by (simp add: buildEmail_def verification_command_def email_event_types payload_value_def format_value_def)
  ultimately show ?thesis
    using mailer_verdict[of countdown_sender "\<lambda>d. ret None", OF countdown_errors, of None "\<lambda>t out. ret ()" "\<lambda>j. ''?''"
        "json_print (marshal_DeliveryMessage verification_command)" 2]
    by (simp add: Let_def split: prod.splits)
qed

end
