(* ===== verification/Saga_Flow.thy ===== *)
theory Saga_Flow
  imports Handlers Notifier Mailer
begin

text \<open>
  The onboarding saga across the services: \<open>Subscribe\<close> stores it with an event, the notifier turns
  the event into a command, the mailer sends the email and publishes the outcome, and the
  orchestrator or the reaper settles it. The theorem: the token \<open>Subscribe\<close> drew is the one
  the orchestrator settles, through every encoding on the way.
\<close>

section \<open>The way of the token\<close>

lemma built_event:
  assumes "fst (run (newEnvelope S t (Inr j)) w) = Inr env"
  shows "EnvType env = t" "EnvPayload env = Some j"
  using assms by (auto simp: newEnvelope_def split: prod.splits)

lemma decoded_event:
  assumes "decodes_to decode p t (fst (run m w))" and "fst (run m w) = Inr env"
  shows "unmarshal_Envelope (json_print (marshal_Envelope env)) = Inr env" "decode env = Inr p" "EnvType env = t"
  using assms by (simp_all add: decodes_to_def)

text \<open>
  C10: The token of a subscription reaches its subscriber and comes back: the notifier makes of the
  event that \<open>Subscribe\<close> queues a verification command for the same address, which the mailer
  reads as it was written; the email holds the token; and both events the mailer may publish
  about it name that token to the orchestrator, as delivered and as failed.
\<close>

theorem saga_token_travels:
  assumes "\<And>w. valid_rfc3339 (fst (run (NowUTC S) w))" and "\<And>w. valid_rfc3339 (fst (run (NowUTC M) w))"
    and "fst (run (NewSubscriptionCreated S \<lparr>scEmail = email, scToken = token\<rparr>) w) = Inr env"
  shows "\<exists>key cmd. event_command (json_print (marshal_Envelope env)) = Inr (key, cmd)
    \<and> unmarshal_DeliveryMessage (json_print (marshal_DeliveryMessage cmd)) = Inr cmd
    \<and> dmEmail cmd = email
    \<and> buildEmail format cmd = Some (''Verify your email'', ''Your verification token is '' @ token)
    \<and> (\<forall>env' w'. fst (run (NewVerificationDelivered M \<lparr>vdToken = verificationToken cmd\<rparr>) w') = Inr env'
         \<longrightarrow> result_event (json_print (marshal_Envelope env')) = Some (True, token))
    \<and> (\<forall>reason env' w'. fst (run (NewVerificationFailed M \<lparr>vfToken = verificationToken cmd, vfReason = reason\<rparr>) w') = Inr env'
         \<longrightarrow> result_event (json_print (marshal_Envelope env')) = Some (False, token))"
proof -
  define cmd where "cmd = \<lparr>dmEvent = EventEmailVerification, dmEmail = email, dmRepo = '''', dmRelease = '''',
    dmPayload = [(''token'', JStr token)]\<rparr>"
  have built: "decodes_to DecodeSubscriptionCreated \<lparr>scEmail = email, scToken = token\<rparr> RoutingKeySubscriptionCreated
      (fst (run (NewSubscriptionCreated S \<lparr>scEmail = email, scToken = token\<rparr>) w))"
    using events_decode[OF assms(1)] by blast
  have "EnvType env = TypeSubscriptionCreated"
    using decoded_event(3)[OF built assms(3)] by (simp add: routing_keys event_types)
  then have "toCommand env = Inr (cmd, True)"
    using decoded_event(2)[OF built assms(3)] by (simp add: toCommand_def event_types cmd_def)
  then have "event_command (json_print (marshal_Envelope env)) = Inr (dedupKeyPrefix @ EnvID env, cmd)"
    using decoded_event(1)[OF built assms(3)] by (simp add: event_command_def)
  moreover have "unmarshal_DeliveryMessage (json_print (marshal_DeliveryMessage cmd)) = Inr cmd"
    by (rule command_roundtrip) (simp add: cmd_def)
  moreover have "buildEmail format cmd = Some (''Verify your email'', ''Your verification token is '' @ token)"
    "verificationToken cmd = token" "dmEmail cmd = email"
    by (simp_all add: buildEmail_def cmd_def email_event_types payload_value_def format_value_def verificationToken_def)
  moreover have "result_event (json_print (marshal_Envelope env')) = Some (True, token)"
    if "fst (run (NewVerificationDelivered M \<lparr>vdToken = token\<rparr>) w') = Inr env'" for env' w'
  proof -
    have "decodes_to DecodeVerificationDelivered \<lparr>vdToken = token\<rparr> RoutingKeyVerificationDelivered
        (fst (run (NewVerificationDelivered M \<lparr>vdToken = token\<rparr>) w'))"
      using events_decode[OF assms(2)] by blast
    from decoded_event[OF this that] show ?thesis by (simp add: result_event_def routing_keys event_types)
  qed
  moreover have "result_event (json_print (marshal_Envelope env')) = Some (False, token)"
    if "fst (run (NewVerificationFailed M \<lparr>vfToken = token, vfReason = reason\<rparr>) w') = Inr env'" for reason env' w'
  proof -
    have "decodes_to DecodeVerificationFailed \<lparr>vfToken = token, vfReason = reason\<rparr> RoutingKeyVerificationFailed
        (fst (run (NewVerificationFailed M \<lparr>vfToken = token, vfReason = reason\<rparr>) w'))"
      using events_decode[OF assms(2)] by blast
    from decoded_event[OF this that] show ?thesis by (simp add: result_event_def routing_keys event_types)
  qed
  ultimately show ?thesis by auto
qed

section \<open>The theorems at work\<close>

theorem saga_token_travels_witness:
  "\<exists>env key cmd. fst (run (NewSubscriptionCreated counter_services \<lparr>scEmail = ''a@b.c'', scToken = ''t''\<rparr>) 0) = Inr env
     \<and> event_command (json_print (marshal_Envelope env)) = Inr (key, cmd) \<and> dmEmail cmd = ''a@b.c''"
proof -
  have "decodes_to DecodeSubscriptionCreated \<lparr>scEmail = ''a@b.c'', scToken = ''t''\<rparr> RoutingKeySubscriptionCreated
      (fst (run (NewSubscriptionCreated counter_services \<lparr>scEmail = ''a@b.c'', scToken = ''t''\<rparr>) 0))"
    using events_decode[OF counter_clock] by blast
  then obtain env where "fst (run (NewSubscriptionCreated counter_services \<lparr>scEmail = ''a@b.c'', scToken = ''t''\<rparr>) 0) = Inr env"
    by (auto simp: decodes_to_def split: sum.splits)
  from this saga_token_travels[OF counter_clock counter_clock this] show ?thesis by blast
qed

end
