(* ===== verification/Scanner_Store.thy ===== *)
theory Scanner_Store
  imports Outbox
begin

text \<open>
  \<open>internal/worker/scanner/store.go\<close>: the interface \<open>RepositoryStore\<close> of the scanner and its GORM
  implementation. The locale \<open>scan_store\<close> is its contract, which the GORM store is shown to
  meet: a claim takes idle, due repositories and marks them, a scan's result is written with
  its events in one transaction, and a moved repository is deleted with its subscriptions
  ended.
\<close>

section \<open>The interface\<close>

record 'w RepositoryStore =
  RecoverStuckRepos :: "('w, goerror option) state"
  ClaimIdle :: "nat \<Rightarrow> int \<Rightarrow> ('w, goerror + Repository list) state"
  UpdateScanStatus :: "Repository \<Rightarrow> Event list \<Rightarrow> ('w, goerror option) state"
  GetActiveSubscriptions :: "nat \<Rightarrow> ('w, goerror + Subscription list) state"
  MarkMovedAndUnsubscribe :: "Repository \<Rightarrow> Event list \<Rightarrow> ('w, goerror option) state"

section \<open>The GORM store\<close>

definition RecoverStuckRepos_gorm :: "'w gorm_db \<Rightarrow> ('w, goerror option) state" where
  "RecoverStuckRepos_gorm G = do {
     res \<leftarrow> gUpdates (Repositories G) (\<lambda>r. repoStatus r = StatusProcessing) (\<lambda>r. r\<lparr>repoStatus := StatusIdle\<rparr>);
     ret (error_of res) }"

text \<open>A repository that may be claimed: idle, and not scanned since the cutoff.\<close>

definition due :: "int \<Rightarrow> Repository \<Rightarrow> bool" where
  "due cutoff r = (repoStatus r = StatusIdle
     \<and> (case LastScannedAt r of None \<Rightarrow> True | Some t \<Rightarrow> t \<le> cutoff))"

definition claim_repos :: "'w gorm_db \<Rightarrow> ('w, int) state \<Rightarrow> nat \<Rightarrow> int \<Rightarrow> ('w, goerror + nat list) state" where
  "claim_repos G now batchSize minInterval = do {
     t \<leftarrow> now;
     plucked \<leftarrow> gPluckUnlocked (Repositories G) (due (t - minInterval)) LastScannedAt batchSize;
     case plucked of
       Inl err \<Rightarrow> ret (Inl err)
     | Inr ids \<Rightarrow>
         if ids = [] then ret (Inr [])
         else do {
           t' \<leftarrow> now;
           res \<leftarrow> gUpdates (Repositories G) (\<lambda>r. ID r \<in> set ids)
             (\<lambda>r. r\<lparr>repoStatus := StatusProcessing, LastScannedAt := Some t'\<rparr>);
           ret (case res of Inl err \<Rightarrow> Inl err | Inr _ \<Rightarrow> Inr ids) } }"

text \<open>The error of the final \<open>Find\<close> is not looked at: the list is empty then.\<close>

definition ClaimIdle_gorm ::
  "'w gorm_db \<Rightarrow> ('w, int) state \<Rightarrow> nat \<Rightarrow> int \<Rightarrow> ('w, goerror + Repository list) state" where
  "ClaimIdle_gorm G now batchSize minInterval = do {
     claimed \<leftarrow> TransactionIDs G (claim_repos G now batchSize minInterval);
     case claimed of
       Inl err \<Rightarrow> ret (Inl err)
     | Inr ids \<Rightarrow>
         if ids = [] then ret (Inr [])
         else do {
           found \<leftarrow> gFind (Repositories G) (\<lambda>r. ID r \<in> set ids);
           ret (Inr (case found of Inl _ \<Rightarrow> [] | Inr repos \<Rightarrow> repos)) } }"

text \<open>The columns a scan writes, and the write.\<close>

definition scanned :: "Repository \<Rightarrow> int \<Rightarrow> Repository \<Rightarrow> Repository" where
  "scanned repo t r =
     r\<lparr>repoStatus := StatusIdle, LastScannedAt := Some t, repoETag := repoETag repo,
       LastRelease := LastRelease repo\<rparr>"

definition update_scan :: "'w gorm_db \<Rightarrow> Repository \<Rightarrow> int \<Rightarrow> ('w, goerror option) state" where
  "update_scan G repo t = do {
     res \<leftarrow> gUpdates (Repositories G) (\<lambda>r. ID r = ID repo) (scanned repo t);
     ret (error_of res) }"

definition UpdateScanStatus_gorm ::
  "'w gorm_db \<Rightarrow> ('w, int) state \<Rightarrow> Repository \<Rightarrow> Event list \<Rightarrow> ('w, goerror option) state" where
  "UpdateScanStatus_gorm G now repo events = do {
     t \<leftarrow> now;
     if events = [] then update_scan G repo t
     else Transaction G (and_then (update_scan G repo t) (InsertTx G events)) }"

definition GetActiveSubscriptions_gorm :: "'w gorm_db \<Rightarrow> nat \<Rightarrow> ('w, goerror + Subscription list) state" where
  "GetActiveSubscriptions_gorm G repoID =
     gFind (Subscriptions G) (\<lambda>s. RepositoryID s = repoID \<and> subStatus s = StatusActive)"

definition markMovedAndUnsubscribe :: "'w gorm_db \<Rightarrow> Repository \<Rightarrow> ('w, goerror option) state" where
  "markMovedAndUnsubscribe tx repo = and_then
     (do { res \<leftarrow> gUpdates (Subscriptions tx) (\<lambda>s. RepositoryID s = ID repo) (\<lambda>s. s\<lparr>subStatus := StatusUnsubscribed\<rparr>);
           ret (error_of res) })
     (gDelete (Repositories tx) (\<lambda>r. ID r = ID repo))"

definition MarkMovedAndUnsubscribe_gorm ::
  "'w gorm_db \<Rightarrow> Repository \<Rightarrow> Event list \<Rightarrow> ('w, goerror option) state" where
  "MarkMovedAndUnsubscribe_gorm G repo events =
     (if events = [] then markMovedAndUnsubscribe G repo
      else Transaction G (and_then (markMovedAndUnsubscribe G repo) (InsertTx G events)))"

definition NewRepositoryStore :: "'w gorm_db \<Rightarrow> ('w, int) state \<Rightarrow> 'w RepositoryStore" where
  "NewRepositoryStore G now =
     \<lparr>RecoverStuckRepos = RecoverStuckRepos_gorm G,
      ClaimIdle = ClaimIdle_gorm G now,
      UpdateScanStatus = UpdateScanStatus_gorm G now,
      GetActiveSubscriptions = GetActiveSubscriptions_gorm G,
      MarkMovedAndUnsubscribe = MarkMovedAndUnsubscribe_gorm G\<rparr>"

section \<open>The contract\<close>

text \<open>Events queued on top of a state.\<close>

definition queued :: "Event list \<Rightarrow> 'v tables_scheme \<Rightarrow> 'v tables_scheme \<Rightarrow> bool" where
  "queued events v u \<longleftrightarrow>
     (if events = [] then u = v
      else \<exists>rows. all_assigned (outbox_rows v) (map new_row events) rows
        \<and> u = outbox_rows_update (\<lambda>xs. xs @ rows) v)"

text \<open>A claim: the keys of at most \<open>n\<close> due repositories, the longest unscanned first and those
  never scanned last, which it marks.\<close>

definition claims :: "nat \<Rightarrow> int \<Rightarrow> nat list \<Rightarrow> 'v tables_scheme \<Rightarrow> 'v tables_scheme \<Rightarrow> bool" where
  "claims n cutoff ids v u \<longleftrightarrow>
     (\<exists>xs t. ids = map ID xs \<and> mset xs \<subseteq># mset (rows_where (due cutoff) (repositories v)) \<and> length xs \<le> n
        \<and> sorted_wrt (\<lambda>x y. nulls_last (LastScannedAt x) (LastScannedAt y)) xs
        \<and> (if ids = [] then u = v else db_ok u \<and>
           u = repositories_update (update_where (\<lambda>r. ID r \<in> set ids)
                 (\<lambda>r. r\<lparr>repoStatus := StatusProcessing, LastScannedAt := Some t\<rparr>)) v))"

definition moved :: "Repository \<Rightarrow> int \<Rightarrow> 'v tables_scheme \<Rightarrow> 'v tables_scheme" where
  "moved repo t v =
     repositories_update (update_where (\<lambda>r. ID r = ID repo) (soft_delete t))
       (subscriptions_update (update_where (\<lambda>s. RepositoryID s = ID repo)
          (\<lambda>s. s\<lparr>subStatus := StatusUnsubscribed\<rparr>)) v)"

locale scan_store =
  fixes RS :: "'w RepositoryStore" and view :: "'w \<Rightarrow> 'v tables_scheme"
  assumes recover: "\<And>w r w'. run (RecoverStuckRepos RS) w = (r, w') \<Longrightarrow>
      (if r = None
       then view w' = repositories_update (update_where (\<lambda>r. repoStatus r = StatusProcessing)
              (\<lambda>r. r\<lparr>repoStatus := StatusIdle\<rparr>)) (view w) \<and> db_ok (view w')
       else view w' = view w)"
    and claim_idle: "\<And>n d w r w'. run (ClaimIdle RS n d) w = (r, w') \<Longrightarrow>
      (case r of
         Inl e \<Rightarrow> view w' = view w
       | Inr repos \<Rightarrow> \<exists>cutoff ids. claims n cutoff ids (view w) (view w')
           \<and> (repos = [] \<or> mset repos = mset (rows_where (\<lambda>r. ID r \<in> set ids) (repositories (view w')))))"
    and update_status: "\<And>repo events w r w'. run (UpdateScanStatus RS repo events) w = (r, w') \<Longrightarrow>
      (if r = None
       then db_ok (view w') \<and> (\<exists>t. queued events
              (repositories_update (update_where (\<lambda>r. ID r = ID repo) (scanned repo t)) (view w)) (view w'))
       else view w' = view w)"
    and active_subs: "\<And>i w r w'. run (GetActiveSubscriptions RS i) w = (r, w') \<Longrightarrow> view w' = view w
      \<and> (case r of Inl e \<Rightarrow> True
         | Inr subs \<Rightarrow> mset subs = mset (rows_where (\<lambda>s. RepositoryID s = i \<and> subStatus s = StatusActive)
                                    (subscriptions (view w))))"
    and mark_moved: "\<And>repo events w r w'. run (MarkMovedAndUnsubscribe RS repo events) w = (r, w') \<Longrightarrow>
      (if r = None then db_ok (view w') \<and> (\<exists>t. queued events (moved repo t (view w)) (view w'))
       else view w' = view w \<or> (events = [] \<and> view w' =
         subscriptions_update (update_where (\<lambda>s. RepositoryID s = ID repo)
           (\<lambda>s. s\<lparr>subStatus := StatusUnsubscribed\<rparr>)) (view w)))"

section \<open>The GORM store meets it\<close>

context gorm begin

text \<open>A write followed by the insertion of events, in one transaction.\<close>

lemma write_queued:
  assumes wr: "\<And>w r w'. run write w = (r, w') \<Longrightarrow> rolled_back (view w) (view w') = view w
      \<and> (r = None \<longrightarrow> db_ok (view w') \<and> f (view w) (view w'))"
    and ne: "events \<noteq> []"
    and run: "run (Transaction G (and_then write (InsertTx G events))) w = (r, w')"
  shows "case r of Some e \<Rightarrow> view w' = view w
    | None \<Rightarrow> db_ok (view w') \<and> (\<exists>u. f (view w) u \<and> queued events u (view w'))"
proof -
  have "case r of Some e \<Rightarrow> True \<and> view w' = view w
    | None \<Rightarrow> db_ok (view w') \<and> (\<exists>u. f (view w) u \<and> queued events u (view w'))"
  proof (rule transaction_run[OF run])
    fix w0 r1 w2
    assume w0: "view w0 = view w" and body: "run (and_then write (InsertTx G events)) w0 = (r1, w2)"
    obtain q w1 where 1: "run write w0 = (q, w1)" by (rule prod.exhaust)
    obtain q2 w3 where 2: "run (InsertTx G events) w1 = (q2, w3)" by (rule prod.exhaust)
    show "rolled_back (view w) (view w2) = view w \<and> (case r1 of Some e \<Rightarrow> True
        | None \<Rightarrow> db_ok (view w2) \<and> (\<exists>u. f (view w) u \<and> queued events u (view w2)))"
    proof (cases q)
      case (Some e)
      then show ?thesis using body 1 wr[OF 1] w0 by (auto simp: and_then_def)
    next
      case None
      then have r1: "r1 = q2" "w2 = w3" using body 1 2 by (simp_all add: and_then_def)
      show ?thesis
      proof (cases q2)
        case (Some e)
        then show ?thesis using InsertTx_call[OF 2] wr[OF 1] w0 r1 by simp
      next
        case 3: None
        then obtain rows where rows: "all_assigned (outbox_rows (view w1)) (map new_row events) rows"
          "view w3 = outbox_rows_update (\<lambda>xs. xs @ rows) (view w1)" "db_ok (view w3)"
          using InsertTx_call[OF 2] ne by auto
        then have "queued events (view w1) (view w3)" using ne by (auto simp: queued_def)
        then show ?thesis using wr[OF 1] w0 r1 rows 3 None by auto
      qed
    qed
  qed simp
  then show ?thesis by (simp cong: option.case_cong)
qed

lemma update_scan_call:
  assumes "run (update_scan G repo t) w = (r, w')"
  shows "case r of Some e \<Rightarrow> view w' = view w
    | None \<Rightarrow> db_ok (view w')
        \<and> view w' = repositories_update (update_where (\<lambda>r. ID r = ID repo) (scanned repo t)) (view w)"
proof -
  obtain c where "run (gUpdates (Repositories G) (\<lambda>r. ID r = ID repo) (scanned repo t)) w = (c, w')"
    and "r = error_of c"
    using assms by (auto simp: update_scan_def split: prod.splits)
  with repos.updates[OF this(1)] show ?thesis by (auto simp: error_of_def split: sum.splits)
qed

lemma RecoverStuckRepos_call:
  assumes "run (RecoverStuckRepos_gorm G) w = (r, w')"
  shows "if r = None
       then view w' = repositories_update (update_where (\<lambda>r. repoStatus r = StatusProcessing)
              (\<lambda>r. r\<lparr>repoStatus := StatusIdle\<rparr>)) (view w) \<and> db_ok (view w')
       else view w' = view w"
proof -
  obtain c where "run (gUpdates (Repositories G) (\<lambda>r. repoStatus r = StatusProcessing)
      (\<lambda>r. r\<lparr>repoStatus := StatusIdle\<rparr>)) w = (c, w')" and "r = error_of c"
    using assms by (auto simp: RecoverStuckRepos_gorm_def split: prod.splits)
  with repos.updates[OF this(1)] show ?thesis by (auto simp: error_of_def split: sum.splits)
qed

lemma GetActiveSubscriptions_call:
  assumes "run (GetActiveSubscriptions_gorm G i) w = (r, w')"
  shows "view w' = view w
      \<and> (case r of Inl e \<Rightarrow> True
         | Inr subs \<Rightarrow> mset subs = mset (rows_where (\<lambda>s. RepositoryID s = i \<and> subStatus s = StatusActive)
                                    (subscriptions (view w))))"
  using subs.find[OF assms[unfolded GetActiveSubscriptions_gorm_def]] by (auto split: sum.splits)

text \<open>The two writes for a moved repository; the second may fail after the first.\<close>

lemma markMoved_call:
  assumes "run (markMovedAndUnsubscribe G repo) w = (r, w')"
  shows "rolled_back (view w) (view w') = view w
    \<and> (if r = None then db_ok (view w') \<and> (\<exists>t. view w' = moved repo t (view w))
       else view w' = view w \<or> view w' = subscriptions_update (update_where (\<lambda>s. RepositoryID s = ID repo)
           (\<lambda>s. s\<lparr>subStatus := StatusUnsubscribed\<rparr>)) (view w))"
proof -
  obtain c w1 where 1: "run (gUpdates (Subscriptions G) (\<lambda>s. RepositoryID s = ID repo)
      (\<lambda>s. s\<lparr>subStatus := StatusUnsubscribed\<rparr>)) w = (c, w1)" by (rule prod.exhaust)
  obtain d w2 where 2: "run (gDelete (Repositories G) (\<lambda>r. ID r = ID repo)) w1 = (d, w2)"
    by (rule prod.exhaust)
  have "(r, w') = (case c of Inl e \<Rightarrow> (Some e, w1) | Inr _ \<Rightarrow> (d, w2))"
    using assms 1 2 by (auto simp: markMovedAndUnsubscribe_def and_then_def error_of_def split: sum.splits)
  then show ?thesis
    using subs.updates[OF 1] repos.deletes[OF 2]
    by (cases c; cases d) (auto simp: moved_def)
qed

end

context gorm_clock begin

lemma claim_repos_call:
  assumes "run (claim_repos G now n d) w = (r, w')"
  shows "rolled_back (view w) (view w') = view w
    \<and> (case r of Inl e \<Rightarrow> True | Inr ids \<Rightarrow> \<exists>cutoff. claims n cutoff ids (view w) (view w'))"
proof -
  obtain t w1 where 1: "run now w = (t, w1)" by (rule prod.exhaust)
  obtain p w2 where 2: "run (gPluckUnlocked (Repositories G) (due (t - d)) LastScannedAt n) w1 = (p, w2)"
    by (rule prod.exhaust)
  have v2: "view w2 = view w" using now_view[OF 1] repos.pluck[OF 2] by simp
  show ?thesis
  proof (cases p)
    case (Inl e)
    then show ?thesis using assms 1 2 v2 by (auto simp: claim_repos_def)
  next
    case (Inr ids)
    then obtain xs where xs: "ids = map ID xs"
      "mset xs \<subseteq># mset (rows_where (due (t - d)) (repositories (view w)))" "length xs \<le> n"
      "sorted_wrt (\<lambda>x y. nulls_last (LastScannedAt x) (LastScannedAt y)) xs"
      using repos.pluck[OF 2] now_view[OF 1] by auto
    show ?thesis
    proof (cases "ids = []")
      case True
      then have "claims n (t - d) ids (view w) (view w2)"
        using xs v2 unfolding claims_def by (intro exI[of _ xs]) simp
      then show ?thesis using assms 1 2 v2 Inr True by (auto simp: claim_repos_def)
    next
      case False
      obtain t' w3 where 3: "run now w2 = (t', w3)" by (rule prod.exhaust)
      obtain c w4 where 4: "run (gUpdates (Repositories G) (\<lambda>r. ID r \<in> set ids)
          (\<lambda>r. r\<lparr>repoStatus := StatusProcessing, LastScannedAt := Some t'\<rparr>)) w3 = (c, w4)"
        by (rule prod.exhaust)
      have r: "r = (case c of Inl err \<Rightarrow> Inl err | Inr _ \<Rightarrow> Inr ids)" "w' = w4"
        using assms 1 2 3 4 Inr False by (simp_all add: claim_repos_def)
      show ?thesis
      proof (cases c)
        case (Inl e)
        then show ?thesis using r repos.updates[OF 4] now_view[OF 3] v2 by simp
      next
        case c: (Inr k)
        have u: "view w4 = repositories_update (update_where (\<lambda>r. ID r \<in> set ids)
            (\<lambda>r. r\<lparr>repoStatus := StatusProcessing, LastScannedAt := Some t'\<rparr>)) (view w)" "db_ok (view w4)"
          using repos.updates[OF 4] c now_view[OF 3] v2 by auto
        have "claims n (t - d) ids (view w) (view w4)"
          unfolding claims_def using xs u False by (intro exI[of _ xs] exI[of _ t']) simp
        then show ?thesis using r c u(1) by auto
      qed
    qed
  qed
qed

lemma ClaimIdle_call:
  assumes "run (ClaimIdle_gorm G now n d) w = (r, w')"
  shows "case r of
         Inl e \<Rightarrow> view w' = view w
       | Inr repos \<Rightarrow> \<exists>cutoff ids. claims n cutoff ids (view w) (view w')
           \<and> (repos = [] \<or> mset repos = mset (rows_where (\<lambda>r. ID r \<in> set ids) (repositories (view w'))))"
proof -
  obtain c w1 where 1: "run (TransactionIDs G (claim_repos G now n d)) w = (c, w1)" by (rule prod.exhaust)
  have claimed: "case c of Inl e \<Rightarrow> view w1 = view w
      | Inr ids \<Rightarrow> \<exists>cutoff. claims n cutoff ids (view w) (view w1)"
    using transaction_ids[unfolded tx_ok_def, rule_format, OF 1]
  proof (elim disjE exE conjE)
    fix w0 r0 w2
    assume w0: "view w0 = view w" and run: "run (claim_repos G now n d) w0 = (r0, w2)"
      and "case r0 of
          Inl e \<Rightarrow> c = Inl e \<and> view w1 = rolled_back (view w) (view w2)
        | Inr a \<Rightarrow> (c = Inr a \<and> view w1 = view w2)
            \<or> (\<exists>e. c = Inl e \<and> db_error e \<and> view w1 = rolled_back (view w) (view w2))"
    with claim_repos_call[OF run] show ?thesis by (auto split: sum.splits)
  qed simp
  show ?thesis
  proof (cases c)
    case (Inl e)
    then show ?thesis using assms 1 claimed by (auto simp: ClaimIdle_gorm_def)
  next
    case (Inr ids)
    show ?thesis
    proof (cases "ids = []")
      case True
      then have "r = Inr []" "w1 = w'" using assms 1 Inr by (simp_all add: ClaimIdle_gorm_def)
      then show ?thesis using claimed Inr by auto
    next
      case False
      obtain f w2 where 2: "run (gFind (Repositories G) (\<lambda>r. ID r \<in> set ids)) w1 = (f, w2)"
        by (rule prod.exhaust)
      have "r = Inr (case f of Inl _ \<Rightarrow> [] | Inr repos \<Rightarrow> repos)" "w' = w2"
        using assms 1 2 Inr False by (simp_all add: ClaimIdle_gorm_def)
      with repos.find[OF 2] claimed Inr show ?thesis by (cases f) auto
    qed
  qed
qed

lemma UpdateScanStatus_call:
  assumes "run (UpdateScanStatus_gorm G now repo events) w = (r, w')"
  shows "if r = None
       then db_ok (view w') \<and> (\<exists>t. queued events
              (repositories_update (update_where (\<lambda>r. ID r = ID repo) (scanned repo t)) (view w)) (view w'))
       else view w' = view w"
proof -
  obtain t w1 where 1: "run now w = (t, w1)" by (rule prod.exhaust)
  let ?f = "\<lambda>v u. u = repositories_update (update_where (\<lambda>r. ID r = ID repo) (scanned repo t)) v"
  have wr: "rolled_back (view w) (view w') = view w
      \<and> (r = None \<longrightarrow> db_ok (view w') \<and> ?f (view w) (view w'))"
    if "run (update_scan G repo t) w = (r, w')" for w r w'
    using update_scan_call[OF that] by (auto split: option.splits)
  show ?thesis
  proof (cases "events = []")
    case True
    then have "run (update_scan G repo t) w1 = (r, w')"
      using assms 1 by (simp add: UpdateScanStatus_gorm_def)
    from update_scan_call[OF this] now_view[OF 1] True show ?thesis
      by (auto simp: queued_def split: option.splits)
  next
    case False
    then have "run (Transaction G (and_then (update_scan G repo t) (InsertTx G events))) w1 = (r, w')"
      using assms 1 by (simp add: UpdateScanStatus_gorm_def)
    from write_queued[where f = ?f, OF wr False this] now_view[OF 1] show ?thesis
      by (auto split: option.splits)
  qed
qed

lemma MarkMovedAndUnsubscribe_call:
  assumes "run (MarkMovedAndUnsubscribe_gorm G repo events) w = (r, w')"
  shows "if r = None then db_ok (view w') \<and> (\<exists>t. queued events (moved repo t (view w)) (view w'))
      else view w' = view w \<or> (events = [] \<and> view w' =
         subscriptions_update (update_where (\<lambda>s. RepositoryID s = ID repo)
           (\<lambda>s. s\<lparr>subStatus := StatusUnsubscribed\<rparr>)) (view w))"
proof (cases "events = []")
  case True
  then have "run (markMovedAndUnsubscribe G repo) w = (r, w')"
    using assms by (simp add: MarkMovedAndUnsubscribe_gorm_def)
  from markMoved_call[OF this] True show ?thesis by (auto simp: queued_def)
next
  case False
  let ?f = "\<lambda>v u. \<exists>t. u = moved repo t v"
  have wr: "rolled_back (view w) (view w') = view w
      \<and> (r = None \<longrightarrow> db_ok (view w') \<and> ?f (view w) (view w'))"
    if "run (markMovedAndUnsubscribe G repo) w = (r, w')" for w r w'
    using markMoved_call[OF that] by auto
  have "run (Transaction G (and_then (markMovedAndUnsubscribe G repo) (InsertTx G events))) w = (r, w')"
    using assms False by (simp add: MarkMovedAndUnsubscribe_gorm_def)
  from write_queued[where f = ?f, OF wr False this] show ?thesis by (auto split: option.splits)
qed

end

sublocale gorm_clock \<subseteq> scan: scan_store "NewRepositoryStore G now" view
  by (unfold_locales; unfold NewRepositoryStore_def RepositoryStore.simps;
      erule RecoverStuckRepos_call ClaimIdle_call UpdateScanStatus_call GetActiveSubscriptions_call
        MarkMovedAndUnsubscribe_call)

interpretation mem_scan: scan_store "NewRepositoryStore mem_gorm mem_now" obs
  by (rule mem_clock.scan.scan_store_axioms)

end
