(* ===== verification/Float64.thy ===== *)
theory Float64
  imports Complex_Main "HOL-Library.Log_Nat"
begin

text \<open>
  Go's \<open>float64\<close>: a finite value is a rational number, and an operation gives its exact result
  rounded to the nearest number with a significand of 53 bits, ties to the even one. The
  bounds of the exponent (overflow to an infinity, subnormal numbers) are not modelled: the
  scanner's quota arithmetic stays far inside them.
\<close>

type_synonym float64 = rat

section \<open>Rounding to an integer\<close>

definition round_even :: "rat \<Rightarrow> int" where
  "round_even z =
     (let n = \<lfloor>z\<rfloor>; d = z - of_int n
      in if d < 1/2 \<or> (d = 1/2 \<and> even n) then n else n + 1)"

lemma round_even_bounds: "\<lfloor>z\<rfloor> \<le> round_even z" "round_even z \<le> \<lfloor>z\<rfloor> + 1"
  by (simp_all add: round_even_def Let_def)

lemma round_even_int [simp]: "round_even (of_int n) = n"
  by (simp add: round_even_def)

lemma round_even_mono:
  assumes "x \<le> y"
  shows "round_even x \<le> round_even y"
proof (cases "\<lfloor>x\<rfloor> = \<lfloor>y\<rfloor>")
  case True
  then show ?thesis using assms by (auto simp: round_even_def Let_def)
next
  case False
  then have "\<lfloor>x\<rfloor> + 1 \<le> \<lfloor>y\<rfloor>" using floor_mono[OF assms] by linarith
  then show ?thesis using round_even_bounds(2)[of x] round_even_bounds(1)[of y] by linarith
qed

section \<open>The binade of a number\<close>

definition exponent :: "rat \<Rightarrow> int" where
  "exponent x =
     (let (a, b) = quotient_of x; k = bitlen a - bitlen b
      in if 2 powi k \<le> x then k else k - 1)"

lemma bitlen_powi:
  assumes "0 < a"
  shows "(2 :: rat) powi (bitlen a - 1) \<le> of_int a" "of_int a < (2 :: rat) powi bitlen a"
proof -
  have b: "0 < bitlen a" using assms by (simp add: bitlen_def compute_floorlog floorlog_eq_zero_iff)
  have "2 ^ nat (bitlen a - 1) \<le> a \<and> a < 2 ^ nat (bitlen a)" by (rule bitlen_bounds[OF assms])
  then have "(of_int (2 ^ nat (bitlen a - 1)) :: rat) \<le> of_int a"
    "(of_int a :: rat) < of_int (2 ^ nat (bitlen a))"
    by (simp_all only: of_int_le_iff of_int_less_iff)
  then show "(2 :: rat) powi (bitlen a - 1) \<le> of_int a" "of_int a < (2 :: rat) powi bitlen a"
    using b by (simp_all add: power_int_def)
qed

lemma exponent_bounds:
  assumes "0 < x"
  shows "2 powi exponent x \<le> x" "x < 2 powi (exponent x + 1)"
proof -
  obtain a b where q: "quotient_of x = (a, b)" by (cases "quotient_of x") auto
  have x: "x = of_int a / of_int b" and b: "0 < b"
    using quotient_of_div[OF q] quotient_of_denom_pos[OF q] by simp_all
  have a: "0 < a" using assms x b by (simp add: zero_less_divide_iff)
  let ?k = "bitlen a - bitlen b"
  have two: "(2 :: rat) powi (i + j) = 2 powi i * 2 powi j" for i j by (simp add: power_int_add)
  have up: "x < 2 powi (?k + 1)"
  proof -
    have "of_int a < (2 :: rat) powi (?k + 1) * 2 powi (bitlen b - 1)"
      using bitlen_powi(2)[OF a] two[of "?k + 1" "bitlen b - 1"] by simp
    also have "\<dots> \<le> (2 :: rat) powi (?k + 1) * of_int b"
      using bitlen_powi(1)[OF b] by (intro mult_left_mono) simp_all
    finally show ?thesis using b x by (simp add: divide_less_eq)
  qed
  have low: "2 powi (?k - 1) \<le> x"
  proof -
    have "(2 :: rat) powi (?k - 1) * of_int b \<le> 2 powi (?k - 1) * 2 powi bitlen b"
      using bitlen_powi(2)[OF b] by (intro mult_left_mono) simp_all
    also have "\<dots> = 2 powi (bitlen a - 1)" using two[of "?k - 1" "bitlen b"] by simp
    also have "\<dots> \<le> of_int a" by (rule bitlen_powi(1)[OF a])
    finally show ?thesis using b x by (simp add: le_divide_eq)
  qed
  show "2 powi exponent x \<le> x" "x < 2 powi (exponent x + 1)"
    using up low q by (simp_all add: exponent_def Let_def)
qed

lemma exponent_mono:
  assumes "0 < x" and "x \<le> y"
  shows "exponent x \<le> exponent y"
proof (rule ccontr)
  assume "\<not> exponent x \<le> exponent y"
  then have "(2 :: rat) powi (exponent y + 1) \<le> 2 powi exponent x"
    by (intro power_int_increasing) simp_all
  then show False using exponent_bounds[of x] exponent_bounds[of y] assms by linarith
qed

section \<open>Rounding to a float\<close>

definition round_pos :: "rat \<Rightarrow> rat" where
  "round_pos x = (let ulp = 2 powi (exponent x - 52) in of_int (round_even (x / ulp)) * ulp)"

definition round64 :: "rat \<Rightarrow> float64" where
  "round64 x = (if x = 0 then 0 else if 0 < x then round_pos x else - round_pos (- x))"

lemma powi_int: "0 \<le> k \<Longrightarrow> (2 :: rat) powi k = of_int (2 ^ nat k)"
  by (simp add: power_int_def)

lemma round_pos_bounds:
  assumes "0 < x"
  shows "2 powi exponent x \<le> round_pos x" "round_pos x \<le> 2 powi (exponent x + 1)"
proof -
  let ?e = "exponent x"
  let ?u = "2 powi (?e - 52) :: rat"
  have u: "0 < ?u" by simp
  have split: "2 powi ?e = of_int (2 ^ 52) * ?u" "2 powi (?e + 1) = of_int (2 ^ 53) * ?u"
    using power_int_add[of "2 :: rat" 52 "?e - 52"] power_int_add[of "2 :: rat" 53 "?e - 52"]
    by (simp_all add: add.commute)
  have "of_int (2 ^ 52) \<le> x / ?u" "x / ?u \<le> of_int (2 ^ 53)"
    using exponent_bounds[OF assms] u unfolding split by (simp_all only: le_divide_eq divide_le_eq if_True less_imp_le)
  then have "2 ^ 52 \<le> round_even (x / ?u)" "round_even (x / ?u) \<le> 2 ^ 53"
    using round_even_mono round_even_int by metis+
  then have "(of_int (2 ^ 52) :: rat) \<le> of_int (round_even (x / ?u))"
    "(of_int (round_even (x / ?u)) :: rat) \<le> of_int (2 ^ 53)"
    by (simp_all only: of_int_le_iff)
  then show "2 powi ?e \<le> round_pos x" "round_pos x \<le> 2 powi (?e + 1)"
    unfolding round_pos_def Let_def split by (simp_all only: mult_right_mono less_imp_le[OF u])
qed

lemma round_pos_mono:
  assumes "0 < x" and "x \<le> y"
  shows "round_pos x \<le> round_pos y"
proof (cases "exponent x = exponent y")
  case True
  have "round_even (x / 2 powi (exponent y - 52)) \<le> round_even (y / 2 powi (exponent y - 52))"
    using assms by (intro round_even_mono divide_right_mono) simp_all
  then show ?thesis unfolding round_pos_def Let_def True
    by (intro mult_right_mono) simp_all
next
  case False
  then have "exponent x + 1 \<le> exponent y" using exponent_mono[OF assms] by simp
  then have "(2 :: rat) powi (exponent x + 1) \<le> 2 powi exponent y" by (intro power_int_increasing) simp_all
  then show ?thesis using round_pos_bounds[of x] round_pos_bounds[of y] assms by linarith
qed

lemma round_pos_pos: "0 < x \<Longrightarrow> 0 < round_pos x"
  using round_pos_bounds(1)[of x] less_le_trans[OF zero_less_power_int[of "2 :: rat" "exponent x"]] by simp

lemma round64_mono:
  assumes "x \<le> y"
  shows "round64 x \<le> round64 y"
proof (cases "0 < x")
  case True
  then show ?thesis using assms round_pos_mono by (simp add: round64_def)
next
  case False
  show ?thesis
  proof (cases "0 \<le> y")
    case True
    have "round64 x \<le> 0" using False round_pos_pos[of "- x"] by (auto simp: round64_def)
    moreover have "0 \<le> round64 y" using True round_pos_pos[of y] by (auto simp: round64_def)
    ultimately show ?thesis by (rule order_trans)
  next
    case neg: False
    then have "round_pos (- y) \<le> round_pos (- x)" using assms by (intro round_pos_mono) simp_all
    then show ?thesis using neg assms by (simp add: round64_def)
  qed
qed

text \<open>Integers of 53 bits are exact.\<close>

lemma round_pos_int:
  assumes "0 < n" and "n < 2 ^ 53"
  shows "round_pos (of_int n) = of_int n"
proof -
  let ?k = "52 - exponent (of_int n)"
  have "(2 :: rat) powi exponent (of_int n) < 2 powi 53"
    using exponent_bounds(1)[of "of_int n"] assms(1) less_le_trans[of "of_int n :: rat" "of_int (2 ^ 53)" "2 powi 53"]
      of_int_less_iff[of n "2 ^ 53", where 'a = rat] assms(2)
    by simp
  then have k: "0 \<le> ?k"
    using power_int_increasing[of 53 "exponent (of_int n)" "2 :: rat"] by (cases "53 \<le> exponent (of_int n)") simp_all
  have "of_int n / 2 powi (- ?k) = (of_int (n * 2 ^ nat ?k) :: rat)"
    using powi_int[OF k] unfolding power_int_minus by (simp add: divide_inverse)
  then have "of_int (round_even (of_int n / 2 powi (- ?k))) = (of_int n / 2 powi (- ?k) :: rat)"
    by (metis round_even_int)
  then show ?thesis by (simp add: round_pos_def Let_def)
qed

lemma round64_int:
  assumes "\<bar>n\<bar> < 2 ^ 53"
  shows "round64 (of_int n) = of_int n"
  using assms round_pos_int[of n] round_pos_int[of "- n"] by (auto simp: round64_def)

end
