(* ===== verification/Scanner.thy ===== *)
theory Scanner
  imports Scanner_Store Quota
begin

text \<open>
  \<open>internal/worker/scanner\<close>: processing one repository (\<open>processor.go\<close>), filling the queue
  (\<open>producer.go\<close>), the workers (\<open>worker.go\<close>) and the scanner itself (\<open>scanner.go\<close>). A log call
  has no effect on the model. The theorems: a new release is recorded together with one event
  per active subscriber, a moved repository ends its subscriptions with one notice each, no
  other scan touches a subscription, what the producer queues was due and fits the queue, and
  a repository is claimed by one producer at a time.
\<close>

section \<open>Processing a repository\<close>

record 'w RepoProcessor =
  pStore :: "'w RepositoryStore"
  pGh :: "'w Client"
  pQuota :: "'w QuotaManager"
  pServices :: "'w services"

definition NewRepoProcessor ::
  "'w RepositoryStore \<Rightarrow> 'w Client \<Rightarrow> 'w QuotaManager \<Rightarrow> 'w services \<Rightarrow> 'w RepoProcessor" where
  "NewRepoProcessor store gh quota uuids = \<lparr>pStore = store, pGh = gh, pQuota = quota, pServices = uuids\<rparr>"

definition repo_path :: "Repository \<Rightarrow> string" where
  "repo_path repo = Owner repo @ ''/'' @ Name repo"

text \<open>\<open>for _, sub := range subs\<close>: an event that cannot be built is skipped.\<close>

fun build_events :: "(Subscription \<Rightarrow> ('w, goerror + Envelope) state) \<Rightarrow> Subscription list \<Rightarrow> ('w, Event list) state" where
  "build_events build [] = ret []"
| "build_events build (sub # subs) = do {
     built \<leftarrow> build sub;
     evs \<leftarrow> build_events build subs;
     ret (case outbox_New built of Inl err \<Rightarrow> evs | Inr ev \<Rightarrow> ev # evs) }"

definition release_detected :: "Repository \<Rightarrow> string \<Rightarrow> Subscription \<Rightarrow> ReleaseDetected" where
  "release_detected repo tag sub = \<lparr>rdEmail = subEmail sub, rdRepo = repo_path repo, rdReleaseTag = tag\<rparr>"

definition repository_moved :: "Repository \<Rightarrow> Subscription \<Rightarrow> RepositoryMoved" where
  "repository_moved repo sub = \<lparr>rmEmail = subEmail sub, rmRepo = repo_path repo\<rparr>"

definition handleNewRelease :: "'w RepoProcessor \<Rightarrow> Repository \<Rightarrow> LatestRelease \<Rightarrow> ('w, Event list) state" where
  "handleNewRelease p repo latest = do {
     found \<leftarrow> GetActiveSubscriptions (pStore p) (ID repo);
     case found of
       Inl err \<Rightarrow> ret []
     | Inr subs \<Rightarrow>
         build_events (\<lambda>sub. NewReleaseDetected (pServices p) (release_detected repo (lrTagName latest) sub)) subs }"

definition handleRepoMoved :: "'w RepoProcessor \<Rightarrow> Repository \<Rightarrow> ('w, unit) state" where
  "handleRepoMoved p repo = do {
     found \<leftarrow> GetActiveSubscriptions (pStore p) (ID repo);
     case found of
       Inl err \<Rightarrow> ret ()
     | Inr subs \<Rightarrow> do {
         evs \<leftarrow> build_events (\<lambda>sub. NewRepositoryMoved (pServices p) (repository_moved repo sub)) subs;
         err \<leftarrow> MarkMovedAndUnsubscribe (pStore p) repo evs;
         ret () } }"

text \<open>The fields of \<open>repo.LastRelease\<close> that the scan assigns.\<close>

definition set_release :: "Repository \<Rightarrow> LatestRelease \<Rightarrow> Repository" where
  "set_release repo latest =
     repo\<lparr>LastRelease := (LastRelease repo)\<lparr>TagName := lrTagName latest, relGitHubID := lrID latest\<rparr>\<rparr>"

definition set_release_etag :: "Repository \<Rightarrow> string \<Rightarrow> Repository" where
  "set_release_etag repo etag = repo\<lparr>LastRelease := (LastRelease repo)\<lparr>relETag := etag\<rparr>\<rparr>"

text \<open>The second half of \<open>ProcessRepo\<close>, from \<open>GetLatestRelease\<close> on: the repository as it leaves
  it, and the pending events.\<close>

definition check_release :: "'w RepoProcessor \<Rightarrow> Repository \<Rightarrow> ('w, Repository \<times> Event list) state" where
  "check_release p repo = do {
     releaseResp \<leftarrow> GetLatestRelease (pGh p) (Owner repo) (Name repo) (relETag (LastRelease repo));
     let code = rStatusCode releaseResp;
     if code = 200 then
       if lrTagName (rData releaseResp) \<noteq> TagName (LastRelease repo) then do {
         pending \<leftarrow> handleNewRelease p repo (rData releaseResp);
         ret (set_release_etag (set_release repo (rData releaseResp)) (rETag releaseResp), pending) }
       else ret (set_release_etag repo (rETag releaseResp), [])
     else if code = 304 \<or> code = 404 then ret (repo, [])
     else if code = 403 \<or> code = 429 then do { qFreeze (pQuota p); ret (repo, []) }
     else ret (repo, []) }"

text \<open>The body of \<open>ProcessRepo\<close> before its deferred function runs.\<close>

definition scan_repo :: "'w RepoProcessor \<Rightarrow> Repository \<Rightarrow> ('w, Repository \<times> Event list) state" where
  "scan_repo p repo = do {
     repoResp \<leftarrow> GetRepository (pGh p) (Owner repo) (Name repo) (repoETag repo);
     let code = rStatusCode repoResp;
     if code = 200 then
       if ghID (rData repoResp) \<noteq> repoGitHubID repo then do { handleRepoMoved p repo; ret (repo, []) }
       else check_release p (repo\<lparr>repoETag := rETag repoResp\<rparr>)
     else if code = 304 then check_release p repo
     else if code = 404 then ret (repo, [])
     else if code = 403 \<or> code = 429 then do { qFreeze (pQuota p); ret (repo, []) }
     else ret (repo, []) }"

definition ProcessRepo :: "'w RepoProcessor \<Rightarrow> Repository \<Rightarrow> ('w, unit) state" where
  "ProcessRepo p repo = do {
     (repo', pending) \<leftarrow> scan_repo p repo;
     err \<leftarrow> UpdateScanStatus (pStore p) repo' pending;
     ret () }"

section \<open>The producer\<close>

text \<open>The queue of the producer: what is free of its capacity, and a send that gives up when the
  context is done (\<open>False\<close>).\<close>

record 'w repo_queue =
  qRoom :: "('w, int) state"
  qSend :: "Repository \<Rightarrow> ('w, bool) state"

record 'w RepoProducer =
  prStore :: "'w RepositoryStore"
  prQuota :: "'w QuotaManager"
  producerInterval :: int
  minCheckInterval :: int

definition NewRepoProducer :: "'w RepositoryStore \<Rightarrow> 'w QuotaManager \<Rightarrow> int \<Rightarrow> int \<Rightarrow> 'w RepoProducer" where
  "NewRepoProducer store quota interval minInterval =
     \<lparr>prStore = store, prQuota = quota, producerInterval = interval, minCheckInterval = minInterval\<rparr>"

fun send_repos :: "'w repo_queue \<Rightarrow> Repository list \<Rightarrow> ('w, unit) state" where
  "send_repos q [] = ret ()"
| "send_repos q (r # repos) = do { sent \<leftarrow> qSend q r; if sent then send_repos q repos else ret () }"

definition Produce :: "'w RepoProducer \<Rightarrow> 'w repo_queue \<Rightarrow> ('w, unit) state" where
  "Produce p q = do {
     rps \<leftarrow> qRefresh (prQuota p);
     if rps = 0 then ret ()
     else do {
       room \<leftarrow> qRoom q;
       let batchSize = min \<lceil>round64 (rps * Seconds (producerInterval p))\<rceil> room;
       if batchSize \<le> 0 then ret ()
       else do {
         claimed \<leftarrow> ClaimIdle (prStore p) (nat batchSize) (minCheckInterval p);
         case claimed of
           Inl err \<Rightarrow> ret ()
         | Inr repos \<Rightarrow> if repos = [] then ret () else send_repos q repos } } }"

section \<open>Workers and the scanner\<close>

text \<open>What a worker receives: \<open>Done\<close> when the context is, \<open>Closed\<close> when the queue is.\<close>

datatype received = Done | Closed | Received Repository

record 'w WorkerPool =
  wProcessor :: "'w RepoProcessor"
  wQuota :: "'w QuotaManager"
  workerCount :: int

definition NewWorkerPool :: "'w RepoProcessor \<Rightarrow> 'w QuotaManager \<Rightarrow> int \<Rightarrow> 'w WorkerPool" where
  "NewWorkerPool processor quota n = \<lparr>wProcessor = processor, wQuota = quota, workerCount = n\<rparr>"

text \<open>\<open>go i\<close> starts the goroutine of worker \<open>i\<close>.\<close>

definition workers_Start :: "'w WorkerPool \<Rightarrow> (nat \<Rightarrow> ('w, unit) state) \<Rightarrow> ('w, unit) state" where
  "workers_Start w go = for_each [0 ..< nat (workerCount w)] go"

text \<open>The loop of a worker, with the number of receives to unroll; \<open>None\<close> is a worker still
  running.\<close>

fun worker :: "nat \<Rightarrow> 'w WorkerPool \<Rightarrow> ('w, received) state \<Rightarrow> ('w, unit option) state" where
  "worker 0 w recv = ret None"
| "worker (Suc fuel) w recv = do {
     got \<leftarrow> recv;
     case got of
       Done \<Rightarrow> ret (Some ())
     | Closed \<Rightarrow> ret (Some ())
     | Received r \<Rightarrow> do {
         err \<leftarrow> qWait (wQuota w);
         case err of
           Some e \<Rightarrow> ret (Some ())
         | None \<Rightarrow> do { ProcessRepo (wProcessor w) r; worker fuel w recv } } }"

definition recover :: "'w RepositoryStore \<Rightarrow> ('w, unit) state" where
  "recover store = do { err \<leftarrow> RecoverStuckRepos store; ret () }"

text \<open>The producer's loop of \<open>Start\<close>: \<open>tick\<close> is \<open>True\<close> for a tick and \<open>False\<close> when the context is
  done; \<open>finish\<close> closes the queue and waits for the workers.\<close>

fun produce_loop :: "nat \<Rightarrow> ('w, bool) state \<Rightarrow> ('w, unit) state \<Rightarrow> ('w, unit) state \<Rightarrow> ('w, unit option) state" where
  "produce_loop 0 tick produce finish = ret None"
| "produce_loop (Suc fuel) tick produce finish = do {
     ticked \<leftarrow> tick;
     if ticked then do { produce; produce_loop fuel tick produce finish }
     else do { finish; ret (Some ()) } }"

record 'w Scanner =
  sStore :: "'w RepositoryStore"
  sProcessor :: "'w RepoProcessor"
  sProducer :: "'w RepoProducer"
  sWorkers :: "'w WorkerPool"
  sQuota :: "'w QuotaManager"

record ScannerConfig =
  ProducerInterval :: int
  MinInterval :: int
  QueueSize :: int
  Workers :: int
  SafetyBuffer :: float64

definition NewScanner ::
  "'w gorm_db \<Rightarrow> ('w, int) state \<Rightarrow> 'w services \<Rightarrow> 'w limiter \<Rightarrow> 'w Client \<Rightarrow> ('w, RateLimits) state option
     \<Rightarrow> ScannerConfig \<Rightarrow> 'w Scanner" where
  "NewScanner orm clk uuids bucket ghClient provider cfg =
     (let store = NewRepositoryStore orm clk;
          quota = NewQuotaManager clk bucket provider (SafetyBuffer cfg);
          processor = NewRepoProcessor store ghClient quota uuids
      in \<lparr>sStore = store, sProcessor = processor,
          sProducer = NewRepoProducer store quota (ProducerInterval cfg) (MinInterval cfg),
          sWorkers = NewWorkerPool processor quota (Workers cfg), sQuota = quota\<rparr>)"

definition scanner_Start ::
  "nat \<Rightarrow> 'w Scanner \<Rightarrow> 'w repo_queue \<Rightarrow> (nat \<Rightarrow> ('w, unit) state)
     \<Rightarrow> ('w, bool) state \<Rightarrow> ('w, unit) state \<Rightarrow> ('w, unit option) state" where
  "scanner_Start fuel s q go tick finish = do {
     recover (sStore s);
     workers_Start (sWorkers s) go;
     Produce (sProducer s) q;
     produce_loop fuel tick (Produce (sProducer s) q) finish }"

section \<open>The surroundings of a scan\<close>

text \<open>GitHub, the clock, the random source and the limiter do not touch the database.\<close>

locale repo_processor = scan_store "pStore p" view
  for p :: "'w RepoProcessor" and view :: "'w \<Rightarrow> 'v tables_scheme" +
  assumes http_view: "\<And>req w r w'. run (httpDo (pGh p) req) w = (r, w') \<Longrightarrow> view w' = view w"
    and clock_view: "\<And>w r w'. run (clientNow (pGh p)) w = (r, w') \<Longrightarrow> view w' = view w"
    and freeze_view: "\<And>w r w'. run (qFreeze (pQuota p)) w = (r, w') \<Longrightarrow> view w' = view w"
    and uuid_view: "\<And>w r w'. run (NewString (pServices p)) w = (r, w') \<Longrightarrow> view w' = view w"
    and utc_view: "\<And>w r w'. run (NowUTC (pServices p)) w = (r, w') \<Longrightarrow> view w' = view w"
    and utc_text: "\<And>w. valid_rfc3339 (fst (run (NowUTC (pServices p)) w))"

definition active_subs_of :: "nat \<Rightarrow> 'v tables_scheme \<Rightarrow> Subscription multiset" where
  "active_subs_of i v =
     mset (rows_where (\<lambda>s. RepositoryID s = i \<and> subStatus s = StatusActive) (subscriptions v))"

text \<open>A row of the outbox that tells one subscriber.\<close>

definition announces ::
  "(Envelope \<Rightarrow> goerror + 'p) \<Rightarrow> string \<Rightarrow> (Subscription \<Rightarrow> 'p) \<Rightarrow> Subscription \<Rightarrow> Row \<Rightarrow> bool" where
  "announces decode key payload sub row \<longleftrightarrow> RoutingKey row = key
     \<and> (\<exists>env. Payload row = marshal_Envelope env \<and> decodes_to decode (payload sub) key (Inr env))"

text \<open>An event that becomes such a row.\<close>

definition announced_by ::
  "(Envelope \<Rightarrow> goerror + 'p) \<Rightarrow> string \<Rightarrow> (Subscription \<Rightarrow> 'p) \<Rightarrow> Subscription \<Rightarrow> Event \<Rightarrow> bool" where
  "announced_by decode key payload sub ev \<longleftrightarrow> evRoutingKey ev = key
     \<and> decodes_to decode (payload sub) key (Inr (evEnvelope ev))"

lemma announced_rows:
  assumes "list_all2 (announced_by d k pl) subs evs" and "all_assigned xs (map new_row evs) rows"
  shows "list_all2 (announces d k pl) subs rows"
proof -
  have "announces d k pl s r" if "announced_by d k pl s ev" "assigned xs (new_row ev) r" for s ev r
    using that by (auto simp: announces_def announced_by_def assigned_def new_row_def)
  then show ?thesis
    using assms unfolding all_assigned_def list.rel_map by (auto simp: list_all2_conv_all_nth)
qed

lemma announced_none [simp]: "list_all2 (announced_by d k pl) [] evs = (evs = [])"
  by (cases evs) simp_all

lemma queued_rows:
  assumes "queued evs v u" and "list_all2 (announced_by d k pl) subs evs"
  shows "\<exists>rows. list_all2 (announces d k pl) subs rows \<and> u = outbox_rows_update (\<lambda>xs. xs @ rows) v"
proof (cases "evs = []")
  case True
  then show ?thesis using assms by (intro exI[of _ "[]"]) (simp add: queued_def)
next
  case False
  then obtain rows where "all_assigned (outbox_rows v) (map new_row evs) rows"
    and "u = outbox_rows_update (\<lambda>xs. xs @ rows) v"
    using assms(1) by (auto simp: queued_def)
  then show ?thesis using announced_rows[OF assms(2)] by blast
qed

context repo_processor begin

lemma envelope_view:
  assumes "run (newEnvelope (pServices p) t (Inr j)) w = (r, w')"
  shows "view w' = view w" "\<exists>env. r = Inr env \<and> EnvType env = t"
  using assms by (auto simp: newEnvelope_def dest!: uuid_view utc_view split: prod.splits)

lemma build_events_run:
  assumes "run (build_events build subs) w = (evs, w')"
    and build: "\<And>s w r w'. run (build s) w = (r, w') \<Longrightarrow> view w' = view w \<and> decodes_to d (pl s) k r"
  shows "view w' = view w \<and> list_all2 (announced_by d k pl) subs evs"
  using assms(1)
proof (induction subs arbitrary: w w' evs)
  case Nil
  then show ?case by simp
next
  case (Cons s subs)
  obtain b w1 where 1: "run (build s) w = (b, w1)" by (rule prod.exhaust)
  obtain es w2 where 2: "run (build_events build subs) w1 = (es, w2)" by (rule prod.exhaust)
  have b: "view w1 = view w" "decodes_to d (pl s) k b" using build[OF 1] by simp_all
  then obtain env where env: "b = Inr env" "EnvType env = k" by (auto simp: decodes_to_def split: sum.splits)
  have "evs = \<lparr>evRoutingKey = k, evEnvelope = env\<rparr> # es" "w' = w2"
    using Cons.prems 1 2 env by (simp_all add: outbox_New_def)
  with Cons.IH[OF 2] b env show ?case by (simp add: announced_by_def)
qed

lemma release_events:
  assumes "run (build_events (\<lambda>s. NewReleaseDetected (pServices p) (release_detected repo tag s)) subs) w = (evs, w')"
  shows "view w' = view w \<and> list_all2 (announced_by DecodeReleaseDetected RoutingKeyReleaseDetected
      (release_detected repo tag)) subs evs"
proof (rule build_events_run[OF assms])
  fix s w r w'
  assume r: "run (NewReleaseDetected (pServices p) (release_detected repo tag s)) w = (r, w')"
  then have "decodes_to DecodeReleaseDetected (release_detected repo tag s) RoutingKeyReleaseDetected
      (fst (run (NewReleaseDetected (pServices p) (release_detected repo tag s)) w))"
    using events_decode[OF utc_text] by blast
  then show "view w' = view w \<and> decodes_to DecodeReleaseDetected (release_detected repo tag s) RoutingKeyReleaseDetected r"
    using r envelope_view(1) by (simp add: NewReleaseDetected_def)
qed

end

context repo_processor begin

lemma moved_events:
  assumes "run (build_events (\<lambda>s. NewRepositoryMoved (pServices p) (repository_moved repo s)) subs) w = (evs, w')"
  shows "view w' = view w \<and> list_all2 (announced_by DecodeRepositoryMoved RoutingKeyRepositoryMoved
      (repository_moved repo)) subs evs"
proof (rule build_events_run[OF assms])
  fix s w r w'
  assume r: "run (NewRepositoryMoved (pServices p) (repository_moved repo s)) w = (r, w')"
  then have "decodes_to DecodeRepositoryMoved (repository_moved repo s) RoutingKeyRepositoryMoved
      (fst (run (NewRepositoryMoved (pServices p) (repository_moved repo s)) w))"
    using events_decode[OF utc_text] by blast
  then show "view w' = view w \<and> decodes_to DecodeRepositoryMoved (repository_moved repo s) RoutingKeyRepositoryMoved r"
    using r envelope_view(1) by (simp add: NewRepositoryMoved_def)
qed

lemma client_get_view:
  "run (client_get (pGh p) endpoint etag zero handler) w = (r, w') \<Longrightarrow> view w' = view w"
  by (auto simp: client_get_def Let_def dest!: http_view clock_view split: option.splits prod.splits sum.splits)

lemma github_view:
  "run (GetRepository (pGh p) owner name etag) w = (r, w') \<Longrightarrow> view w' = view w"
  "run (GetLatestRelease (pGh p) owner name etag) w = (q, w') \<Longrightarrow> view w' = view w"
  using client_get_view by (simp_all add: GetRepository_def GetLatestRelease_def)

lemma handleNewRelease_run:
  assumes "run (GetActiveSubscriptions (pStore p) (ID repo)) w = (found, w1)"
    and "run (handleNewRelease p repo latest) w = (evs, w')"
  shows "view w' = view w
    \<and> (case found of
         Inl e \<Rightarrow> evs = []
       | Inr subs \<Rightarrow> mset subs = active_subs_of (ID repo) (view w)
           \<and> list_all2 (announced_by DecodeReleaseDetected RoutingKeyReleaseDetected
               (release_detected repo (lrTagName latest))) subs evs)"
proof (cases found)
  case (Inl e)
  then show ?thesis using assms active_subs[OF assms(1)] by (auto simp: handleNewRelease_def)
next
  case (Inr subs)
  then have "run (build_events (\<lambda>s. NewReleaseDetected (pServices p)
      (release_detected repo (lrTagName latest) s)) subs) w1 = (evs, w')"
    using assms by (simp add: handleNewRelease_def)
  from release_events[OF this] active_subs[OF assms(1)] Inr show ?thesis
    by (simp add: active_subs_of_def)
qed

text \<open>The rest of a scan after its events are built.\<close>

lemma status_written:
  assumes "run (UpdateScanStatus (pStore p) repo evs) w = (r, w')"
    and "list_all2 (announced_by d k pl) subs evs"
  shows "view w' = view w \<or> (\<exists>t rows. list_all2 (announces d k pl) subs rows
      \<and> view w' = outbox_rows_update (\<lambda>xs. xs @ rows)
          (repositories_update (update_where (\<lambda>r. ID r = ID repo) (scanned repo t)) (view w)))"
  using update_status[OF assms(1)] queued_rows[OF _ assms(2)] by (auto split: if_splits)

end

text \<open>The state after a scan has been recorded, with the rows it queues.\<close>

definition recorded :: "Repository \<Rightarrow> int \<Rightarrow> Row list \<Rightarrow> 'v tables_scheme \<Rightarrow> 'v tables_scheme" where
  "recorded repo t rows v = outbox_rows_update (\<lambda>xs. xs @ rows)
     (repositories_update (update_where (\<lambda>r. ID r = ID repo) (scanned repo t)) v)"

text \<open>GitHub's first answer confirms the repository.\<close>

definition confirmed :: "Repository \<Rightarrow> gh_repository Response \<Rightarrow> bool" where
  "confirmed repo resp \<longleftrightarrow> rStatusCode resp = 304
     \<or> (rStatusCode resp = 200 \<and> ghID (rData resp) = repoGitHubID repo)"

context repo_processor begin

lemma new_release_run:
  assumes "run (GetRepository (pGh p) (Owner repo) (Name repo) (repoETag repo)) w = (resp, w1)"
    and "confirmed repo resp"
    and "run (GetLatestRelease (pGh p) (Owner repo) (Name repo) (relETag (LastRelease repo))) w1 = (rel, w2)"
    and "rStatusCode rel = 200" and "lrTagName (rData rel) \<noteq> TagName (LastRelease repo)"
    and "run (GetActiveSubscriptions (pStore p) (ID repo)) w2 = (found, w3)"
    and "run (ProcessRepo p repo) w = ((), w')"
  shows "view w' = view w \<or> (\<exists>repo' t rows. ID repo' = ID repo
      \<and> TagName (LastRelease repo') = lrTagName (rData rel) \<and> view w' = recorded repo' t rows (view w)
      \<and> (case found of
           Inl e \<Rightarrow> rows = []
         | Inr subs \<Rightarrow> mset subs = active_subs_of (ID repo) (view w)
             \<and> list_all2 (announces DecodeReleaseDetected RoutingKeyReleaseDetected
                 (release_detected repo (lrTagName (rData rel)))) subs rows))"
proof -
  define mid where "mid = (if rStatusCode resp = 200 then repo\<lparr>repoETag := rETag resp\<rparr> else repo)"
  have mid: "ID mid = ID repo" "Owner mid = Owner repo" "Name mid = Name repo" "LastRelease mid = LastRelease repo"
    by (simp_all add: mid_def)
  obtain evs w4 where 4: "run (handleNewRelease p mid (rData rel)) w2 = (evs, w4)" by (rule prod.exhaust)
  define end_repo where "end_repo = set_release_etag (set_release mid (rData rel)) (rETag rel)"
  have end_repo: "ID end_repo = ID repo" "TagName (LastRelease end_repo) = lrTagName (rData rel)"
    by (simp_all add: end_repo_def set_release_etag_def set_release_def mid)
  obtain r w5 where 5: "run (UpdateScanStatus (pStore p) end_repo evs) w4 = (r, w5)" by (rule prod.exhaust)
  have check: "run (check_release p mid) w1 = ((end_repo, evs), w4)"
    using assms(3-5) 4 by (simp add: check_release_def mid end_repo_def Let_def)
  have "run (scan_repo p repo) w = ((end_repo, evs), w4)"
    using assms(1,2) check by (auto simp: scan_repo_def confirmed_def mid_def Let_def)
  then have w': "w' = w5" using assms(7) 5 by (simp add: ProcessRepo_def)
  have v: "view w2 = view w" using github_view assms(1,3) by metis
  have path: "release_detected mid = release_detected repo"
    by (simp add: release_detected_def[abs_def] repo_path_def mid)
  have found: "view w4 = view w
    \<and> (case found of
         Inl e \<Rightarrow> evs = []
       | Inr subs \<Rightarrow> mset subs = active_subs_of (ID repo) (view w)
           \<and> list_all2 (announced_by DecodeReleaseDetected RoutingKeyReleaseDetected
               (release_detected repo (lrTagName (rData rel)))) subs evs)"
    using handleNewRelease_run[of mid, OF _ 4] assms(6) v path mid by (simp cong: sum.case_cong)
  let ?ann = "announced_by DecodeReleaseDetected RoutingKeyReleaseDetected (release_detected repo (lrTagName (rData rel)))"
  define told where "told = (case found of Inl e \<Rightarrow> [] | Inr subs \<Rightarrow> subs)"
  have "list_all2 ?ann told evs" using found by (auto simp: told_def split: sum.splits)
  from status_written[OF 5 this] found end_repo w' show ?thesis
    by (auto simp: recorded_def told_def split: sum.splits) metis+
qed

end

text \<open>The step that ends the subscriptions of a moved repository.\<close>

definition ends_subs :: "Repository \<Rightarrow> 'v tables_scheme \<Rightarrow> 'v tables_scheme \<Rightarrow> bool" where
  "ends_subs repo v u \<longleftrightarrow>
     subscriptions u = update_where (\<lambda>s. RepositoryID s = ID repo) (\<lambda>s. s\<lparr>subStatus := StatusUnsubscribed\<rparr>)
       (subscriptions v)
   \<and> sagas u = sagas v
   \<and> (\<exists>subs rows. mset subs = active_subs_of (ID repo) v \<and> outbox_rows u = outbox_rows v @ rows
        \<and> list_all2 (announces DecodeRepositoryMoved RoutingKeyRepositoryMoved (repository_moved repo)) subs rows)"

context repo_processor begin

lemma handleNewRelease_view:
  assumes "run (handleNewRelease p repo latest) w = (evs, w')"
  shows "view w' = view w"
  using handleNewRelease_run[OF _ assms] surjective_pairing by metis

lemma check_release_run:
  assumes "run (check_release p repo) w = ((repo', evs), w')"
  shows "view w' = view w \<and> ID repo' = ID repo"
proof -
  obtain rel w1 where 1: "run (GetLatestRelease (pGh p) (Owner repo) (Name repo) (relETag (LastRelease repo))) w = (rel, w1)"
    by (rule prod.exhaust)
  have "view w1 = view w" by (rule github_view(2)[OF 1])
  then show ?thesis
    using assms 1
    by (auto simp: check_release_def Let_def set_release_etag_def set_release_def
        dest!: handleNewRelease_view freeze_view split: if_splits prod.splits)
qed

lemma handleRepoMoved_run:
  assumes "run (handleRepoMoved p repo) w = (r, w')"
  shows "view w' = view w \<or> ends_subs repo (view w) (view w')"
proof -
  obtain found w1 where 1: "run (GetActiveSubscriptions (pStore p) (ID repo)) w = (found, w1)"
    by (rule prod.exhaust)
  show ?thesis
  proof (cases found)
    case (Inl e)
    then show ?thesis using assms 1 active_subs[OF 1] by (simp add: handleRepoMoved_def)
  next
    case (Inr subs)
    obtain evs w2 where 2: "run (build_events (\<lambda>s. NewRepositoryMoved (pServices p) (repository_moved repo s)) subs) w1
        = (evs, w2)" by (rule prod.exhaust)
    obtain q w3 where 3: "run (MarkMovedAndUnsubscribe (pStore p) repo evs) w2 = (q, w3)" by (rule prod.exhaust)
    have w': "w' = w3" using assms 1 2 3 Inr by (simp add: handleRepoMoved_def)
    have evs: "list_all2 (announced_by DecodeRepositoryMoved RoutingKeyRepositoryMoved (repository_moved repo)) subs evs"
      and v: "view w2 = view w" and subs: "mset subs = active_subs_of (ID repo) (view w)"
      using moved_events[OF 2] active_subs[OF 1] Inr by (simp_all add: active_subs_of_def)
    show ?thesis
    proof (cases q)
      case None
      then obtain t where "queued evs (moved repo t (view w)) (view w3)"
        using mark_moved[OF 3] v by auto
      then obtain rows where "list_all2 (announces DecodeRepositoryMoved RoutingKeyRepositoryMoved (repository_moved repo)) subs rows"
        "view w3 = outbox_rows_update (\<lambda>xs. xs @ rows) (moved repo t (view w))"
        using queued_rows[OF _ evs] by blast
      then show ?thesis using subs unfolding w' by (auto simp: ends_subs_def moved_def)
    next
      case (Some e)
      with mark_moved[OF 3] v consider "view w3 = view w"
        | "evs = []" "view w3 = subscriptions_update (update_where (\<lambda>s. RepositoryID s = ID repo)
             (\<lambda>s. s\<lparr>subStatus := StatusUnsubscribed\<rparr>)) (view w)"
        by auto
      then show ?thesis
        using evs subs unfolding w' by cases (auto simp: ends_subs_def)
    qed
  qed
qed

lemma scan_repo_run:
  assumes "run (GetRepository (pGh p) (Owner repo) (Name repo) (repoETag repo)) w = (resp, w1)"
    and "run (scan_repo p repo) w = ((repo', evs), w')"
  shows "ID repo' = ID repo
    \<and> (view w' = view w
       \<or> evs = [] \<and> rStatusCode resp = 200 \<and> ghID (rData resp) \<noteq> repoGitHubID repo \<and> ends_subs repo (view w) (view w'))"
  using assms github_view(1)[OF assms(1)]
  by (auto simp: scan_repo_def Let_def dest!: check_release_run freeze_view handleRepoMoved_run
      split: if_splits prod.splits)

lemma status_keeps:
  assumes "run (UpdateScanStatus (pStore p) repo evs) w = (r, w')"
  shows "subscriptions (view w') = subscriptions (view w)" "sagas (view w') = sagas (view w)"
    "evs = [] \<Longrightarrow> outbox_rows (view w') = outbox_rows (view w)"
  using update_status[OF assms] by (auto simp: queued_def split: if_splits)

lemma only_moved_ends:
  assumes "run (GetRepository (pGh p) (Owner repo) (Name repo) (repoETag repo)) w = (resp, w1)"
    and "run (ProcessRepo p repo) w = ((), w')" and "subscriptions (view w') \<noteq> subscriptions (view w)"
  shows "rStatusCode resp = 200 \<and> ghID (rData resp) \<noteq> repoGitHubID repo \<and> ends_subs repo (view w) (view w')"
proof -
  obtain repo' evs w2 where 2: "run (scan_repo p repo) w = ((repo', evs), w2)" by (metis prod.exhaust)
  obtain r w3 where 3: "run (UpdateScanStatus (pStore p) repo' evs) w2 = (r, w3)" by (rule prod.exhaust)
  have "w' = w3" using assms(2) 2 3 by (simp add: ProcessRepo_def)
  then show ?thesis
    using scan_repo_run[OF assms(1) 2] status_keeps[OF 3] assms(3) by (auto simp: ends_subs_def)
qed

end

section \<open>Claims\<close>

lemma rows_where_mem: "x \<in> set (rows_where P xs) \<longleftrightarrow> x \<in> set xs \<and> live x \<and> P x"
  by (auto simp: rows_where_def)

context scan_store begin

text \<open>What a claim hands out.\<close>

lemma claimed:
  assumes run: "run (ClaimIdle RS n d) w = (Inr xs, w')"
  shows "length xs \<le> n \<and> distinct (map ID xs)
    \<and> (\<forall>x \<in> set xs. x \<in> set (repositories (view w')) \<and> live x \<and> repoStatus x = StatusProcessing
         \<and> (\<exists>r \<in> set (repositories (view w)). live r \<and> ID r = ID x \<and> repoStatus r = StatusIdle))"
proof -
  obtain cutoff ids where c: "claims n cutoff ids (view w) (view w')"
    and xs: "xs = [] \<or> mset xs = mset (rows_where (\<lambda>r. ID r \<in> set ids) (repositories (view w')))"
    using claim_idle[OF run] by auto
  show ?thesis
  proof (cases "xs = []")
    case False
    then have m: "mset xs = mset (rows_where (\<lambda>r. ID r \<in> set ids) (repositories (view w')))"
      and s: "set xs = set (rows_where (\<lambda>r. ID r \<in> set ids) (repositories (view w')))"
      using xs mset_eq_setD by auto
    have ne: "ids \<noteq> []" using False s by (auto simp: rows_where_def)
    obtain zs t where zs: "ids = map ID zs" "length zs \<le> n"
      and due: "mset zs \<subseteq># mset (rows_where (due cutoff) (repositories (view w)))"
      and ok: "db_ok (view w')"
      and u: "view w' = repositories_update (update_where (\<lambda>r. ID r \<in> set ids)
                 (\<lambda>r. r\<lparr>repoStatus := StatusProcessing, LastScannedAt := Some t\<rparr>)) (view w)"
      using c unfolding claims_def if_not_P[OF ne] by blast
    have zs_due: "set zs \<subseteq> set (rows_where (due cutoff) (repositories (view w)))"
      using set_mset_mono[OF due] by simp
    have "mset (map ID xs) = mset (map ID (rows_where (\<lambda>r. ID r \<in> set ids) (repositories (view w'))))"
      using m by simp
    moreover have "distinct (map ID (rows_where (\<lambda>r. ID r \<in> set ids) (repositories (view w'))))"
      using ok by (simp add: db_ok_def rows_where_def distinct_map_filter)
    ultimately have dist: "distinct (map ID xs)" using mset_eq_imp_distinct_iff by blast
    have "set (map ID xs) \<subseteq> set ids" using s by (auto simp: rows_where_def)
    then have "length (map ID xs) \<le> length ids"
      using distinct_card[OF dist] card_mono[of "set ids" "set (map ID xs)"] card_length[of ids] by simp
    then have "length xs \<le> n" using zs by simp
    moreover have "x \<in> set (repositories (view w')) \<and> live x \<and> repoStatus x = StatusProcessing
         \<and> (\<exists>r \<in> set (repositories (view w)). live r \<and> ID r = ID x \<and> repoStatus r = StatusIdle)"
      if "x \<in> set xs" for x
    proof -
      have x: "x \<in> set (repositories (view w'))" "live x" "ID x \<in> set ids"
        using that unfolding s rows_where_mem by simp_all
      then obtain r where r: "r \<in> set (repositories (view w))"
        "x = (if live r \<and> ID r \<in> set ids then r\<lparr>repoStatus := StatusProcessing, LastScannedAt := Some t\<rparr> else r)"
        unfolding u update_where_def by auto
      then have x': "x = r\<lparr>repoStatus := StatusProcessing, LastScannedAt := Some t\<rparr>"
        using x by (auto split: if_splits)
      obtain z where "z \<in> set zs" "ID z = ID x" using x(3) zs(1) by auto
      then have "\<exists>r \<in> set (repositories (view w)). live r \<and> ID r = ID x \<and> repoStatus r = StatusIdle"
        using zs_due by (auto simp: rows_where_def due_def)
      then show ?thesis using x x' by simp
    qed
    ultimately show ?thesis using dist by blast
  qed simp
qed

end

text \<open>
  C32: Every repository of a claim was idle and is now marked as being processed, at most the asked
  number is handed out, and none twice; as long as they stay marked, no other claim hands any
  of them out.
\<close>

theorem claims_are_exclusive:
  assumes "scan_store RS view" and "run (ClaimIdle RS n d) w = (Inr xs, w1)"
    and "run (ClaimIdle RS n' d') w2 = (Inr ys, w3)" and "distinct (map ID (repositories (view w2)))"
    and "set xs \<subseteq> set (repositories (view w2))"
  shows "length xs \<le> n \<and> distinct (map ID xs) \<and> (\<forall>x \<in> set xs. repoStatus x = StatusProcessing)
    \<and> ID ` set xs \<inter> ID ` set ys = {}"
proof -
  have "ID x \<noteq> ID y" if x: "x \<in> set xs" and y: "y \<in> set ys" for x y
  proof
    assume eq: "ID x = ID y"
    obtain r where r: "r \<in> set (repositories (view w2))" "ID r = ID y" "repoStatus r = StatusIdle"
      using scan_store.claimed[OF assms(1,3)] y by blast
    then have "r = x" using assms(4,5) x eq by (metis inj_onD distinct_map subsetD)
    then show False
      using scan_store.claimed[OF assms(1,2)] x r(3) by (auto simp: StatusIdle_def StatusProcessing_def)
  qed
  then show ?thesis using scan_store.claimed[OF assms(1,2)] by auto
qed

section \<open>The producer\<close>

locale repo_producer = scan_store "prStore p" view
  for p :: "'w RepoProducer" and view :: "'w \<Rightarrow> 'v tables_scheme" +
  fixes q :: "'w repo_queue" and sent :: "'w \<Rightarrow> Repository list" and room :: "'w \<Rightarrow> int"
  assumes refresh: "\<And>w r w'. run (qRefresh (prQuota p)) w = (r, w') \<Longrightarrow>
      view w' = view w \<and> sent w' = sent w \<and> room w' = room w"
    and claim_queue: "\<And>n d w r w'. run (ClaimIdle (prStore p) n d) w = (r, w') \<Longrightarrow>
      sent w' = sent w \<and> room w' = room w"
    and queue_room: "\<And>w k w'. run (qRoom q) w = (k, w') \<Longrightarrow>
      k = room w \<and> view w' = view w \<and> sent w' = sent w \<and> room w' = room w"
    and queue_send: "\<And>x w ok w'. run (qSend q x) w = (ok, w') \<Longrightarrow> view w' = view w
      \<and> (if ok then sent w' = sent w @ [x] \<and> room w' = room w - 1
         else sent w' = sent w \<and> room w' = room w)"

context repo_producer begin

lemma send_repos_run:
  assumes "run (send_repos q repos) w = (r, w')"
  shows "\<exists>k. sent w' = sent w @ take k repos \<and> room w' = room w - int (length (take k repos)) \<and> view w' = view w"
  using assms
proof (induction repos arbitrary: w)
  case Nil
  then show ?case by simp
next
  case (Cons x repos)
  obtain ok w1 where 1: "run (qSend q x) w = (ok, w1)" by (rule prod.exhaust)
  show ?case
  proof (cases ok)
    case True
    then have "run (send_repos q repos) w1 = (r, w')" using Cons.prems 1 by simp
    from Cons.IH[OF this] obtain k where "sent w' = sent w1 @ take k repos"
      "room w' = room w1 - int (length (take k repos))" "view w' = view w1" by blast
    then show ?thesis using queue_send[OF 1] True by (intro exI[of _ "Suc k"]) simp
  next
    case False
    then show ?thesis using Cons.prems 1 queue_send[OF 1] by (intro exI[of _ 0]) simp
  qed
qed

lemma Produce_run:
  assumes run: "run (Produce p q) w = (r, w')" and "0 \<le> room w"
  shows "\<exists>new. sent w' = sent w @ new \<and> room w' = room w - int (length new) \<and> 0 \<le> room w'
    \<and> distinct (map ID new)
    \<and> (\<forall>x \<in> set new. x \<in> set (repositories (view w')) \<and> live x \<and> repoStatus x = StatusProcessing
         \<and> (\<exists>r \<in> set (repositories (view w)). live r \<and> ID r = ID x \<and> repoStatus r = StatusIdle))"
    (is "\<exists>new. ?Q new")
proof -
  obtain rps w1 where 1: "run (qRefresh (prQuota p)) w = (rps, w1)" by (rule prod.exhaust)
  obtain k w2 where 2: "run (qRoom q) w1 = (k, w2)" by (rule prod.exhaust)
  let ?n = "min \<lceil>round64 (rps * Seconds (producerInterval p))\<rceil> k"
  obtain c w3 where 3: "run (ClaimIdle (prStore p) (nat ?n) (minCheckInterval p)) w2 = (c, w3)" by (rule prod.exhaust)
  have v2: "view w2 = view w" "sent w2 = sent w" "room w2 = room w" "k = room w"
    using refresh[OF 1] queue_room[OF 2] by simp_all
  have idle: "?Q []" if "w' \<in> {w1, w2, w3}"
    using that refresh[OF 1] v2 claim_queue[OF 3] assms(2) by auto
  show ?thesis
  proof (cases "rps = 0 \<or> ?n \<le> 0 \<or> (\<forall>repos. c = Inr repos \<longrightarrow> repos = [])")
    case True
    have "w' \<in> {w1, w2, w3}"
      using True run 1 2 3 unfolding Produce_def by (cases c) (auto simp: Let_def split: if_splits)
    then show ?thesis using idle by blast
  next
    case False
    then obtain repos where c: "c = Inr repos" and "rps \<noteq> 0" and n: "\<not> ?n \<le> 0" and "repos \<noteq> []" by blast
    then have "run (send_repos q repos) w3 = (r, w')"
      using run 1 2 3 unfolding Produce_def by (auto simp: Let_def split: if_splits)
    then obtain j where j: "sent w' = sent w3 @ take j repos"
      "room w' = room w3 - int (length (take j repos))" "view w' = view w3" using send_repos_run by blast
    have cl: "length repos \<le> nat ?n" "distinct (map ID repos)"
      "\<forall>x \<in> set repos. x \<in> set (repositories (view w3)) \<and> live x \<and> repoStatus x = StatusProcessing
         \<and> (\<exists>r \<in> set (repositories (view w2)). live r \<and> ID r = ID x \<and> repoStatus r = StatusIdle)"
      using claimed[of _ _ _ repos] 3 c by blast+
    have "int (length (take j repos)) \<le> room w" using cl(1) n v2 by simp
    moreover have "distinct (map ID (take j repos))" using cl(2) by (simp flip: take_map)
    ultimately have "?Q (take j repos)"
      using j cl(3) v2 claim_queue[OF 3] in_set_takeD[of _ j repos] by auto
    then show ?thesis by blast
  qed
qed

end

text \<open>
  C33: What the producer puts on the queue fits what was free of it, so a send never has to wait for
  a worker; it queues no repository twice, and each of them was idle and is marked as being
  processed.
\<close>

theorem producer_fits_queue:
  assumes "repo_producer p view q sent room" and "run (Produce p q) w = ((), w')" and "0 \<le> room w"
  shows "\<exists>new. sent w' = sent w @ new \<and> room w' = room w - int (length new) \<and> 0 \<le> room w'
    \<and> distinct (map ID new)
    \<and> (\<forall>x \<in> set new. x \<in> set (repositories (view w')) \<and> live x \<and> repoStatus x = StatusProcessing
         \<and> (\<exists>r \<in> set (repositories (view w)). live r \<and> ID r = ID x \<and> repoStatus r = StatusIdle))"
  by (rule repo_producer.Produce_run[OF assms])

section \<open>The theorems of the processor\<close>



text \<open>
  C12: A scan changes subscriptions only when GitHub's answer names another repository: then those
  of the repository, and no others, are ended, and every active one of them has its
  \<open>repository.moved\<close> row queued with it.
\<close>

theorem only_moved_repository_ends_subscriptions:
  assumes "repo_processor p view"
    and "run (GetRepository (pGh p) (Owner repo) (Name repo) (repoETag repo)) w = (resp, w1)"
    and "run (ProcessRepo p repo) w = ((), w')" and "subscriptions (view w') \<noteq> subscriptions (view w)"
  shows "rStatusCode resp = 200 \<and> ghID (rData resp) \<noteq> repoGitHubID repo \<and> ends_subs repo (view w) (view w')"
  by (rule repo_processor.only_moved_ends[OF assms])

section \<open>An answer that does not decode\<close>

context repo_processor begin

lemma build_events_up:
  assumes "reliably up (NewString (pServices p)) (\<lambda>_. True)" and "reliably up (NowUTC (pServices p)) (\<lambda>_. True)"
    and "run (build_events (\<lambda>s. NewRepositoryMoved (pServices p) (repository_moved repo s)) subs) w = (evs, w')"
    and "up w"
  shows "up w'"
  using assms(3,4)
proof (induction subs arbitrary: w evs)
  case Nil
  then show ?case by simp
next
  case (Cons s subs)
  obtain b w1 where 1: "run (NewRepositoryMoved (pServices p) (repository_moved repo s)) w = (b, w1)" by (rule prod.exhaust)
  obtain es w2 where 2: "run (build_events (\<lambda>s. NewRepositoryMoved (pServices p) (repository_moved repo s)) subs) w1 = (es, w2)"
    by (rule prod.exhaust)
  have "up w1" using 1 Cons.prems(2) reliablyD(1)[OF assms(1)] reliablyD(1)[OF assms(2)]
    by (auto simp: NewRepositoryMoved_def newEnvelope_def split: prod.splits)
  moreover have "w2 = w'" using Cons.prems(1) 1 2 by simp
  ultimately show ?case using Cons.IH 2 by blast
qed

lemma moved_run:
  assumes "run (GetRepository (pGh p) (Owner repo) (Name repo) (repoETag repo)) w = (resp, w1)"
    and "rStatusCode resp = 200" and "ghID (rData resp) \<noteq> repoGitHubID repo"
    and "up w1" and "reliably up (NewString (pServices p)) (\<lambda>_. True)" and "reliably up (NowUTC (pServices p)) (\<lambda>_. True)"
    and "reliably up (GetActiveSubscriptions (pStore p) (ID repo)) (\<lambda>r. \<exists>subs. r = Inr subs)"
    and "\<And>evs. reliably up (MarkMovedAndUnsubscribe (pStore p) repo evs) (\<lambda>r. r = None)"
    and "run (ProcessRepo p repo) w = ((), w')"
  shows "subscriptions (view w') = update_where (\<lambda>s. RepositoryID s = ID repo) (\<lambda>s. s\<lparr>subStatus := StatusUnsubscribed\<rparr>)
      (subscriptions (view w)) \<and> (\<forall>r \<in> set (repositories (view w')). ID r = ID repo \<longrightarrow> \<not> live r)"
proof -
  obtain found w2 where 2: "run (GetActiveSubscriptions (pStore p) (ID repo)) w1 = (found, w2)" by (rule prod.exhaust)
  obtain subs where found: "found = Inr subs" and up2: "up w2" using reliablyD[OF assms(7) 2 assms(4)] by blast
  obtain evs w3 where 3: "run (build_events (\<lambda>s. NewRepositoryMoved (pServices p) (repository_moved repo s)) subs) w2
      = (evs, w3)" by (rule prod.exhaust)
  have "up w3" by (rule build_events_up[OF assms(5,6) 3 up2])
  moreover obtain q w4 where 4: "run (MarkMovedAndUnsubscribe (pStore p) repo evs) w3 = (q, w4)" by (rule prod.exhaust)
  ultimately have "q = None" using reliablyD(2)[OF assms(8)] by blast
  moreover have "view w3 = view w"
    using github_view(1)[OF assms(1)] active_subs[OF 2] moved_events[OF 3] by simp
  ultimately obtain t where "queued evs (moved repo t (view w)) (view w4)" using mark_moved[OF 4] by auto
  then have v4: "subscriptions (view w4) = subscriptions (moved repo t (view w))"
    "repositories (view w4) = repositories (moved repo t (view w))" by (auto simp: queued_def split: if_splits)
  obtain r w5 where 5: "run (UpdateScanStatus (pStore p) repo []) w4 = (r, w5)" by (rule prod.exhaust)
  have "w' = w5" using assms(1-3,9) 2 3 4 5 found
    by (simp add: ProcessRepo_def scan_repo_def handleRepoMoved_def)
  moreover have "\<not> live x" if "x \<in> set (repositories (view w4))" "ID x = ID repo" for x
    using that unfolding v4 by (auto simp: moved_def update_where_def soft_delete_def live_def split: if_splits)
  ultimately show ?thesis
    using update_status[OF 5] v4 unfolding moved_def
    by (auto simp: queued_def update_where_def scanned_def soft_delete_def live_def split: if_splits)
qed

end


section \<open>A scanner in memory\<close>

text \<open>GitHub answers with fixed bodies; the limiter and the random source are left out of the
  world.\<close>

definition mem_quota :: "mem_world QuotaManager" where
  "mem_quota = \<lparr>qRefresh = ret 2, qFreeze = ret (), qWait = ret None, qLimit = ret 2, qSetLimit = \<lambda>_. ret ()\<rparr>"

definition answering :: "int \<Rightarrow> string \<Rightarrow> string \<Rightarrow> mem_world Client" where
  "answering code repo_body release_body =
     \<lparr>httpDo = (\<lambda>req. ret (Inr \<lparr>resStatusCode = (if URL req = ''gh/repos/o/r'' then code else 200), resHeader = [],
        resBody = (if URL req = ''gh/repos/o/r'' then repo_body else release_body)\<rparr>)),
      newRequest = (\<lambda>_. None), clientNow = ret 0, parseDate = (\<lambda>_. None), BaseURL = ''gh''\<rparr>"

definition mem_processor :: "mem_world Client \<Rightarrow> mem_world RepoProcessor" where
  "mem_processor gh = \<lparr>pStore = NewRepositoryStore mem_gorm mem_now, pGh = gh, pQuota = mem_quota,
     pServices = \<lparr>NewString = ret ''id'', NowUTC = ret ''2026-01-31T23:59:59Z''\<rparr>\<rparr>"

lemma mem_processing: "repo_processor (mem_processor (answering code a b)) obs"
  by (intro repo_processor.intro repo_processor_axioms.intro)
     (simp_all add: mem_processor_def answering_def mem_quota_def mem_clock.scan.scan_store_axioms mem_now_text)

definition scan_row :: Repository where
  "scan_row = \<lparr>ID = 1, CreatedAt = 0, DeletedAt = None, repoGitHubID = 7, repoETag = '''',
       Owner = ''o'', Name = ''r'', LastRelease = \<lparr>relGitHubID = 0, TagName = ''v1'', relETag = ''''\<rparr>,
       repoStatus = StatusProcessing, LastScannedAt = None\<rparr>"

lemma scan_row_simps [simp]:
  "ID scan_row = 1" "Owner scan_row = ''o''" "Name scan_row = ''r''" "repoETag scan_row = ''''" "repoGitHubID scan_row = 7"
  "relETag (LastRelease scan_row) = ''''" "TagName (LastRelease scan_row) = ''v1''"
  by (simp_all add: scan_row_def)

definition scan_world :: mem_world where
  "scan_world = empty_world\<lparr>repositories := [scan_row],
     subscriptions := [\<lparr>ID = 1, CreatedAt = 0, DeletedAt = None, subEmail = ''a@b.c'', RepositoryID = 1,
       subStatus = StatusActive, ConfirmToken = ''c'', APIToken = ''t''\<rparr>]\<rparr>"

text \<open>What the fixed answers decode to.\<close>

definition release_body :: string where
  "release_body = json_print (JObj [(''id'', JNum ''9''), (''tag_name'', JStr ''v2'')])"

definition repo_body :: string where
  "repo_body = json_print (JObj [(''id'', JNum ''7'')])"

lemma first_answer:
  assumes "run (GetRepository (pGh (mem_processor (answering code a b))) ''o'' ''r'' etag) w = (resp, w1)"
  shows "w1 = w \<and> rStatusCode resp = code"
  using assms
  by (auto simp: GetRepository_def client_get_def answering_def mem_processor_def formatResponse_def Let_def
      split: prod.splits)

lemma second_answer:
  assumes "run (GetLatestRelease (pGh (mem_processor (answering code a b))) ''o'' ''r'' etag) w = (rel, w1)"
  shows "w1 = w \<and> rStatusCode rel = 200 \<and> rData rel = fst (decode_release
      \<lparr>resStatusCode = 200, resHeader = [], resBody = b\<rparr>)"
  using assms
  by (auto simp: GetLatestRelease_def client_get_def answering_def mem_processor_def formatResponse_def Let_def
      CreateStatusHandler_def split: prod.splits option.splits)

lemma release_body_decodes:
  "decode_release \<lparr>resStatusCode = 200, resHeader = [], resBody = release_body\<rparr>
     = (\<lparr>lrID = 9, lrTagName = ''v2'', lrURL = ''''\<rparr>, None)"
  by code_simp

lemma active_sub_found:
  assumes "run (GetActiveSubscriptions (pStore (mem_processor gh)) 1) scan_world = (found, w3)"
  shows "\<exists>s. found = Inr [s]"
  using assms by (auto simp: mem_processor_def NewRepositoryStore_def GetActiveSubscriptions_gorm_def mem_gorm_def
        mem_table_def read_call_def attempt_def scan_world_def empty_world_def rows_where_def live_def)


text \<open>In a database without faults the calls of the store succeed.\<close>

definition works :: "(mem_world, goerror option) state \<Rightarrow> bool" where
  "works m = reliably mem_up m (\<lambda>r. r = None)"

lemma works_and_then:
  assumes "works m" and "works k"
  shows "works (and_then m k)"
  unfolding works_def reliably_def
proof (intro allI impI)
  fix w r w'
  assume up: "mem_up w" and run: "run (and_then m k) w = (r, w')"
  obtain q w1 where 1: "run m w = (q, w1)" by (rule prod.exhaust)
  have q: "q = None" "mem_up w1" using assms(1) 1 up unfolding works_def reliably_def by blast+
  then have "run k w1 = (r, w')" using run 1 by (simp add: and_then_def)
  then show "mem_up w' \<and> r = None" using assms(2) q(2) unfolding works_def reliably_def by blast
qed

lemma mem_up_iff: "mem_up (w\<lparr>faults := [], clock := t\<rparr>) = db_ok w" "mem_up (w\<lparr>clock := t\<rparr>) = mem_up w"
  by (auto simp: mem_up_def)

lemma works_write:
  assumes "\<And>w. db_ok w \<Longrightarrow> db_ok (snd (f w))" and "\<And>w. faults (snd (f w)) = faults w"
  shows "works (do { r \<leftarrow> write_call f; ret (error_of r) })"
  unfolding works_def reliably_def
proof (intro allI impI)
  fix w r w'
  assume up: "mem_up w" and run: "run (do { r \<leftarrow> write_call f; ret (error_of r) }) w = (r, w')"
  define w1 where "w1 = w\<lparr>faults := [], clock := Suc (clock w)\<rparr>"
  obtain a w2 where w2: "f w1 = (a, w2)" by (rule prod.exhaust)
  have w1: "db_ok w1" "faults w1 = []" using up by (simp_all add: w1_def mem_up_def)
  then have "db_ok w2" "faults w2 = []" using assms[of w1] w2 by simp_all
  moreover have "r = None \<and> w' = w2" if "db_ok w2"
    using run up[unfolded mem_up_def] w2[unfolded w1_def] that
    by (auto simp: write_call_def attempt_def Let_def error_of_def)
  ultimately show "mem_up w' \<and> r = None" by (simp add: mem_up_def)
qed

lemma works_tx:
  assumes "works body"
  shows "works (Transaction mem_gorm body)"
  unfolding works_def reliably_def
proof (intro allI impI)
  fix w r w'
  assume up: "mem_up w" and run: "run (Transaction mem_gorm body) w = (r, w')"
  obtain q w2 where 2: "run body (w\<lparr>faults := [], clock := Suc (clock w)\<rparr>) = (q, w2)" by (rule prod.exhaust)
  have q: "q = None" "mem_up w2"
    using assms 2 up unfolding works_def reliably_def mem_up_def[of w] by (metis mem_up_iff(1))+
  then have "(r, w') = (None, w2\<lparr>faults := [], clock := Suc (clock w2)\<rparr>)"
    using run 2 up[unfolded mem_up_def] q(2)[unfolded mem_up_def] by (simp add: mem_gorm_def tx_of_option_def mem_tx_def attempt_def Let_def error_of_def)
  then show "mem_up w' \<and> r = None" using q(2) by (simp add: mem_up_def)
qed

lemma unique_live_update:
  assumes "\<And>r. key (f r) = key r" and "\<And>r. DeletedAt (f r) = DeletedAt r"
  shows "unique_live key (update_where P f xs) = unique_live key xs"
proof -
  have "map key (rows_where (\<lambda>_. True) (update_where P f xs)) = map key (rows_where (\<lambda>_. True) xs)"
    using assms by (induction xs) (auto simp: rows_where_def update_where_def live_def)
  then show ?thesis by (simp add: unique_live_def)
qed

lemma unique_live_delete: "unique_live key xs \<Longrightarrow> unique_live key (update_where P (soft_delete t) xs)"
proof -
  have "rows_where (\<lambda>_. True) (update_where P (soft_delete t) xs) = filter (\<lambda>r. \<not> P r) (rows_where (\<lambda>_. True) xs)"
    by (induction xs) (auto simp: rows_where_def update_where_def soft_delete_def live_def)
  then show "unique_live key xs \<Longrightarrow> ?thesis"
    by (simp add: unique_live_def distinct_map_filter)
qed

lemma update_where_ids:
  "(\<And>r. ID (f r) = ID r) \<Longrightarrow> map ID (update_where P f xs) = map ID xs"
  by (simp add: update_where_def)

lemma db_ok_end_subs:
  "db_ok w \<Longrightarrow> db_ok (subscriptions_update (update_where P (\<lambda>s. s\<lparr>subStatus := st\<rparr>)) w)"
  by (simp add: db_ok_def update_where_ids unique_live_update)

lemma db_ok_delete_repo:
  "db_ok w \<Longrightarrow> db_ok (repositories_update (update_where P (soft_delete t)) w)"
  by (simp add: db_ok_def unique_live_delete update_where_ids soft_delete_def)

lemma fresh_rows_distinct:
  "distinct (map ID xs) \<Longrightarrow> distinct (map ID (xs @ number_rows (fresh_id xs) t ys))"
  using fresh_id_fresh[of xs] by (auto simp: number_rows_ids) (metis atLeastLessThan_iff imageI number_rows_ids set_map set_upt)

lemma db_ok_queue:
  "db_ok w \<Longrightarrow> db_ok (outbox_rows_update (\<lambda>xs. xs @ number_rows (fresh_id (outbox_rows w)) t ys) w)"
  using fresh_rows_distinct[of "outbox_rows w" t ys] by (simp add: db_ok_def)

lemma works_insert: "works (InsertTx mem_gorm evs)"
proof (cases "evs = []")
  case False
  have "works (do { r \<leftarrow> write_call (\<lambda>w. let ys' = number_rows (fresh_id (outbox_rows w)) (int (clock w)) (map new_row evs)
      in (ys', outbox_rows_update (\<lambda>xs. xs @ ys') w)); ret (error_of r) })"
    by (intro works_write) (simp_all add: Let_def db_ok_queue)
  then show ?thesis using False by (simp add: InsertTx_def mem_gorm_def mem_table_def error_of_def)
qed (simp add: works_def reliably_def InsertTx_def)

lemma works_mark: "works (markMovedAndUnsubscribe mem_gorm repo)"
  unfolding markMovedAndUnsubscribe_def mem_gorm_def mem_table_def gorm_db.simps gtable.simps
  by (intro works_and_then works_write) (simp_all add: db_ok_end_subs db_ok_delete_repo)

lemma works_moved: "works (MarkMovedAndUnsubscribe (pStore (mem_processor gh)) repo evs)"
  by (auto simp: mem_processor_def NewRepositoryStore_def MarkMovedAndUnsubscribe_gorm_def
      intro: works_mark works_tx works_and_then works_insert)


lemma oops_does_not_decode:
  "decode_repository \<lparr>resStatusCode = 200, resHeader = [], resBody = ''oops''\<rparr>
     = (\<lparr>ghID = 0, ghFullName = ''''\<rparr>, Some (Err ''json''))"
  by code_simp

lemma oops_answer:
  assumes "run (GetRepository (pGh (mem_processor (answering 200 ''oops'' b))) ''o'' ''r'' etag) w = (resp, w1)"
  shows "w1 = w \<and> rStatusCode resp = 200 \<and> rError resp = Some (DecodingError ''json'') \<and> ghID (rData resp) = 0"
  using assms
  by (auto simp: GetRepository_def client_get_def answering_def mem_processor_def formatResponse_def Let_def
      CreateStatusHandler_def oops_does_not_decode split: prod.splits)

lemma scan_world_up: "mem_up scan_world"
  by (simp add: mem_up_def scan_world_def empty_world_def db_ok_def unique_live_def rows_where_def)

lemma mem_scan_up:
  "reliably mem_up (GetActiveSubscriptions (pStore (mem_processor gh)) i) (\<lambda>r. \<exists>subs. r = Inr subs)"
  "reliably mem_up (NewString (pServices (mem_processor gh))) (\<lambda>_. True)"
  "reliably mem_up (NowUTC (pServices (mem_processor gh))) (\<lambda>_. True)"
  "reliably mem_up (MarkMovedAndUnsubscribe (pStore (mem_processor gh)) repo evs) (\<lambda>r. r = None)"
proof -
  show "reliably mem_up (GetActiveSubscriptions (pStore (mem_processor gh)) i) (\<lambda>r. \<exists>subs. r = Inr subs)"
    by (auto simp: reliably_def mem_up_def mem_processor_def NewRepositoryStore_def
      GetActiveSubscriptions_gorm_def mem_gorm_def mem_table_def read_call_def attempt_def Let_def)
  show "reliably mem_up (MarkMovedAndUnsubscribe (pStore (mem_processor gh)) repo evs) (\<lambda>r. r = None)"
    using works_moved by (simp only: works_def)
qed (simp_all add: reliably_def mem_processor_def)


theorem only_moved_repository_ends_subscriptions_witness:
  "\<exists>w'. run (ProcessRepo (mem_processor (answering 200 ''oops'' '''')) scan_row) scan_world = ((), w')
     \<and> ends_subs scan_row (obs scan_world) (obs w')"
proof -
  let ?p = "mem_processor (answering 200 ''oops'' '''')"
  obtain resp w1 where 1: "run (GetRepository (pGh ?p) ''o'' ''r'' '''') scan_world = (resp, w1)" by (rule prod.exhaust)
  obtain w' where 4: "run (ProcessRepo ?p scan_row) scan_world = ((), w')" by (metis prod.exhaust old.unit.exhaust)
  have r: "run (GetRepository (pGh ?p) (Owner scan_row) (Name scan_row) (repoETag scan_row)) scan_world = (resp, w1)"
    and "rStatusCode resp = 200" and "ghID (rData resp) \<noteq> repoGitHubID scan_row" and "mem_up w1"
    using 1 oops_answer[OF 1] scan_world_up by simp_all
  from repo_processor.moved_run[OF mem_processing this mem_scan_up(2,3,1,4) 4]
  have "subscriptions (obs w') \<noteq> subscriptions (obs scan_world)"
    by (simp add: scan_world_def empty_world_def update_where_def live_def StatusActive_def StatusUnsubscribed_def)
  from only_moved_repository_ends_subscriptions[OF mem_processing r 4 this] 4 show ?thesis by blast
qed

text \<open>A database with one repository that is due.\<close>

definition idle_world :: mem_world where
  "idle_world = scan_world\<lparr>repositories := [scan_row\<lparr>repoStatus := StatusIdle\<rparr>]\<rparr>"

lemma idle_claim:
  "\<exists>t w'. run (ClaimIdle (NewRepositoryStore mem_gorm mem_now) 5 0) idle_world
     = (Inr [scan_row\<lparr>LastScannedAt := Some t\<rparr>], w') \<and> repositories w' = [scan_row\<lparr>LastScannedAt := Some t\<rparr>]
     \<and> faults w' = []"
  by (simp add: NewRepositoryStore_def ClaimIdle_gorm_def claim_repos_def mem_gorm_def mem_tx_def mem_table_def
      read_call_def write_call_def attempt_def mem_now_def Let_def idle_world_def scan_world_def empty_world_def
      scan_row_def rows_where_def live_def due_def by_nullable_def update_where_def db_ok_def unique_live_def)

theorem claims_are_exclusive_witness:
  "\<exists>xs w1 ys w3. run (ClaimIdle (NewRepositoryStore mem_gorm mem_now) 5 0) idle_world = (Inr xs, w1)
     \<and> run (ClaimIdle (NewRepositoryStore mem_gorm mem_now) 5 0) w1 = (Inr ys, w3)
     \<and> xs \<noteq> [] \<and> ID ` set xs \<inter> ID ` set ys = {}"
proof -
  obtain t w1 where 1: "run (ClaimIdle (NewRepositoryStore mem_gorm mem_now) 5 0) idle_world
      = (Inr [scan_row\<lparr>LastScannedAt := Some t\<rparr>], w1)"
    and w1: "repositories w1 = [scan_row\<lparr>LastScannedAt := Some t\<rparr>]" "faults w1 = []"
    using idle_claim by blast
  obtain c w3 where 2: "run (ClaimIdle (NewRepositoryStore mem_gorm mem_now) 5 0) w1 = (c, w3)" by (rule prod.exhaust)
  then have c: "c = Inr []" using w1
    by (auto simp: NewRepositoryStore_def ClaimIdle_gorm_def claim_repos_def mem_gorm_def mem_tx_def mem_table_def
      read_call_def attempt_def mem_now_def Let_def scan_row_def rows_where_def live_def due_def by_nullable_def
      StatusIdle_def StatusProcessing_def)
  from claims_are_exclusive[OF mem_clock.scan.scan_store_axioms 1 2[unfolded c]] w1
  have "ID ` set [scan_row\<lparr>LastScannedAt := Some t\<rparr>] \<inter> ID ` set [] = {}" by simp
  then show ?thesis using 1 2 c by blast
qed

text \<open>A world beside a queue: a computation on the one leaves the other alone.\<close>

definition on_fst :: "('w, 'a) state \<Rightarrow> ('w \<times> 'x, 'a) state" where
  "on_fst m = State (\<lambda>(w, x). case run m w of (a, w') \<Rightarrow> (a, (w', x)))"

lemma run_on_fst: "run (on_fst m) v = (a, v') \<longleftrightarrow> run m (fst v) = (a, fst v') \<and> snd v' = snd v"
  by (cases v; cases v') (auto simp: on_fst_def split: prod.splits)

definition lift_store :: "'w RepositoryStore \<Rightarrow> ('w \<times> 'x) RepositoryStore" where
  "lift_store S = \<lparr>RecoverStuckRepos = on_fst (RecoverStuckRepos S), ClaimIdle = \<lambda>n d. on_fst (ClaimIdle S n d),
     UpdateScanStatus = \<lambda>r es. on_fst (UpdateScanStatus S r es),
     GetActiveSubscriptions = \<lambda>i. on_fst (GetActiveSubscriptions S i),
     MarkMovedAndUnsubscribe = \<lambda>r es. on_fst (MarkMovedAndUnsubscribe S r es)\<rparr>"

lemma lift_scan_store:
  assumes "scan_store S view"
  shows "scan_store (lift_store S) (\<lambda>v. view (fst v))"
  by (unfold_locales; unfold lift_store_def RepositoryStore.simps run_on_fst; elim conjE;
      erule scan_store.recover[OF assms] scan_store.claim_idle[OF assms] scan_store.update_status[OF assms]
        scan_store.active_subs[OF assms] scan_store.mark_moved[OF assms])

text \<open>A queue of capacity five.\<close>

type_synonym queue_world = "mem_world \<times> Repository list"

definition queue_room :: "queue_world \<Rightarrow> int" where
  "queue_room v = 5 - int (length (snd v))"

definition mem_queue :: "queue_world repo_queue" where
  "mem_queue = \<lparr>qRoom = State (\<lambda>v. (queue_room v, v)), qSend = \<lambda>r. State (\<lambda>(w, xs). (True, (w, xs @ [r])))\<rparr>"

definition mem_producer :: "queue_world RepoProducer" where
  "mem_producer = \<lparr>prStore = lift_store (NewRepositoryStore mem_gorm mem_now),
     prQuota = \<lparr>qRefresh = ret 2, qFreeze = ret (), qWait = ret None, qLimit = ret 2, qSetLimit = \<lambda>_. ret ()\<rparr>,
     producerInterval = 10 * second, minCheckInterval = 0\<rparr>"

lemma lifted_store: "scan_store (prStore mem_producer) (\<lambda>v. obs (fst v))"
  by (simp add: mem_producer_def lift_scan_store mem_clock.scan.scan_store_axioms)

interpretation mem_production: repo_producer mem_producer "\<lambda>v. obs (fst v)" mem_queue snd queue_room
  by (intro repo_producer.intro repo_producer_axioms.intro)
     (auto simp: lifted_store, auto simp: mem_producer_def mem_queue_def queue_room_def lift_store_def run_on_fst)

theorem producer_fits_queue_witness:
  "\<exists>w' new. run (Produce mem_producer mem_queue) (idle_world, []) = ((), w') \<and> snd w' = new \<and> length new \<le> 5
     \<and> distinct (map ID new)"
proof -
  obtain w' where run: "run (Produce mem_producer mem_queue) (idle_world, []) = ((), w')"
    by (metis prod.exhaust old.unit.exhaust)
  show ?thesis
    using producer_fits_queue[OF mem_production.repo_producer_axioms run] run
    by (auto simp: queue_room_def)
qed

end
