(* ===== verification/Table_Steps.thy ===== *)
theory Table_Steps
  imports Saga_Flow Scanner
begin

text \<open>
  What may happen to the tables of the server, as an abstract transition system, and its
  invariants: a saga is settled at most once, a pending subscription always has a saga that was
  not compensated, and every row is well typed, so that the notifier has a command for each
  row of the outbox. The theory \<open>Lifecycle\<close> shows that the server refines it.
\<close>

section \<open>The transitions\<close>

definition row_data :: "Row \<Rightarrow> string \<times> json" where
  "row_data r = (RoutingKey r, Payload r)"

text \<open>Nothing happened to the subscriptions and sagas, and rows of the outbox were at most
  deleted.\<close>

definition elsewhere :: "'v observed_scheme \<Rightarrow> 'v observed_scheme \<Rightarrow> bool" where
  "elsewhere v u \<longleftrightarrow> subscriptions u = subscriptions v \<and> sagas u = sagas v
     \<and> map row_data (outbox_rows u) = map row_data (outbox_rows v)"

inductive tables_step :: "'v observed_scheme \<Rightarrow> 'v observed_scheme \<Rightarrow> bool" where
  other: "elsewhere v u \<Longrightarrow> tables_step v u"
| onboard: "onboarded email v u \<Longrightarrow> tables_step v u"
| activate: "old \<in> set (subscriptions v) \<Longrightarrow> live old \<Longrightarrow> subStatus old \<noteq> StatusActive \<Longrightarrow> isValidToken apiToken
    \<Longrightarrow> subscriptions u = upsert (old\<lparr>subStatus := StatusActive, APIToken := apiToken\<rparr>) (subscriptions v)
    \<Longrightarrow> rest_same v u \<Longrightarrow> tables_step v u"
| finish: "old \<in> set (subscriptions v) \<Longrightarrow> live old
    \<Longrightarrow> subscriptions u = upsert (old\<lparr>subStatus := StatusUnsubscribed\<rparr>) (subscriptions v)
    \<Longrightarrow> rest_same v u \<Longrightarrow> tables_step v u"
| complete: "saga_open token v \<Longrightarrow> tables_step v (close_saga token SagaCompleted v)"
| compensate: "saga_open token v
    \<Longrightarrow> tables_step v (cancel_pending token t (close_saga token SagaCompensated v))"
| moved: "ends_subs repo v u \<Longrightarrow> tables_step v u"
| announced: "subscriptions u = subscriptions v \<Longrightarrow> sagas u = sagas v \<Longrightarrow> outbox_rows u = outbox_rows v @ rows
    \<Longrightarrow> list_all2 (announces DecodeReleaseDetected RoutingKeyReleaseDetected (release_detected repo tag)) subs rows
    \<Longrightarrow> tables_step v u"

lemma elsewhere_refl [simp]: "elsewhere v v"
  by (simp add: elsewhere_def)

lemma elsewhere_trans: "elsewhere u v \<Longrightarrow> elsewhere v w \<Longrightarrow> elsewhere u w"
  by (simp add: elsewhere_def)

text \<open>An invariant of the transitions holds after any number of them.\<close>

lemma steps_invariant:
  assumes "tables_step\<^sup>*\<^sup>* v u" and "\<And>v u. tables_step v u \<Longrightarrow> I v \<Longrightarrow> I u" and "I v"
  shows "I u"
  using assms(1) by (induction rule: rtranclp_induct) (simp_all add: assms(2,3))

lemma upsert_set: "x \<in> set (upsert r xs) \<Longrightarrow> x = r \<or> x \<in> set xs"
  by (auto simp: upsert_def split: if_splits)

lemma sub_update_set: "(x :: Subscription) \<in> set (update_where P f xs) \<Longrightarrow>
    (\<exists>y \<in> set xs. live y \<and> P y \<and> x = f y) \<or> (x \<in> set xs \<and> \<not> (live x \<and> P x))"
  by (auto simp: update_where_def)

lemma saga_update_set: "(x :: OnboardingSaga) \<in> set (update_where P f xs) \<Longrightarrow>
    (\<exists>y \<in> set xs. live y \<and> P y \<and> x = f y) \<or> x \<in> set xs"
  by (auto simp: update_where_def)

text \<open>What is left pending after a cancellation.\<close>

lemma after_cancel:
  assumes "s \<in> set (subscriptions (cancel_pending token t v))"
  shows "s \<in> set (subscriptions v) \<and> (live s \<and> subStatus s = StatusPending \<longrightarrow> ConfirmToken s \<noteq> token)
    \<or> (\<exists>y \<in> set (subscriptions v). s = soft_delete t y)"
  using assms by (auto simp: cancel_pending_def dest: sub_update_set)

lemma deleted_not_live [simp]: "\<not> live (soft_delete t y)"
  by (simp add: soft_delete_def live_def)

lemma update_where_keeps: "y \<in> set xs \<Longrightarrow> \<not> P y \<Longrightarrow> y \<in> set (update_where P f xs)"
  by (force simp: update_where_def)

lemma cancel_pending_simps [simp]:
  "sagas (cancel_pending token t v) = sagas v" "outbox_rows (cancel_pending token t v) = outbox_rows v"
  by (simp_all add: cancel_pending_def)

lemma close_saga_simps [simp]:
  "subscriptions (close_saga token st v) = subscriptions v" "outbox_rows (close_saga token st v) = outbox_rows v"
  by (simp_all add: close_saga_def)

section \<open>A saga is settled once\<close>

text \<open>The specification: an awaiting saga becomes completed or compensated, and that is final.\<close>

inductive saga_next :: "OnboardingSaga \<Rightarrow> OnboardingSaga \<Rightarrow> bool" where
  same: "saga_next s s"
| completed: "live s \<Longrightarrow> sagaState s = SagaAwaitingDelivery \<Longrightarrow> saga_next s (s\<lparr>sagaState := SagaCompleted\<rparr>)"
| compensated: "live s \<Longrightarrow> sagaState s = SagaAwaitingDelivery \<Longrightarrow> saga_next s (s\<lparr>sagaState := SagaCompensated\<rparr>)"

inductive_simps saga_next_settled: "saga_next s s'"

lemma saga_next_trans: "saga_next s s' \<Longrightarrow> saga_next s' s'' \<Longrightarrow> saga_next s s''"
  by (auto simp: saga_next_settled)

lemma saga_next_final: "saga_next s s' \<Longrightarrow> sagaState s \<noteq> SagaAwaitingDelivery \<Longrightarrow> s' = s"
  by (auto simp: saga_next_settled)

text \<open>Sagas are only added, and every one that was there has moved along its automaton.\<close>

definition sagas_evolve :: "'v tables_scheme \<Rightarrow> 'v tables_scheme \<Rightarrow> bool" where
  "sagas_evolve v u \<longleftrightarrow> (\<exists>old new. sagas u = old @ new \<and> list_all2 saga_next (sagas v) old)"

lemma sagas_evolve_refl: "sagas u = sagas v \<Longrightarrow> sagas_evolve v u"
  unfolding sagas_evolve_def
  by (rule exI[of _ "sagas v"], rule exI[of _ "[]"]) (simp add: list.rel_refl saga_next.same)

lemma sagas_evolve_append: "sagas u = sagas v @ new \<Longrightarrow> sagas_evolve v u"
  by (auto simp: sagas_evolve_def intro!: list.rel_refl saga_next.same)

lemma sagas_evolve_trans:
  assumes "sagas_evolve v u" and "sagas_evolve u t"
  shows "sagas_evolve v t"
proof -
  obtain old new where 1: "sagas u = old @ new" "list_all2 saga_next (sagas v) old"
    using assms(1) by (auto simp: sagas_evolve_def)
  obtain old' new' where 2: "sagas t = old' @ new'" "list_all2 saga_next (old @ new) old'"
    using assms(2) 1(1) by (auto simp: sagas_evolve_def)
  obtain a b where ab: "old' = a @ b" "list_all2 saga_next old a"
    using 2(2) by (auto simp: list_all2_append1)
  have "list_all2 saga_next (sagas v) a"
    using list_all2_trans[of saga_next saga_next saga_next, OF saga_next_trans 1(2) ab(2)] .
  then show ?thesis using 2(1) ab(1) by (auto simp: sagas_evolve_def)
qed

lemma close_saga_evolves:
  "st = SagaCompleted \<or> st = SagaCompensated \<Longrightarrow> sagas_evolve v (close_saga token st v)"
  unfolding sagas_evolve_def
  by (rule exI[of _ "sagas (close_saga token st v)"], rule exI[of _ "[]"])
    (auto simp: close_saga_def update_where_def awaiting_def list.rel_map saga_next_settled
      intro!: list.rel_refl_strong)

lemma sagas_evolve_cancel_pending [simp]:
  "sagas_evolve v (cancel_pending token t u) \<longleftrightarrow> sagas_evolve v u"
  by (simp add: sagas_evolve_def)

lemma step_evolves: "tables_step v u \<Longrightarrow> sagas_evolve v u"
  by (induction rule: tables_step.induct)
     (auto simp: elsewhere_def onboarded_def rest_same_def ends_subs_def
       intro: sagas_evolve_refl sagas_evolve_append close_saga_evolves)

lemma steps_evolve: "tables_step\<^sup>*\<^sup>* v u \<Longrightarrow> sagas_evolve v u"
  by (rule steps_invariant[where I = "sagas_evolve v"])
     (auto intro: sagas_evolve_trans step_evolves sagas_evolve_refl)

section \<open>A pending subscription has its saga\<close>

text \<open>The saga that watches over a subscription: it awaits the delivery or saw it.\<close>

definition watches :: "Subscription \<Rightarrow> OnboardingSaga \<Rightarrow> bool" where
  "watches s g \<longleftrightarrow> live g \<and> sagaToken g = ConfirmToken s \<and> sagaState g \<noteq> SagaCompensated"

definition pending_watched :: "'v tables_scheme \<Rightarrow> bool" where
  "pending_watched v \<longleftrightarrow>
     (\<forall>s \<in> set (subscriptions v). live s \<and> subStatus s = StatusPending \<longrightarrow> (\<exists>g \<in> set (sagas v). watches s g))"

lemma pending_watched_same:
  assumes "pending_watched v" and "sagas u = sagas v"
    and "\<And>s. s \<in> set (subscriptions u) \<Longrightarrow> s \<in> set (subscriptions v) \<or> subStatus s \<noteq> StatusPending"
  shows "pending_watched u"
  using assms by (auto simp: pending_watched_def)

lemma pending_watched_onboard: "pending_watched v \<Longrightarrow> onboarded email v u \<Longrightarrow> pending_watched u"
  by (auto simp: pending_watched_def onboarded_def watches_def saga_states dest!: upsert_set)

lemma watches_closed:
  assumes "g \<in> set (sagas v)" and "watches s g" and "ConfirmToken s \<noteq> token \<or> st \<noteq> SagaCompensated"
  shows "\<exists>g \<in> set (sagas (close_saga token st v)). watches s g"
proof (cases "awaiting token g")
  case True
  then have "g\<lparr>sagaState := st\<rparr> \<in> set (sagas (close_saga token st v))"
    using assms(1,2) by (force simp: close_saga_def update_where_def watches_def)
  moreover have "watches s (g\<lparr>sagaState := st\<rparr>)"
    using assms(2,3) True by (auto simp: watches_def awaiting_def live_def)
  ultimately show ?thesis by blast
next
  case False
  then show ?thesis
    using assms update_where_keeps[of g "sagas v" "awaiting token"] by (auto simp: close_saga_def)
qed

lemma step_pending_watched: "tables_step v u \<Longrightarrow> pending_watched v \<Longrightarrow> pending_watched u"
proof (induction rule: tables_step.induct)
  case (other v u)
  then show ?case by (auto simp: elsewhere_def intro: pending_watched_same)
next
  case (onboard email v u)
  then show ?case by (blast intro: pending_watched_onboard)
next
  case (activate old v apiToken u)
  then show ?case
    by (intro pending_watched_same[of v u]) (auto simp: rest_same_def subscription_statuses dest!: upsert_set)
next
  case (finish old v u)
  then show ?case
    by (intro pending_watched_same[of v u]) (auto simp: rest_same_def subscription_statuses dest!: upsert_set)
next
  case (complete token v)
  then show ?case
    using watches_closed[of _ v _ token SagaCompleted] by (auto simp: pending_watched_def saga_states)
next
  case (compensate token v t)
  show ?case
    unfolding pending_watched_def
  proof (intro ballI impI)
    fix s assume s: "s \<in> set (subscriptions (cancel_pending token t (close_saga token SagaCompensated v)))"
      and p: "live s \<and> subStatus s = StatusPending"
    then have "s \<in> set (subscriptions v)" "ConfirmToken s \<noteq> token"
      using after_cancel[OF s] by auto
    moreover from this obtain g where "g \<in> set (sagas v)" "watches s g"
      using compensate.prems p by (auto simp: pending_watched_def)
    ultimately show "\<exists>g \<in> set (sagas (cancel_pending token t (close_saga token SagaCompensated v))). watches s g"
      using watches_closed[of g v s token SagaCompensated] by simp
  qed
next
  case (moved repo v u)
  then show ?case
    by (intro pending_watched_same[of v u]) (auto simp: ends_subs_def subscription_statuses dest!: sub_update_set)
next
  case (announced u v rows repo tag subs)
  then show ?case by (auto intro: pending_watched_same)
qed

section \<open>The rows are well typed\<close>

definition sub_typed :: "Subscription \<Rightarrow> bool" where
  "sub_typed s \<longleftrightarrow> subStatus s \<in> {StatusPending, StatusActive, StatusUnsubscribed} \<and> isValidToken (ConfirmToken s)
     \<and> (subStatus s = StatusActive \<longrightarrow> isValidToken (APIToken s))"

definition saga_typed :: "OnboardingSaga \<Rightarrow> bool" where
  "saga_typed g \<longleftrightarrow> sagaState g \<in> {SagaAwaitingDelivery, SagaCompleted, SagaCompensated} \<and> isValidToken (sagaToken g)"

text \<open>A row of the outbox is routed to the notifier, which has a command for it.\<close>

definition row_typed :: "string \<times> json \<Rightarrow> bool" where
  "row_typed d \<longleftrightarrow> fst d \<in> set (RoutingKeys NotificationsEndpoint)
     \<and> (\<exists>key cmd. event_command (json_print (snd d)) = Inr (key, cmd))"

definition well_typed :: "'v tables_scheme \<Rightarrow> bool" where
  "well_typed v \<longleftrightarrow> (\<forall>s \<in> set (subscriptions v). sub_typed s) \<and> (\<forall>g \<in> set (sagas v). saga_typed g)
     \<and> (\<forall>r \<in> set (outbox_rows v). row_typed (row_data r))"

lemma decoded_command:
  assumes "unmarshal_Envelope (json_print doc) = Inr env" and "toCommand env = Inr (cmd, send)"
  shows "\<exists>key cmd. event_command (json_print doc) = Inr (key, cmd)"
  using assms by (simp add: event_command_def)

lemma announced_typed:
  "announces DecodeReleaseDetected RoutingKeyReleaseDetected pl sub row \<Longrightarrow> row_typed (row_data row)"
  "announces DecodeRepositoryMoved RoutingKeyRepositoryMoved pl' sub row \<Longrightarrow> row_typed (row_data row)"
  "RoutingKey row = RoutingKeySubscriptionCreated \<Longrightarrow> Payload row = marshal_Envelope env
    \<Longrightarrow> decodes_to DecodeSubscriptionCreated p RoutingKeySubscriptionCreated (Inr env) \<Longrightarrow> row_typed (row_data row)"
  by (auto simp: announces_def row_typed_def row_data_def decodes_to_def toCommand_def NotificationsEndpoint_def
      routing_keys event_types intro!: decoded_command)

lemma upsert_typed: "\<forall>x \<in> set xs. P x \<Longrightarrow> P r \<Longrightarrow> \<forall>x \<in> set (upsert r xs). P x"
  by (auto dest: upsert_set)

lemma list_all2_right: "list_all2 R xs ys \<Longrightarrow> (\<And>x y. R x y \<Longrightarrow> P y) \<Longrightarrow> \<forall>y \<in> set ys. P y"
  by (metis in_set_conv_nth list_all2_conv_all_nth)

lemma close_saga_typed:
  assumes "\<forall>g \<in> set (sagas v). saga_typed g" and "st \<in> {SagaCompleted, SagaCompensated}"
  shows "\<forall>g \<in> set (sagas (close_saga token st v)). saga_typed g"
  using assms by (auto simp: close_saga_def saga_typed_def dest!: saga_update_set)

lemma step_well_typed: "tables_step v u \<Longrightarrow> well_typed v \<Longrightarrow> well_typed u"
proof (induction rule: tables_step.induct)
  case (other v u)
  have rows: "(\<forall>r \<in> set (outbox_rows x). row_typed (row_data r)) = list_all row_typed (map row_data (outbox_rows x))"
    for x :: "'a observed_scheme"
    by (simp add: list_all_iff)
  show ?case using other by (simp add: elsewhere_def well_typed_def rows)
next
  case (onboard email v u)
  then show ?case
    unfolding well_typed_def onboarded_def
    by (auto simp: sub_typed_def saga_typed_def subscription_statuses dest!: upsert_set intro: announced_typed(3))
next
  case (activate old v apiToken u)
  then show ?case
    unfolding well_typed_def rest_same_def by (auto simp: sub_typed_def dest!: upsert_set)
next
  case (finish old v u)
  then show ?case
    unfolding well_typed_def rest_same_def by (auto simp: sub_typed_def subscription_statuses dest!: upsert_set)
next
  case (complete token v)
  then show ?case using close_saga_typed[of v SagaCompleted token] by (auto simp: well_typed_def)
next
  case (compensate token v t)
  then have "\<forall>s \<in> set (subscriptions (cancel_pending token t (close_saga token SagaCompensated v))). sub_typed s"
    by (auto simp: well_typed_def sub_typed_def soft_delete_def dest!: after_cancel)
  then show ?case
    using compensate.prems close_saga_typed[of v SagaCompensated token] by (auto simp: well_typed_def)
next
  case (moved repo v u)
  then have "\<forall>s \<in> set (subscriptions u). sub_typed s"
    by (auto simp: well_typed_def ends_subs_def sub_typed_def subscription_statuses dest!: sub_update_set)
  moreover obtain subs rows where "outbox_rows u = outbox_rows v @ rows"
    and r: "list_all2 (announces DecodeRepositoryMoved RoutingKeyRepositoryMoved (repository_moved repo)) subs rows"
    using moved.hyps by (auto simp: ends_subs_def)
  moreover have "\<forall>r \<in> set rows. row_typed (row_data r)"
    using r by (rule list_all2_right) (rule announced_typed(2))
  ultimately show ?case using moved by (auto simp: well_typed_def ends_subs_def)
next
  case (announced u v rows repo tag subs)
  have "\<forall>r \<in> set rows. row_typed (row_data r)"
    using announced.hyps(4) by (rule list_all2_right) (rule announced_typed(1))
  then show ?case using announced by (auto simp: well_typed_def)
qed

end
