(* ===== verification/Grpc_Mailer.thy ===== *)
theory Grpc_Mailer
  imports Notifier Mailer
begin

text \<open>
  \<open>internal/transport/grpc/mailer\<close>: the notifier's commands over gRPC instead of the broker. The
  locale \<open>grpc_link\<close> is the contract of the connection (a call that answers ran the server
  once), \<open>command_stream\<close> that of a bidirectional stream. The theorems: every command the
  notifier builds crosses the link unchanged, a publish without an error means a delivered
  email, every command of a stream is answered, and where the link's client treats a failed
  verification otherwise than the broker's consumer does.
\<close>

section \<open>The messages\<close>

text \<open>A proto3 enum is an open set of 32-bit numbers.\<close>

type_synonym proto_enum = "32 word"

record DeliveryCommand =
  dcType :: proto_enum
  dcEmail :: string
  dcRepo :: string
  dcRelease :: string
  dcPayload :: "(string \<times> string) list"

definition eventToProto :: "string \<Rightarrow> proto_enum" where
  "eventToProto ev =
     (if ev = EventNewRelease then 1
      else if ev = EventRepoMoved then 2
      else if ev = EventEmailVerification then 3
      else 0)"

definition protoToEvent :: "proto_enum \<Rightarrow> string" where
  "protoToEvent t =
     (if t = 1 then EventNewRelease
      else if t = 2 then EventRepoMoved
      else if t = 3 then EventEmailVerification
      else '''')"

definition outcomeToProto :: "string \<Rightarrow> proto_enum" where
  "outcomeToProto out =
     (if out = OutcomeDelivered then 1
      else if out = OutcomeFailed then 2
      else if out = OutcomePoison then 3
      else 0)"

definition protoToOutcome :: "proto_enum \<Rightarrow> string" where
  "protoToOutcome code =
     (if code = 1 then OutcomeDelivered
      else if code = 2 then OutcomeFailed
      else if code = 3 then OutcomePoison
      else '''')"

text \<open>The entries of a map given by an association list whose last binding of a key counts.\<close>

fun map_entries :: "('k \<times> 'v) list \<Rightarrow> ('k \<times> 'v) list" where
  "map_entries [] = []"
| "map_entries ((k, v) # xs) = (if k \<in> fst ` set xs then map_entries xs else (k, v) # map_entries xs)"

definition toProto :: "DeliveryMessage \<Rightarrow> DeliveryCommand" where
  "toProto msg =
     \<lparr>dcType = eventToProto (dmEvent msg), dcEmail = dmEmail msg, dcRepo = dmRepo msg,
      dcRelease = dmRelease msg,
      dcPayload = concat (map (\<lambda>(k, v). case v of JStr s \<Rightarrow> [(k, s)] | _ \<Rightarrow> []) (map_entries (dmPayload msg)))\<rparr>"

definition fromProto :: "DeliveryCommand \<Rightarrow> DeliveryMessage" where
  "fromProto cmd =
     \<lparr>dmEvent = protoToEvent (dcType cmd), dmEmail = dcEmail cmd, dmRepo = dcRepo cmd,
      dmRelease = dcRelease cmd, dmPayload = map (\<lambda>(k, v). (k, JStr v)) (map_entries (dcPayload cmd))\<rparr>"

section \<open>The server\<close>

type_synonym 'w Deliverer = "DeliveryMessage \<Rightarrow> ('w, goerror option) state"

record 'w Server =
  deliverer :: "'w Deliverer"
  srvObserve :: "string \<Rightarrow> string \<Rightarrow> ('w, unit) state"

definition TransportGRPC :: string where "TransportGRPC = ''grpc''"

definition server_deliver :: "'w Server \<Rightarrow> DeliveryCommand \<Rightarrow> ('w, proto_enum) state" where
  "server_deliver s cmd = do {
     err \<leftarrow> deliverer s (fromProto cmd);
     let outcome = DeliveryOutcome err;
     srvObserve s TransportGRPC outcome;
     ret (outcomeToProto outcome) }"

definition server_Send :: "'w Server \<Rightarrow> DeliveryCommand \<Rightarrow> ('w, goerror + proto_enum) state" where
  "server_Send s cmd = do { res \<leftarrow> server_deliver s cmd; ret (Inr res) }"

text \<open>A stream is what \<open>Recv\<close> and \<open>Send\<close> do; \<open>None\<close> is a loop that is still running after
  \<open>fuel\<close> commands.\<close>

record 'w stream =
  Recv :: "('w, goerror + DeliveryCommand) state"
  Send :: "proto_enum \<Rightarrow> ('w, goerror option) state"

fun server_SendStream :: "nat \<Rightarrow> 'w Server \<Rightarrow> 'w stream \<Rightarrow> ('w, goerror option option) state" where
  "server_SendStream 0 s st = ret None"
| "server_SendStream (Suc n) s st = do {
     got \<leftarrow> Recv st;
     case got of
       Inl err \<Rightarrow> ret (Some (if err = EOF then None else Some err))
     | Inr cmd \<Rightarrow> do {
         res \<leftarrow> server_deliver s cmd;
         sendErr \<leftarrow> Send st res;
         case sendErr of
           Some e \<Rightarrow> ret (Some (Some e))
         | None \<Rightarrow> server_SendStream n s st } }"

section \<open>The client\<close>

text \<open>\<open>send\<close> is the generated client's \<open>Send\<close>, with the outcome code of its result.\<close>

definition client_Publish :: "(DeliveryCommand \<Rightarrow> ('w, goerror + proto_enum) state) \<Rightarrow> 'w CommandPublisher" where
  "client_Publish send cmd = do {
     res \<leftarrow> send (toProto cmd);
     case res of
       Inl err \<Rightarrow> ret (Some err)
     | Inr code \<Rightarrow>
         let outcome = protoToOutcome code in
         if outcome \<noteq> OutcomeDelivered then ret (Some (Err (''mailer did not deliver: '' @ outcome)))
         else ret None }"

text \<open>A connection of the gRPC library, and the client over it; \<open>grpc.NewClient\<close> is a parameter.\<close>

record 'w grpc_conn =
  grpcSend :: "DeliveryCommand \<Rightarrow> ('w, goerror + proto_enum) state"
  grpcClose :: "('w, goerror option) state"

record 'w grpc_client =
  clientConn :: "'w grpc_conn"

definition grpc_Dial :: "(string \<Rightarrow> ('w, goerror + 'w grpc_conn) state) \<Rightarrow> string \<Rightarrow> ('w, goerror + 'w grpc_client) state" where
  "grpc_Dial newClient addr = do {
     dialled \<leftarrow> newClient addr;
     ret (case dialled of Inl err \<Rightarrow> Inl err | Inr conn \<Rightarrow> Inr \<lparr>clientConn = conn\<rparr>) }"

definition grpc_Publish :: "'w grpc_client \<Rightarrow> 'w CommandPublisher" where
  "grpc_Publish c = client_Publish (grpcSend (clientConn c))"

definition grpc_Close :: "'w grpc_client \<Rightarrow> ('w, goerror option) state" where
  "grpc_Close c = grpcClose (clientConn c)"

section \<open>Commands cross unchanged\<close>

text \<open>The commands the mapping can carry.\<close>

definition carried :: "DeliveryMessage \<Rightarrow> bool" where
  "carried msg \<longleftrightarrow> dmEvent msg \<in> {EventNewRelease, EventRepoMoved, EventEmailVerification}
     \<and> distinct (map fst (dmPayload msg)) \<and> list_all (\<lambda>(k, v). \<exists>s. v = JStr s) (dmPayload msg)"

lemma map_entries_distinct: "distinct (map fst xs) \<Longrightarrow> map_entries xs = xs"
  by (induction xs rule: map_entries.induct) auto

lemma strings_only:
  assumes "list_all (\<lambda>(k, v). \<exists>s. v = JStr s) xs"
  shows "map (\<lambda>(k, v). (k, JStr v)) (concat (map (\<lambda>(k, v). case v of JStr s \<Rightarrow> [(k, s)] | _ \<Rightarrow> []) xs)) = xs
    \<and> map fst (concat (map (\<lambda>(k, v). case v of JStr s \<Rightarrow> [(k, s)] | _ \<Rightarrow> []) xs)) = map fst xs"
  using assms by (induction xs) auto

lemma proto_events: "ev \<in> {EventNewRelease, EventRepoMoved, EventEmailVerification} \<Longrightarrow> protoToEvent (eventToProto ev) = ev"
  by (auto simp: protoToEvent_def eventToProto_def email_event_types)

lemma fromProto_toProto: "carried msg \<Longrightarrow> fromProto (toProto msg) = msg"
  using strings_only[of "dmPayload msg"]
  by (cases msg) (simp add: carried_def fromProto_def toProto_def proto_events map_entries_distinct)

lemma protoToOutcome_outcomeToProto:
  "out \<in> {OutcomeDelivered, OutcomeFailed, OutcomePoison} \<Longrightarrow> protoToOutcome (outcomeToProto out) = out"
  by (auto simp: protoToOutcome_def outcomeToProto_def outcomes)

lemma DeliveryOutcome_cases: "DeliveryOutcome err \<in> {OutcomeDelivered, OutcomeFailed, OutcomePoison}"
  by (auto simp: DeliveryOutcome_def split: option.splits)

lemma DeliveryOutcome_delivered: "DeliveryOutcome err = OutcomeDelivered \<longleftrightarrow> err = None"
  by (auto simp: DeliveryOutcome_def outcomes split: option.splits)

lemma toCommand_carried: "toCommand env = Inr (cmd, send) \<Longrightarrow> carried cmd"
  by (auto simp: toCommand_def decode_failed_def carried_def split: if_splits sum.splits)

text \<open>
  C30: Every command the notifier makes of an event reaches the mailer over gRPC as it would over
  the broker: the same type, recipient, repository, release and payload; so does every outcome
  on its way back.
\<close>

theorem commands_cross_grpc:
  assumes "toCommand env = Inr (cmd, send)"
  shows "fromProto (toProto cmd) = cmd
    \<and> unmarshal_DeliveryMessage (json_print (marshal_DeliveryMessage cmd)) = Inr cmd
    \<and> protoToOutcome (outcomeToProto (DeliveryOutcome err)) = DeliveryOutcome err"
proof -
  have c: "carried cmd" by (rule toCommand_carried[OF assms])
  then have "list_all (\<lambda>(k, v). wf_json v) (dmPayload cmd)"
    unfolding carried_def list_all_iff by fastforce
  then show ?thesis
    using fromProto_toProto[OF c] command_roundtrip protoToOutcome_outcomeToProto[OF DeliveryOutcome_cases]
    by blast
qed

text \<open>
  A code that is none of the three known ones has no label: the client reports it as not
  delivered, with an empty outcome and not with \<open>failed\<close>.
\<close>

theorem unknown_outcome_has_no_label:
  assumes "code \<notin> {1, 2, 3}"
  shows "protoToOutcome code = '''' \<and> protoToOutcome code \<noteq> OutcomeFailed
    \<and> run (client_Publish (\<lambda>_. ret (Inr code)) cmd) w = (Some (Err ''mailer did not deliver: ''), w)"
  using assms by (simp add: protoToOutcome_def client_Publish_def outcomes)

section \<open>The link\<close>

text \<open>A unary call that answers ran the server once; one that fails ran it once or not at all.\<close>

locale grpc_link =
  fixes send :: "DeliveryCommand \<Rightarrow> ('w, goerror + proto_enum) state"
    and srv :: "'w Server"
  assumes call: "\<And>cmd w r w'. run (send cmd) w = (r, w') \<Longrightarrow>
      (case r of
         Inr code \<Rightarrow> run (server_Send srv cmd) w = (Inr code, w')
       | Inl _ \<Rightarrow> w' = w \<or> (\<exists>code. run (server_Send srv cmd) w = (Inr code, w')))"

text \<open>In one process, as the load harness runs it, the call is the server's method.\<close>

interpretation direct: grpc_link "server_Send srv" srv for srv :: "'w Server"
  by unfold_locales (auto simp: server_Send_def split: prod.splits)

context grpc_link begin

lemma publish_delivered:
  assumes "carried cmd" and "run (client_Publish send cmd) w = (r, w')"
  shows "(r = None \<longrightarrow> (\<exists>w1. run (deliverer srv cmd) w = (None, w1)
            \<and> run (srvObserve srv TransportGRPC OutcomeDelivered) w1 = ((), w')))
    \<and> (r \<noteq> None \<longrightarrow> w' = w \<or> (\<exists>err w1. run (deliverer srv cmd) w = (err, w1)
            \<and> run (srvObserve srv TransportGRPC (DeliveryOutcome err)) w1 = ((), w')))"
proof -
  obtain a w2 where 1: "run (send (toProto cmd)) w = (a, w2)" by (rule prod.exhaust)
  obtain err w1 where 2: "run (deliverer srv cmd) w = (err, w1)" by (rule prod.exhaust)
  obtain u w3 where 3: "run (srvObserve srv TransportGRPC (DeliveryOutcome err)) w1 = (u, w3)" by (rule prod.exhaust)
  have srv: "run (server_Send srv (toProto cmd)) w = (Inr (outcomeToProto (DeliveryOutcome err)), w3)"
    using 2 3 by (simp add: server_Send_def server_deliver_def fromProto_toProto[OF assms(1)] Let_def)
  have out: "protoToOutcome (outcomeToProto (DeliveryOutcome err)) = DeliveryOutcome err"
    by (rule protoToOutcome_outcomeToProto[OF DeliveryOutcome_cases])
  note c = call[OF 1, unfolded srv]
  show ?thesis
  proof (cases a)
    case (Inl e)
    then show ?thesis using assms(2) 1 c 2 3 by (auto simp: client_Publish_def)
  next
    case (Inr code)
    then have "code = outcomeToProto (DeliveryOutcome err)" and "w2 = w3" using c by simp_all
    then show ?thesis
      using assms(2) 1 2 3 Inr out DeliveryOutcome_delivered[of err]
      by (cases err) (auto simp: client_Publish_def Let_def split: if_splits)
  qed
qed

end

text \<open>
  A publish over gRPC that returns no error means that the mailer delivered this very command;
  after an error the mailer may have run, but at most once.
\<close>

theorem grpc_publish_means_delivered:
  assumes "grpc_link send srv" and "carried cmd" and "run (client_Publish send cmd) w = (None, w')"
  shows "\<exists>w1. run (deliverer srv cmd) w = (None, w1)
    \<and> run (srvObserve srv TransportGRPC OutcomeDelivered) w1 = ((), w')"
  using grpc_link.publish_delivered[OF assms] by simp

text \<open>
  Where the two transports differ: a verification email that the SMTP server refuses, reported
  to the saga as failed, is acked by the broker's consumer and not tried again; over gRPC the
  same failure comes back as an error of the publish, and the notifier takes back its key and
  asks for a retry, which would report the outcome again.
\<close>

theorem grpc_retries_reported_failure:
  assumes "reporting m cmd" and "carried cmd" and "\<not> is_unknown_type e"
    and "run (mailer_Deliver m cmd) w = (Some e, w1)"
    and "run (MarkProcessed D key) w0 = (Inr True, w)"
    and "n = \<lparr>nPublisher = client_Publish (server_Send \<lparr>deliverer = mailer_Deliver m, srvObserve = mObserve m\<rparr>),
              nDedup = D\<rparr>"
  shows "fst (run (mailer_decision m (json_print (marshal_DeliveryMessage cmd))) w) = ActAck
    \<and> fst (run (send_decision n key cmd) w0) = ActRetry ''publish command: mailer did not deliver: failed''"
proof -
  have "list_all (\<lambda>(k, v). wf_json v) (dmPayload cmd)"
    using assms(2) unfolding carried_def list_all_iff by fastforce
  then have msg: "unmarshal_DeliveryMessage (json_print (marshal_DeliveryMessage cmd)) = Inr cmd"
    by (rule command_roundtrip)
  have failed: "DeliveryOutcome (Some e) = OutcomeFailed" using assms(3) by (simp add: DeliveryOutcome_def)
  have "fst (run (mailer_decision m (json_print (marshal_DeliveryMessage cmd))) w) = ActAck"
    using msg assms(1,3,4) unfolding mailer_decision_def reporting_def by (auto split: prod.splits)
  moreover have "fst (run (nPublisher n cmd) w) = Some (Err ''mailer did not deliver: failed'')"
    using assms(4) by (simp add: assms(6) client_Publish_def server_Send_def server_deliver_def
        fromProto_toProto[OF assms(2)] failed Let_def outcomes protoToOutcome_def outcomeToProto_def split: prod.splits)
  then have "fst (run (send_decision n key cmd) w0) = ActRetry ''publish command: mailer did not deliver: failed''"
    using assms(5) by (auto simp: send_decision_def assms(6) split: prod.splits)
  ultimately show ?thesis ..
qed

section \<open>Streams\<close>

text \<open>A stream with the commands still to come and the results sent.\<close>

locale command_stream =
  fixes st :: "'w stream" and srv :: "'w Server"
    and pending :: "'w \<Rightarrow> DeliveryCommand list" and answers :: "'w \<Rightarrow> proto_enum list"
  assumes recv: "\<And>w r w'. run (Recv st) w = (r, w') \<Longrightarrow> answers w' = answers w
      \<and> (case r of Inr cmd \<Rightarrow> pending w = cmd # pending w'
         | Inl e \<Rightarrow> pending w' = pending w \<and> (e = EOF \<longrightarrow> pending w = []))"
    and send: "\<And>res w r w'. run (Send st res) w = (r, w') \<Longrightarrow> pending w' = pending w
      \<and> (if r = None then answers w' = answers w @ [res] else answers w' = answers w)"
    and serve: "\<And>cmd w r w'. run (server_deliver srv cmd) w = (r, w') \<Longrightarrow>
      pending w' = pending w \<and> answers w' = answers w"

context command_stream begin

lemma stream_run:
  assumes "run (server_SendStream fuel srv st) w = (r, w')" and "length (pending w) < fuel"
  shows "\<exists>res. r = Some res \<and> length (answers w') + length (pending w') \<le> length (answers w) + length (pending w)
    \<and> (res = None \<longrightarrow> pending w' = [] \<and> length (answers w') = length (answers w) + length (pending w))"
  using assms
proof (induction fuel arbitrary: w)
  case (Suc fuel)
  obtain a w1 where 1: "run (Recv st) w = (a, w1)" by (rule prod.exhaust)
  show ?case
  proof (cases a)
    case (Inl e)
    then show ?thesis using Suc.prems 1 recv[OF 1] by (auto split: if_splits)
  next
    case (Inr cmd)
    obtain o' w2 where 2: "run (server_deliver srv cmd) w1 = (o', w2)" by (rule prod.exhaust)
    obtain s w3 where 3: "run (Send st o') w2 = (s, w3)" by (rule prod.exhaust)
    note facts = recv[OF 1] serve[OF 2] send[OF 3]
    show ?thesis
    proof (cases s)
      case None
      then have "run (server_SendStream fuel srv st) w3 = (r, w')" using Suc.prems 1 2 3 Inr by simp
      from Suc.IH[OF this] show ?thesis using facts Suc.prems(2) Inr None by auto
    next
      case (Some e)
      then show ?thesis using Suc.prems 1 2 3 Inr facts by auto
    qed
  qed
qed simp

end

text \<open>
  \<open>SendStream\<close> returns when the stream's commands are used up, and when it returns without an
  error, every one of them was answered, failed deliveries included.
\<close>

theorem stream_answers_every_command:
  assumes "command_stream st srv pending answers"
    and "run (server_SendStream fuel srv st) w = (r, w')" and "length (pending w) < fuel"
  shows "\<exists>res. r = Some res
    \<and> (res = None \<longrightarrow> pending w' = [] \<and> length (answers w') = length (answers w) + length (pending w))"
  using command_stream.stream_run[OF assms] by blast

section \<open>A server in memory\<close>

record stream_world =
  swIn :: "DeliveryCommand list"
  swOut :: "proto_enum list"
  swMails :: "(string \<times> string \<times> string) list"

definition sw_sender :: "stream_world EmailSender" where
  "sw_sender to sub body =
     State (\<lambda>w. if to = '''' then (Some (Err ''no recipient''), w)
                else (None, w\<lparr>swMails := swMails w @ [(to, sub, body)]\<rparr>))"

definition sw_mailer :: "stream_world Mailer" where
  "sw_mailer = NewMailer sw_sender None (\<lambda>d. ret None) (\<lambda>t out. ret ()) (\<lambda>j. ''?'')"

definition sw_server :: "stream_world Server" where
  "sw_server = \<lparr>deliverer = mailer_Deliver sw_mailer, srvObserve = (\<lambda>t out. ret ())\<rparr>"

definition sw_stream :: "stream_world stream" where
  "sw_stream =
     \<lparr>Recv = State (\<lambda>w. case swIn w of [] \<Rightarrow> (Inl EOF, w) | c # cs \<Rightarrow> (Inr c, w\<lparr>swIn := cs\<rparr>)),
      Send = (\<lambda>res. State (\<lambda>w. (None, w\<lparr>swOut := swOut w @ [res]\<rparr>)))\<rparr>"

lemma sw_send:
  assumes "run (sendWithRetry sw_mailer to sub body) w = (r, w')"
  shows "swIn w' = swIn w \<and> swOut w' = swOut w"
proof -
  let ?P = "\<lambda>u. swIn u = swIn w \<and> swOut u = swOut w"
  have "run (attempt_loop (nat (mMaxRetries sw_mailer)) (mBaseBackoff sw_mailer) None (mWait sw_mailer)
      (mSender sw_mailer to sub body)) w = (r, w')"
    using assms by (simp add: sendWithRetry_def)
  then show ?thesis
    by (rule attempt_loop_inv[where P = ?P, rotated 3])
      (auto simp: sw_mailer_def NewMailer_def sw_sender_def split: if_splits)
qed

lemma sw_mail:
  "run (mailer_Deliver sw_mailer msg) w = (r, w') \<Longrightarrow> swIn w' = swIn w \<and> swOut w' = swOut w"
proof (cases "buildEmail (mFormat sw_mailer) msg")
  case (Some mail)
  assume run: "run (mailer_Deliver sw_mailer msg) w = (r, w')"
  obtain sub body where mail: "mail = (sub, body)" by (rule prod.exhaust)
  obtain s w1 where 1: "run (sendWithRetry sw_mailer (dmEmail msg) sub body) w = (s, w1)" by (rule prod.exhaust)
  have none: "mResults sw_mailer = None" by (simp add: sw_mailer_def NewMailer_def)
  show ?thesis
    using run Some mail 1 sw_send[OF 1] by (cases s) (auto simp: mailer_Deliver_def none)
qed (simp add: mailer_Deliver_def)

lemma sw_deliver: "run (server_deliver sw_server cmd) w = (r, w') \<Longrightarrow> swIn w' = swIn w \<and> swOut w' = swOut w"
  by (auto simp: server_deliver_def sw_server_def Let_def split: prod.splits dest: sw_mail)

interpretation sw: command_stream sw_stream sw_server swIn swOut
  by unfold_locales (auto simp: sw_stream_def split: list.splits dest: sw_deliver)

definition sw_start :: "DeliveryMessage list \<Rightarrow> stream_world" where
  "sw_start msgs = \<lparr>swIn = map toProto msgs, swOut = [], swMails = []\<rparr>"

definition sw_message :: "string \<Rightarrow> DeliveryMessage" where
  "sw_message to = \<lparr>dmEvent = EventRepoMoved, dmEmail = to, dmRepo = ''o/r'', dmRelease = '''', dmPayload = []\<rparr>"

lemmas sw_run = sw_start_def sw_message_def sw_server_def sw_mailer_def sw_stream_def sw_sender_def NewMailer_def
  mailer_Deliver_def sendWithRetry_def maxSMTPRetries_def buildEmail_def email_event_types DeliveryOutcome_def
  outcomeToProto_def protoToOutcome_def outcomes server_deliver_def server_Send_def fromProto_def toProto_def
  eventToProto_def protoToEvent_def is_unknown_type_def Let_def eval_nat_numeral

theorem stream_answers_every_command_witness:
  "length (swOut (snd (run (server_SendStream 3 sw_server sw_stream) (sw_start [sw_message ''a@b.c'', sw_message ''''])))) = 2"
proof -
  have "fst (run (server_SendStream 3 sw_server sw_stream) (sw_start [sw_message ''a@b.c'', sw_message ''''])) = Some None"
    by (simp add: sw_run)
  then show ?thesis
    using stream_answers_every_command[OF sw.command_stream_axioms surjective_pairing, of
        "sw_start [sw_message ''a@b.c'', sw_message '''']" 3]
    by (simp add: sw_start_def)
qed

theorem commands_cross_grpc_witness: "fromProto (toProto sample_command) = sample_command"
  using commands_cross_grpc[of "\<lparr>EnvID = ''e1'', EnvType = TypeRepositoryMoved, OccurredAt = ''2026-01-31T23:59:59.5Z'',
      Version = 1, EnvPayload = Some (marshal_RepositoryMoved \<lparr>rmEmail = ''a@b.c'', rmRepo = ''o/r''\<rparr>)\<rparr>" sample_command True None]
  by (simp add: toCommand_def event_types decode_marshal(2) sample_command_def)

theorem unknown_outcome_has_no_label_witness: "protoToOutcome 0 = [] \<and> protoToOutcome 7 = []"
  using unknown_outcome_has_no_label[of 0 sample_command "()"] unknown_outcome_has_no_label[of 7 sample_command "()"]
  by simp

theorem grpc_publish_means_delivered_witness:
  "\<exists>w1. run (deliverer sw_server (sw_message ''a@b.c'')) (sw_start []) = (None, w1)"
proof -
  let ?w = "snd (run (client_Publish (server_Send sw_server) (sw_message ''a@b.c'')) (sw_start []))"
  have "run (client_Publish (server_Send sw_server) (sw_message ''a@b.c'')) (sw_start []) = (None, ?w)"
    by (simp add: client_Publish_def sw_run)
  moreover have "carried (sw_message ''a@b.c'')" by (simp add: carried_def sw_message_def)
  ultimately show ?thesis
    using grpc_publish_means_delivered[OF direct.grpc_link_axioms, of "sw_message ''a@b.c''" sw_server "sw_start []" ?w]
    by blast
qed

text \<open>A verification over a mailer whose SMTP server refuses everything, with saga reports and a
  store of keys that is always fresh.\<close>

definition refused_mailer :: "unit Mailer" where
  "refused_mailer = NewMailer (\<lambda>to sub body. ret (Some (Err ''550 no such user'')))
     (Some \<lparr>rpDelivered = (\<lambda>tok. ret None), rpFailed = (\<lambda>tok why. ret None)\<rparr>)
     (\<lambda>d. ret None) (\<lambda>t out. ret ()) (\<lambda>j. ''?'')"

definition fresh_keys :: "unit DedupStore" where
  "fresh_keys = \<lparr>MarkProcessed = (\<lambda>k. ret (Inr True)), Unmark = (\<lambda>k. ret None)\<rparr>"

theorem grpc_retries_reported_failure_witness:
  "fst (run (mailer_decision refused_mailer (json_print (marshal_DeliveryMessage verification_command))) ()) = ActAck"
proof -
  have "run (mailer_Deliver refused_mailer verification_command) () = (Some (Err ''550 no such user''), ())"
    by (simp add: refused_mailer_def NewMailer_def mailer_Deliver_def buildEmail_def verification_command_def
        email_event_types sendWithRetry_def maxSMTPRetries_def reportFailed_def reportWithRetry_def
        maxResultReportRetries_def eval_nat_numeral)
  moreover have "reporting refused_mailer verification_command" "carried verification_command"
    by (simp_all add: reporting_def refused_mailer_def NewMailer_def verification_command_def carried_def)
  moreover have "run (MarkProcessed fresh_keys ''k'') () = (Inr True, ())" by (simp add: fresh_keys_def)
  ultimately show ?thesis
    using grpc_retries_reported_failure[of refused_mailer verification_command "Err ''550 no such user''" "()" "()"
        fresh_keys "''k''" "()"]
    by (simp add: is_unknown_type_def)
qed

end
