(* ===== verification/Base64.thy ===== *)
theory Base64
  imports Json
begin

text \<open>
  \<open>base64.StdEncoding\<close>, in which \<open>encoding/json\<close> writes a \<open>[]byte\<close>, with the round trip. The decoder
  skips line ends, wants the padding, and ignores the unused bits before it.
\<close>

definition b64_char :: "nat \<Rightarrow> char" where
  "b64_char n =
     (if n < 26 then char_of (65 + n)
      else if n < 52 then char_of (71 + n)
      else if n < 62 then char_of (n - 4)
      else if n = 62 then CHR ''+'' else CHR ''/'')"

definition b64_val :: "char \<Rightarrow> nat option" where
  "b64_val c =
     (let n = of_char c :: nat
      in if 65 \<le> n \<and> n \<le> 90 then Some (n - 65)
         else if 97 \<le> n \<and> n \<le> 122 then Some (n - 71)
         else if 48 \<le> n \<and> n \<le> 57 then Some (n + 4)
         else if c = CHR ''+'' then Some 62
         else if c = CHR ''/'' then Some 63 else None)"

abbreviation byte :: "char \<Rightarrow> nat" where "byte \<equiv> of_char"

fun b64_encode :: "string \<Rightarrow> string" where
  "b64_encode [] = []"
| "b64_encode [a] = [b64_char (byte a div 4), b64_char (byte a mod 4 * 16), CHR ''='', CHR ''='']"
| "b64_encode [a, b] =
     [b64_char (byte a div 4), b64_char (byte a mod 4 * 16 + byte b div 16),
      b64_char (byte b mod 16 * 4), CHR ''='']"
| "b64_encode (a # b # c # s) =
     b64_char (byte a div 4) # b64_char (byte a mod 4 * 16 + byte b div 16)
       # b64_char (byte b mod 16 * 4 + byte c div 64) # b64_char (byte c mod 64) # b64_encode s"

fun b64_quads :: "string \<Rightarrow> string option" where
  "b64_quads [] = Some []"
| "b64_quads (p # q # r # t # s) =
     (case (b64_val p, b64_val q) of
        (Some i, Some j) \<Rightarrow>
          if r = CHR ''='' then (if t = CHR ''='' \<and> s = [] then Some [char_of (i * 4 + j div 16)] else None)
          else (case b64_val r of
                  None \<Rightarrow> None
                | Some k \<Rightarrow>
                    if t = CHR ''='' then
                      (if s = [] then Some [char_of (i * 4 + j div 16), char_of (j mod 16 * 16 + k div 4)] else None)
                    else (case (b64_val t, b64_quads s) of
                            (Some l, Some rest) \<Rightarrow>
                              Some (char_of (i * 4 + j div 16) # char_of (j mod 16 * 16 + k div 4)
                                    # char_of (k mod 4 * 64 + l) # rest)
                          | _ \<Rightarrow> None))
      | _ \<Rightarrow> None)"
| "b64_quads _ = None"

definition b64_decode :: "string \<Rightarrow> string option" where
  "b64_decode s = b64_quads (filter (\<lambda>c. c \<noteq> CHR 0x0A \<and> c \<noteq> CHR 0x0D) s)"

lemma char_neq: "(c :: char) \<noteq> d \<longleftrightarrow> byte c \<noteq> byte d"
  by simp

lemma b64_char_simps [simp]:
  assumes "n < 64"
  shows "b64_val (b64_char n) = Some n" "b64_char n \<noteq> CHR ''=''" "b64_char n \<noteq> CHR 0x0A" "b64_char n \<noteq> CHR 0x0D"
  using assms unfolding char_neq by (auto simp: b64_char_def b64_val_def Let_def)

lemma byte_less: "byte a < 256"
  using nat_of_char_less_256 by simp

lemma sextets_nat:
  fixes x y :: nat
  assumes "x < 256" and "y < 256"
  shows "x div 4 < 64" "x mod 4 * 16 < 64" "x mod 4 * 16 + y div 16 < 64"
    "x mod 16 * 4 < 64" "x mod 16 * 4 + y div 64 < 64"
    "x div 16 div 16 = 0" "x div 16 mod 16 * 16 + x mod 16 = x" "x div 64 div 4 = 0" "x div 64 mod 4 * 64 + x mod 64 = x"
proof -
  have d: "x div 16 < 16" "y div 16 < 16" "x div 64 < 4" "y div 64 < 4" "x div 4 < 64"
    using assms by (simp_all add: less_mult_imp_div_less)
  have m: "x mod 4 < 4" "x mod 16 < 16" by simp_all
  show "x div 4 < 64" "x mod 4 * 16 < 64" "x mod 4 * 16 + y div 16 < 64"
    "x mod 16 * 4 < 64" "x mod 16 * 4 + y div 64 < 64" using d m by linarith+
  show "x div 16 div 16 = 0" "x div 16 mod 16 * 16 + x mod 16 = x" "x div 64 div 4 = 0" "x div 64 mod 4 * 64 + x mod 64 = x"
    using d div_mult_mod_eq[of x 16] div_mult_mod_eq[of x 64] by simp_all
qed

lemmas sextets [simp] = sextets_nat[OF byte_less byte_less]

theorem b64_roundtrip: "b64_decode (b64_encode s) = Some s"
proof -
  have "filter (\<lambda>c. c \<noteq> CHR 0x0A \<and> c \<noteq> CHR 0x0D) (b64_encode s) = b64_encode s"
    by (induction s rule: b64_encode.induct) simp_all
  moreover have "b64_quads (b64_encode s) = Some s"
    by (induction s rule: b64_encode.induct) simp_all
  ultimately show ?thesis by (simp add: b64_decode_def)
qed

end
