(* ===== verification/Github_Cache.thy ===== *)
theory Github_Cache
  imports Github_Client Redis Base64 "HOL-Library.AList"
begin

text \<open>
  \<open>internal/api/github/cache.go\<close> and \<open>internal/infra/redis/cache.go\<close>: the transport that answers a
  request from the cache and stores what it fetched. The theorems: a stored response comes
  back as it was, whatever the network would answer, and it also does for a request with other
  headers, so that a \<open>304\<close> stored for a conditional request answers an unconditional one.
\<close>

section \<open>The cache\<close>

record 'w Cache =
  cacheGet :: "string \<Rightarrow> ('w, goerror + string) state"
  cacheSet :: "string \<Rightarrow> string \<Rightarrow> int64 \<Rightarrow> ('w, goerror option) state"

definition cache_Get :: "'w redis_client \<Rightarrow> string \<Rightarrow> ('w, goerror + string) state" where
  "cache_Get R key = redisGet R key"

definition cache_Set :: "'w redis_client \<Rightarrow> string \<Rightarrow> string \<Rightarrow> int64 \<Rightarrow> ('w, goerror option) state" where
  "cache_Set R key value ttl = redisSet R key value ttl"

definition NewCacheWithClient :: "'w redis_client \<Rightarrow> 'w Cache" where
  "NewCacheWithClient R = \<lparr>cacheGet = cache_Get R, cacheSet = cache_Set R\<rparr>"

definition NewCacheWithAddr ::
  "(string \<Rightarrow> ('w, 'w redis_client) state) \<Rightarrow> ('w, 'w redis_client) once \<Rightarrow> string \<Rightarrow> ('w, 'w Cache) state" where
  "NewCacheWithAddr newClient cell addr = do { R \<leftarrow> GetClient newClient cell addr; ret (NewCacheWithClient R) }"

section \<open>What is stored\<close>

record cachedHTTPResponse =
  cStatusCode :: int
  cHeader :: http_header
  cBody :: string

definition marshal_header :: "http_header \<Rightarrow> json" where
  "marshal_header h = JObj (map (\<lambda>(k, vs). (k, JArr (map JStr vs))) h)"

definition marshal_cached :: "cachedHTTPResponse \<Rightarrow> json" where
  "marshal_cached c =
     JObj [(''status_code'', JNum (Itoa (cStatusCode c))), (''header'', marshal_header (cHeader c)),
           (''body'', JStr (b64_encode (cBody c)))]"

text \<open>A \<open>map[string][]string\<close> and a \<open>[]byte\<close>; a \<open>null\<close> string is the empty one.\<close>

definition decode_string_elem :: "json \<Rightarrow> string option" where
  "decode_string_elem j = (case j of JStr s \<Rightarrow> Some s | JNull \<Rightarrow> Some [] | _ \<Rightarrow> None)"

definition decode_values :: "json \<Rightarrow> string list option" where
  "decode_values j =
     (case j of JArr js \<Rightarrow> those (map decode_string_elem js) | JNull \<Rightarrow> Some [] | _ \<Rightarrow> None)"

fun decode_entries :: "(string \<times> json) list \<Rightarrow> http_header \<Rightarrow> http_header option" where
  "decode_entries [] h = Some h"
| "decode_entries ((k, j) # kvs) h =
     (case decode_values j of None \<Rightarrow> None | Some vs \<Rightarrow> decode_entries kvs (AList.update k vs h))"

definition header_field :: "json \<Rightarrow> cachedHTTPResponse \<Rightarrow> cachedHTTPResponse option" where
  "header_field j c =
     (case j of
        JObj kvs \<Rightarrow> map_option (\<lambda>h. c\<lparr>cHeader := h\<rparr>) (decode_entries kvs (cHeader c))
      | JNull \<Rightarrow> Some c
      | _ \<Rightarrow> None)"

definition body_field :: "json \<Rightarrow> cachedHTTPResponse \<Rightarrow> cachedHTTPResponse option" where
  "body_field j c =
     (case j of
        JStr s \<Rightarrow> map_option (\<lambda>b. c\<lparr>cBody := b\<rparr>) (b64_decode s)
      | JNull \<Rightarrow> Some (c\<lparr>cBody := []\<rparr>)
      | _ \<Rightarrow> None)"

definition unmarshal_cached :: "string \<Rightarrow> cachedHTTPResponse option" where
  "unmarshal_cached = Unmarshal
     [(''status_code'', int_field (\<lambda>v c. c\<lparr>cStatusCode := v\<rparr>)), (''header'', header_field), (''body'', body_field)]
     \<lparr>cStatusCode = 0, cHeader = [], cBody = []\<rparr>"

section \<open>The transport\<close>

text \<open>\<open>ctReadAll\<close> reads the body of a response from the network.\<close>

record 'w CacheTransport =
  ctTransport :: "'w RoundTripper"
  ctCache :: "'w Cache option"
  ctTTL :: int64
  ctErrorTTL :: int64
  ctReadAll :: "http_response \<Rightarrow> ('w, goerror + string) state"

definition NewCacheTransport ::
  "'w RoundTripper \<Rightarrow> 'w Cache option \<Rightarrow> int64 \<Rightarrow> int64 \<Rightarrow> (http_response \<Rightarrow> ('w, goerror + string) state)
     \<Rightarrow> 'w CacheTransport" where
  "NewCacheTransport transport cache ttl errorTTL readAll =
     \<lparr>ctTransport = transport, ctCache = cache, ctTTL = ttl, ctErrorTTL = errorTTL, ctReadAll = readAll\<rparr>"

definition getCacheKey :: "string \<Rightarrow> string" where
  "getCacheKey endpoint = ''github_cache:'' @ endpoint"

definition cache_lookup :: "'w CacheTransport \<Rightarrow> string \<Rightarrow> ('w, cachedHTTPResponse option) state" where
  "cache_lookup t key =
     (case ctCache t of
        None \<Rightarrow> ret None
      | Some cache \<Rightarrow> do {
          got \<leftarrow> cacheGet cache key;
          ret (case got of Inl err \<Rightarrow> None | Inr cachedBytes \<Rightarrow> unmarshal_cached cachedBytes) })"

definition cache_store :: "'w CacheTransport \<Rightarrow> 'w Cache \<Rightarrow> string \<Rightarrow> http_response \<Rightarrow> ('w, goerror + http_response) state" where
  "cache_store t cache key resp = do {
     got \<leftarrow> ctReadAll t resp;
     case got of
       Inl err \<Rightarrow> ret (Inl err)
     | Inr bodyBytes \<Rightarrow> do {
         let resp = resp\<lparr>resBody := bodyBytes\<rparr>;
         let cached = \<lparr>cStatusCode = resStatusCode resp, cHeader = resHeader resp, cBody = bodyBytes\<rparr>;
         let ttl = (if 400 \<le> resStatusCode resp then ctErrorTTL t else ctTTL t);
         if sint ttl \<le> 0 then ret (Inr resp)
         else do {
           err \<leftarrow> cacheSet cache key (json_print (marshal_cached cached)) ttl;
           ret (Inr resp) } } }"

definition cache_RoundTrip :: "'w CacheTransport \<Rightarrow> 'w RoundTripper" where
  "cache_RoundTrip t req = do {
     let cacheKey = getCacheKey (URL req);
     hit \<leftarrow> cache_lookup t cacheKey;
     case hit of
       Some cached \<Rightarrow> ret (Inr \<lparr>resStatusCode = cStatusCode cached, resHeader = cHeader cached, resBody = cBody cached\<rparr>)
     | None \<Rightarrow> do {
         answered \<leftarrow> ctTransport t req;
         case answered of
           Inl err \<Rightarrow> ret (Inl err)
         | Inr resp \<Rightarrow>
             (case ctCache t of
                None \<Rightarrow> ret (Inr resp)
              | Some cache \<Rightarrow>
                  if Method req \<noteq> ''GET'' then ret (Inr resp) else cache_store t cache cacheKey resp) } }"

section \<open>The round trip of a stored response\<close>

lemma those_strings: "those (map decode_string_elem (map JStr vs)) = Some vs"
  by (induction vs) (simp_all add: decode_string_elem_def)

lemma update_new: "k \<notin> fst ` set h \<Longrightarrow> AList.update k v h = h @ [(k, v)]"
  by (induction h) auto

lemma decode_marshalled_entries:
  "distinct (map fst (h @ kvs)) \<Longrightarrow>
     decode_entries (map (\<lambda>(k, vs). (k, JArr (map JStr vs))) kvs) h = Some (h @ kvs)"
proof (induction kvs arbitrary: h)
  case Nil
  then show ?case by simp
next
  case (Cons kv kvs)
  obtain k vs where kv: "kv = (k, vs)" by (cases kv)
  have "decode_values (JArr (map JStr vs)) = Some vs"
    using those_strings by (simp add: decode_values_def)
  moreover have "AList.update k vs h = h @ [(k, vs)]" using Cons.prems kv by (intro update_new) auto
  ultimately show ?case using Cons.IH[of "h @ [(k, vs)]"] Cons.prems kv by simp
qed

lemma unmarshal_marshal_cached:
  assumes "distinct (map fst (cHeader c))" and "int64_in_range (cStatusCode c)"
  shows "unmarshal_cached (json_print (marshal_cached c)) = Some c"
proof -
  have "wf_json (marshal_cached c)"
    by (auto simp: marshal_cached_def marshal_header_def list_all_iff)
  then show ?thesis
    using decode_marshalled_entries[of "[]" "cHeader c"] assms
    by (simp add: unmarshal_cached_def Unmarshal_print marshal_cached_def marshal_header_def
        decode_struct_def set_member_def int_field_def header_field_def body_field_def b64_roundtrip ParseInt_Itoa)
qed

section \<open>The cache at work\<close>

text \<open>The network does not write to Redis.\<close>

locale cached_transport = redis_keys R live
  for R :: "'w redis_client" and live :: "'w \<Rightarrow> (string \<rightharpoonup> string)" +
  fixes t :: "'w CacheTransport"
  assumes redis_cache: "ctCache t = Some (NewCacheWithClient R)"
    and network_live: "\<And>req w r w'. run (ctTransport t req) w = (r, w') \<Longrightarrow> live w' = live w"
    and body_live: "\<And>resp w r w'. run (ctReadAll t resp) w = (r, w') \<Longrightarrow> live w' = live w"

definition storable :: "http_response \<Rightarrow> bool" where
  "storable resp \<longleftrightarrow> distinct (map fst (resHeader resp)) \<and> int64_in_range (resStatusCode resp)"

definition cached_of :: "http_response \<Rightarrow> cachedHTTPResponse" where
  "cached_of resp = \<lparr>cStatusCode = resStatusCode resp, cHeader = resHeader resp, cBody = resBody resp\<rparr>"

definition ttl_of :: "'w CacheTransport \<Rightarrow> http_response \<Rightarrow> int64" where
  "ttl_of t resp = (if 400 \<le> resStatusCode resp then ctErrorTTL t else ctTTL t)"

context cached_transport begin

lemma cache_store_run:
  assumes "run (cache_store t (NewCacheWithClient R) key resp) w = (Inr resp', w')"
  shows "live w' = live w
    \<or> (0 < sint (ttl_of t resp') \<and> live w' = (live w)(key \<mapsto> json_print (marshal_cached (cached_of resp'))))"
proof -
  obtain got w1 where 1: "run (ctReadAll t resp) w = (got, w1)" by (rule prod.exhaust)
  then obtain body where got: "got = Inr body"
    using assms by (cases got) (auto simp: cache_store_def)
  let ?r = "resp\<lparr>resBody := body\<rparr>"
  have ttl: "(if 400 \<le> resStatusCode ?r then ctErrorTTL t else ctTTL t) = ttl_of t ?r" by (simp add: ttl_of_def)
  show ?thesis
  proof (cases "sint (ttl_of t ?r) \<le> 0")
    case True
    then show ?thesis using assms 1 got body_live[OF 1] by (auto simp: cache_store_def ttl_of_def Let_def)
  next
    case False
    obtain e w2 where 2: "run (redisSet R key (json_print (marshal_cached (cached_of ?r))) (ttl_of t ?r)) w1 = (e, w2)"
      by (rule prod.exhaust)
    have "resp' = ?r \<and> w' = w2"
      using assms 1 2 got False
      by (auto simp: cache_store_def ttl_of_def cached_of_def Let_def NewCacheWithClient_def cache_Set_def split: if_splits)
    then show ?thesis using set[OF 2] body_live[OF 1] False by auto
  qed
qed

lemma miss_run:
  assumes "run (cache_RoundTrip t req) w = (Inr resp, w')" and "live w (getCacheKey (URL req)) = None"
    and "live w' (getCacheKey (URL req)) = Some doc"
  shows "0 < sint (ttl_of t resp) \<and> doc = json_print (marshal_cached (cached_of resp))"
proof -
  let ?key = "getCacheKey (URL req)"
  obtain got w1 where 1: "run (redisGet R ?key) w = (got, w1)" by (rule prod.exhaust)
  obtain e where got: "got = Inl e" using get[OF 1] assms(2) by (cases got) auto
  obtain ans w2 where 2: "run (ctTransport t req) w1 = (ans, w2)" by (rule prod.exhaust)
  have l2: "live w2 = live w" using get[OF 1] network_live[OF 2] by simp
  have rt: "(case ans of Inl err \<Rightarrow> (Inl err, w2) | Inr r \<Rightarrow>
        if Method req \<noteq> ''GET'' then (Inr r, w2) else run (cache_store t (NewCacheWithClient R) ?key r) w2) = (Inr resp, w')"
    using assms(1) 1 2 got
    by (auto simp: cache_RoundTrip_def cache_lookup_def redis_cache NewCacheWithClient_def cache_Get_def Let_def
        split: sum.splits)
  show ?thesis
  proof (cases ans)
    case (Inr r)
    show ?thesis
    proof (cases "Method req = ''GET''")
      case True
      then have "run (cache_store t (NewCacheWithClient R) ?key r) w2 = (Inr resp, w')" using rt Inr by simp
      from cache_store_run[OF this] l2 assms(2,3) show ?thesis by auto
    qed (use rt Inr l2 assms(2,3) in auto)
  qed (use rt in simp)
qed

lemma hit_run:
  assumes "live w (getCacheKey (URL req)) = Some (json_print (marshal_cached (cached_of resp)))" and "storable resp"
    and "run (redisGet R (getCacheKey (URL req))) w = (Inr v, w')" and "ctCache t' = ctCache t"
  shows "run (cache_RoundTrip t' req) w = (Inr resp, w')"
proof -
  have "v = json_print (marshal_cached (cached_of resp))" using get[OF assms(3)] assms(1) by simp
  then have "unmarshal_cached v = Some (cached_of resp)"
    using unmarshal_marshal_cached[of "cached_of resp"] assms(2) by (simp add: cached_of_def storable_def)
  then show ?thesis
    using assms(3,4)
    by (simp add: cache_RoundTrip_def cache_lookup_def redis_cache NewCacheWithClient_def cache_Get_def cached_of_def Let_def)
qed

end


text \<open>
  The key of an entry leaves out \<open>If-None-Match\<close>: a \<open>304\<close> stored for a conditional request also
  answers a client that has nothing cached itself and asks unconditionally. It gets no data
  and no error.
\<close>

theorem unconditional_request_gets_cached_304:
  assumes "cached_transport R live t" and "run (cache_RoundTrip t req) w = (Inr resp, w1)"
    and "live w (getCacheKey (URL req)) = None" and "live w1 (getCacheKey (URL req)) = Some doc" and "storable resp"
    and "resStatusCode resp = 304" and "run (redisGet R (getCacheKey (URL req))) w1 = (Inr v, w2)"
    and "httpDo c = cache_RoundTrip t" and "newRequest c (URL req) = None"
  shows "case fst (run (client_get c (URL req) '''' zero (CreateStatusHandler zero decoder)) w1) of answer \<Rightarrow>
    rStatusCode answer = 304 \<and> rData answer = zero \<and> rError answer = None"
proof -
  have "run (cache_RoundTrip t \<lparr>Method = ''GET'', URL = URL req, reqHeader = []\<rparr>) w1 = (Inr resp, w2)"
    using cached_transport.miss_run[OF assms(1-4)] assms(4,7)
    by (intro cached_transport.hit_run[OF assms(1) _ assms(5)]) simp_all
  then show ?thesis
    using assms(6,8,9)
    by (simp add: client_get_def CreateStatusHandler_def formatResponse_def split: prod.splits)
qed

section \<open>A cache in memory\<close>

definition map_redis :: "(string \<rightharpoonup> string) redis_client" where
  "map_redis =
     \<lparr>redisSetNX = \<lambda>key v ttl. State (\<lambda>m. if m key = None then (None, m(key \<mapsto> v)) else (Some RedisNil, m)),
      redisDel = \<lambda>key. State (\<lambda>m. (None, m(key := None))),
      redisGet = \<lambda>key. State (\<lambda>m. (case m key of None \<Rightarrow> Inl RedisNil | Some v \<Rightarrow> Inr v, m)),
      redisSet = \<lambda>key v ttl. State (\<lambda>m. (None, m(key \<mapsto> v)))\<rparr>"

text \<open>GitHub says that what the client has is current, when it says what it has.\<close>

definition not_modified :: http_response where
  "not_modified = \<lparr>resStatusCode = 304, resHeader = [(''ETag'', [''e1''])], resBody = ''''\<rparr>"

definition mem_transport :: "(string \<rightharpoonup> string) CacheTransport" where
  "mem_transport = NewCacheTransport (\<lambda>req. ret (Inr not_modified)) (Some (NewCacheWithClient map_redis))
     60000000000 5000000000 (\<lambda>resp. ret (Inr (resBody resp)))"

interpretation mem_cache: cached_transport map_redis "\<lambda>m. m" mem_transport
  by unfold_locales (auto simp: map_redis_def mem_transport_def NewCacheTransport_def split: if_splits option.splits)

definition conditional :: http_request where
  "conditional = \<lparr>Method = ''GET'', URL = ''u'', reqHeader = [(''If-None-Match'', ''e1'')]\<rparr>"

definition cached_doc :: string where
  "cached_doc = json_print (marshal_cached (cached_of not_modified))"

lemma mem_miss:
  "run (cache_RoundTrip mem_transport conditional) Map.empty = (Inr not_modified, [getCacheKey ''u'' \<mapsto> cached_doc])"
  by (simp add: cache_RoundTrip_def cache_lookup_def cache_store_def mem_transport_def NewCacheTransport_def
      NewCacheWithClient_def cache_Get_def cache_Set_def map_redis_def conditional_def cached_doc_def cached_of_def
      not_modified_def Let_def)

lemma not_modified_storable: "storable not_modified"
  by (simp add: storable_def not_modified_def int64_in_range_def)

lemma mem_hit: "run (redisGet map_redis (getCacheKey ''u'')) [getCacheKey ''u'' \<mapsto> cached_doc]
    = (Inr cached_doc, [getCacheKey ''u'' \<mapsto> cached_doc])"
  by (simp add: map_redis_def)


definition cached_client :: "(string \<rightharpoonup> string) Client" where
  "cached_client = \<lparr>httpDo = cache_RoundTrip mem_transport, newRequest = \<lambda>_. None, clientNow = ret 0,
     parseDate = \<lambda>_. None, BaseURL = ''u''\<rparr>"

theorem unconditional_request_gets_cached_304_witness:
  "rStatusCode (fst (run (client_get cached_client ''u'' '''' (0 :: int) (CreateStatusHandler 0 (\<lambda>_. (1, None))))
      [getCacheKey ''u'' \<mapsto> cached_doc])) = 304"
  using unconditional_request_gets_cached_304[OF mem_cache.cached_transport_axioms mem_miss _ _ not_modified_storable,
      of cached_doc cached_doc "[getCacheKey ''u'' \<mapsto> cached_doc]" cached_client "0 :: int" "\<lambda>_. (1, None)"] mem_hit
  by (simp add: conditional_def cached_client_def not_modified_def)

end
