(* ===== verification/Reconnect.thy ===== *)
theory Reconnect
  imports Amqp
begin

text \<open>
  \<open>internal/infra/rabbitmq/connection.go\<close>: the connection that is opened again with a capped
  exponential backoff, and on which the topology is declared before it is used. The AMQP
  client and \<open>time.Sleep\<close> are parameters. The theorem gives the exact waits of \<open>connect\<close>.
\<close>

record 'w amqp_conn =
  connChannel :: "('w, goerror + 'w channel) state"
  connClose :: "('w, goerror option) state"
  connClosed :: "('w, string option) state"

text \<open>\<open>connClosed\<close> waits on \<open>NotifyClose\<close>: the reason of an error, or \<open>None\<close> for a clean close.
  \<open>getConn\<close> and \<open>setConn\<close> are \<open>c.conn\<close> under the mutex.\<close>

record 'w reconnecting =
  dial :: "('w, goerror + 'w amqp_conn) state"
  sleep :: "int \<Rightarrow> ('w, unit) state"
  getConn :: "('w, 'w amqp_conn option) state"
  setConn :: "'w amqp_conn \<Rightarrow> ('w, unit) state"
  retryPolicy :: RetryPolicy

definition initialBackoff :: int where "initialBackoff = 500 * 1000000"
definition maxBackoff :: int where "maxBackoff = 30 * 1000000000"
definition backoffFactor :: int where "backoffFactor = 2"

definition next_backoff :: "int \<Rightarrow> int" where
  "next_backoff backoff = min (backoff * backoffFactor) maxBackoff"

text \<open>One turn of \<open>connect\<close>'s loop: whether it is over.\<close>

definition try_connect :: "'w reconnecting \<Rightarrow> ('w, bool) state" where
  "try_connect c = do {
     dialled \<leftarrow> dial c;
     case dialled of
       Inl err \<Rightarrow> ret False
     | Inr conn \<Rightarrow> do {
         opened \<leftarrow> connChannel conn;
         case opened of
           Inl chErr \<Rightarrow> do { connClose conn; ret False }
         | Inr ch \<Rightarrow> do {
             declErr \<leftarrow> declareTopology (declaring ch) (retryPolicy c);
             chClose ch;
             (case declErr of
                Some e \<Rightarrow> do { connClose conn; ret False }
              | None \<Rightarrow> do { setConn c conn; ret True }) } } }"

text \<open>The loop, with the number of turns to unroll; \<open>None\<close> is a loop still trying.\<close>

fun connect_loop :: "nat \<Rightarrow> 'w reconnecting \<Rightarrow> int \<Rightarrow> ('w, unit option) state" where
  "connect_loop 0 c backoff = ret None"
| "connect_loop (Suc fuel) c backoff = do {
     connected \<leftarrow> try_connect c;
     if connected then ret (Some ())
     else do { sleep c backoff; connect_loop fuel c (next_backoff backoff) } }"

definition connect :: "nat \<Rightarrow> 'w reconnecting \<Rightarrow> ('w, unit option) state" where
  "connect fuel c = connect_loop fuel c initialBackoff"

text \<open>\<open>watchAndReconnect\<close>, each reconnection with its own number of turns; the connection is set
  when it runs.\<close>

fun watchAndReconnect :: "nat \<Rightarrow> nat \<Rightarrow> 'w reconnecting \<Rightarrow> ('w, unit option) state" where
  "watchAndReconnect 0 turns c = ret None"
| "watchAndReconnect (Suc fuel) turns c = do {
     conn \<leftarrow> getConn c;
     case conn of
       None \<Rightarrow> ret None
     | Some conn \<Rightarrow> do {
         amqpErr \<leftarrow> connClosed conn;
         case amqpErr of
           None \<Rightarrow> ret (Some ())
         | Some reason \<Rightarrow> do {
             connected \<leftarrow> connect turns c;
             (case connected of None \<Rightarrow> ret None | Some _ \<Rightarrow> watchAndReconnect fuel turns c) } } }"

text \<open>\<open>Dial\<close> returns once the first \<open>connect\<close> has; \<open>watchAndReconnect\<close> then runs beside the caller.\<close>

definition conn_Dial :: "nat \<Rightarrow> 'w reconnecting \<Rightarrow> ('w, 'w reconnecting option) state" where
  "conn_Dial fuel c = do {
     connected \<leftarrow> connect fuel c;
     ret (map_option (\<lambda>_. c) connected) }"

definition conn_Channel :: "'w reconnecting \<Rightarrow> ('w, goerror + 'w channel) state" where
  "conn_Channel c = do {
     conn \<leftarrow> getConn c;
     case conn of None \<Rightarrow> ret (Inl (Err ''rabbitmq: not connected'')) | Some conn \<Rightarrow> connChannel conn }"

definition conn_Close :: "'w reconnecting \<Rightarrow> ('w, goerror option) state" where
  "conn_Close c = do {
     conn \<leftarrow> getConn c;
     case conn of None \<Rightarrow> ret None | Some conn \<Rightarrow> connClose conn }"

text \<open>The connection as consumers and publishers use it; settling a delivery is a call of the
  delivery itself.\<close>

definition connection_of :: "'w Connection \<Rightarrow> 'w reconnecting \<Rightarrow> 'w Connection" where
  "connection_of deliveries c = deliveries\<lparr>Channel := conn_Channel c\<rparr>"

definition DeclareEphemeralQueue :: "'w reconnecting \<Rightarrow> string \<Rightarrow> string \<Rightarrow> string \<Rightarrow> ('w, goerror option) state" where
  "DeclareEphemeralQueue c exchange queue routingKey = do {
     opened \<leftarrow> conn_Channel c;
     case opened of
       Inl err \<Rightarrow> ret (Some (Err (''ephemeral queue: open channel: '' @ err_text err)))
     | Inr ch \<Rightarrow> do {
         err \<leftarrow> and_then
           (wrapping (''ephemeral queue: declare '' @ queue @ '': '')
             (QueueDeclare (declaring ch) queue False True True False Map.empty))
           (wrapping (''ephemeral queue: bind '' @ queue @ '' to '' @ exchange @ '': '')
             (QueueBind (declaring ch) queue routingKey exchange False Map.empty));
         closeErr \<leftarrow> chClose ch;
         ret err } }"

section \<open>The waits\<close>

text \<open>The wait after the failed turn \<open>i\<close>: half a second, doubled each time, thirty seconds at
  most.\<close>

definition backoff_after :: "nat \<Rightarrow> int" where
  "backoff_after i = min (initialBackoff * 2 ^ i) maxBackoff"

lemma next_backoff_after: "next_backoff (backoff_after i) = backoff_after (Suc i)"
  by (simp add: next_backoff_def backoff_after_def backoffFactor_def initialBackoff_def maxBackoff_def min_def)

lemma backoff_after_0: "backoff_after 0 = initialBackoff"
  by (simp add: backoff_after_def initialBackoff_def maxBackoff_def)

text \<open>Only \<open>Sleep\<close> waits.\<close>

locale sleeping =
  fixes c :: "'w reconnecting" and slept :: "'w \<Rightarrow> int list"
  assumes sleeps: "\<And>d w r w'. run (sleep c d) w = (r, w') \<Longrightarrow> slept w' = slept w @ [d]"
    and tries: "\<And>w r w'. run (try_connect c) w = (r, w') \<Longrightarrow> slept w' = slept w"

context sleeping begin

lemma connect_loop_waits:
  assumes "run (connect_loop fuel c (backoff_after i)) w = (r, w')"
  shows "\<exists>k \<le> fuel. slept w' = slept w @ map backoff_after [i ..< i + k] \<and> (r = None \<longrightarrow> k = fuel) \<and> (r \<noteq> None \<longrightarrow> k < fuel)"
  using assms
proof (induction fuel arbitrary: i w)
  case 0
  then show ?case by simp
next
  case (Suc fuel)
  obtain ok w1 where 1: "run (try_connect c) w = (ok, w1)" by (rule prod.exhaust)
  show ?case
  proof (cases ok)
    case True
    then show ?thesis using Suc.prems 1 tries[OF 1] by (intro exI[of _ 0]) simp
  next
    case False
    obtain u w2 where 2: "run (sleep c (backoff_after i)) w1 = (u, w2)" by (rule prod.exhaust)
    have "run (connect_loop fuel c (backoff_after (Suc i))) w2 = (r, w')"
      using Suc.prems 1 2 False by (simp add: next_backoff_after)
    from Suc.IH[OF this] obtain k where k: "k \<le> fuel"
      "slept w' = slept w2 @ map backoff_after [Suc i ..< Suc i + k]" "r = None \<longrightarrow> k = fuel" "r \<noteq> None \<longrightarrow> k < fuel"
      by blast
    have "backoff_after i # map backoff_after [Suc i ..< Suc i + k] = map backoff_after [i ..< i + Suc k]"
      by (subst (2) upt_conv_Cons) simp_all
    then show ?thesis using k sleeps[OF 2] tries[OF 1] by (intro exI[of _ "Suc k"]) simp
  qed
qed

end

text \<open>
  C38: \<open>connect\<close> waits half a second after its first failure, twice as long after each further one,
  and never more than thirty seconds; it returns after the first turn that dialled, opened a
  channel and declared the whole topology, and goes on for ever as long as none does.
\<close>

theorem connect_backs_off:
  assumes "sleeping c slept" and "run (connect fuel c) w = (r, w')"
  shows "\<exists>k \<le> fuel. slept w' = slept w @ map backoff_after [0 ..< k]
    \<and> (r = None \<longrightarrow> k = fuel) \<and> (r \<noteq> None \<longrightarrow> k < fuel)
    \<and> list_all (\<lambda>d. 500000000 \<le> d \<and> d \<le> 30000000000) (map backoff_after [0 ..< k])"
proof -
  have "list_all (\<lambda>d. 500000000 \<le> d \<and> d \<le> 30000000000) (map backoff_after [0 ..< k])" for k
    using one_le_power[of "2 :: int"] by (auto simp: list_all_iff backoff_after_def initialBackoff_def maxBackoff_def)
  then show ?thesis
    using sleeping.connect_loop_waits[OF assms(1), of fuel 0 w r w'] assms(2)
    by (simp add: connect_def backoff_after_0)
qed

text \<open>A broker that is down for a number of dials; the world keeps that number and the waits.\<close>

definition flaky :: "(nat \<times> int list) reconnecting" where
  "flaky =
     (let ch = \<lparr>declaring = \<lparr>ExchangeDeclare = \<lambda>_ _ _ _ _ _ _. ret None, QueueDeclare = \<lambda>_ _ _ _ _ _. ret None,
                  QueueBind = \<lambda>_ _ _ _ _. ret None\<rparr>,
                chConfirm = ret None, chPublish = \<lambda>_ _ _. ret None, awaitConfirm = ret (Confirmation True),
                chQos = \<lambda>_ _ _. ret None, chConsume = \<lambda>_ _ _ _ _ _ _. ret None, chRecv = ret RecvClosed,
                chClose = ret None\<rparr>;
          conn = \<lparr>connChannel = ret (Inr ch), connClose = ret None, connClosed = ret None\<rparr>
      in \<lparr>dial = State (\<lambda>(n, ds). if n = 0 then (Inr conn, (0, ds)) else (Inl (Err ''refused''), (n - 1, ds))),
          sleep = \<lambda>d. State (\<lambda>(n, ds). ((), (n, ds @ [d]))), getConn = ret (Some conn), setConn = \<lambda>_. ret (),
          retryPolicy = NewRetryPolicy 0 1 0\<rparr>)"

lemma wrapping_none: "wrapping msg (ret None) = ret None"
  by (simp add: wrapping_def)

lemma for_err_none: "for_err xs (\<lambda>_. ret None) = ret None"
  by (induction xs) simp_all

interpretation flaky_waits: sleeping flaky snd
proof
  fix w r w'
  assume "run (try_connect flaky) w = (r, w')"
  then show "snd w' = snd w"
    by (cases w) (auto simp: try_connect_def flaky_def Let_def declareTopology_def declareEndpoint_def wrapping_none
        for_err_none split: if_splits)
qed (auto simp: flaky_def Let_def)

theorem connect_backs_off_witness:
  "\<exists>k \<le> 9. snd (snd (run (connect 9 flaky) (8, []))) = map backoff_after [0 ..< k]"
  using connect_backs_off[OF flaky_waits.sleeping_axioms, of 9 "(8, [])" "fst (run (connect 9 flaky) (8, []))"
      "snd (run (connect 9 flaky) (8, []))"]
  by auto

end
