(* ===== verification/Server.thy ===== *)
theory Server
  imports Scanner Saga_Flow Grpc_Mailer Github_Cache Config Reconnect
begin

text \<open>
  How the entry points \<open>cmd/server\<close>, \<open>cmd/notifier\<close> and \<open>cmd/mailer\<close> put the components together
  from the configuration and the libraries; the \<open>main\<close> functions around it are in
  \<open>Main_Programs\<close>. The theorem: what a request to GitHub costs through the three transports of the
  server.
\<close>

section \<open>The libraries\<close>

text \<open>What the services get from outside: GORM, the clock, the identifiers, the random source,
  the counters, Redis, HTTP and its client with a timeout, the token bucket and the broker.\<close>

record 'w http_libraries =
  libNow :: "('w, int) state"
  libRedis :: "'w redis_client"
  libTransport :: "'w RoundTripper"
  libHttpClient :: "'w RoundTripper \<Rightarrow> int \<Rightarrow> 'w RoundTripper"
  libNewRequest :: "string \<Rightarrow> goerror option"
  libParseDate :: "string \<Rightarrow> time option"
  libReadAll :: "http_response \<Rightarrow> ('w, goerror + string) state"
  libLimits :: "'w limit_cell"

record 'w libraries = "'w http_libraries" +
  libGorm :: "'w gorm_db"
  libServices :: "'w services"
  libRand :: "('w, goerror + 8 word list) state"
  libInc :: "string \<Rightarrow> ('w, unit) state"
  libBucket :: "'w limiter"
  libConn :: "'w Connection"

definition rabbit_publisher :: "'w libraries \<Rightarrow> 'w Broker" where
  "rabbit_publisher L exchange routingKey doc = publisher_Publish (libConn L) exchange routingKey (Inr doc)"

section \<open>The server\<close>

text \<open>The transports from the inside out: the token, the rate limits, the cache.\<close>

definition github_transport ::
  "('w, 'x) http_libraries_scheme \<Rightarrow> GithubConfig \<Rightarrow> ('w, 'w RoundTripper) state" where
  "github_transport L cfg = do {
     let authTransport = NewAuthTransport (libTransport L) (Token cfg);
     now \<leftarrow> libNow L;
     rateLimitTransport \<leftarrow> NewRateLimitTransport (libParseDate L) (libNow L) (libLimits L) authTransport
       (GetBaseRateLimits (Token cfg) now);
     ret (cache_RoundTrip (NewCacheTransport rateLimitTransport (Some (NewCacheWithClient (libRedis L)))
       (word_of_int (CacheTTL cfg)) (word_of_int (CacheErrorTTL cfg)) (libReadAll L))) }"

definition github_client :: "('w, 'x) http_libraries_scheme \<Rightarrow> GithubConfig \<Rightarrow> 'w RoundTripper \<Rightarrow> 'w Client" where
  "github_client L cfg cacheTransport =
     NewClient (libHttpClient L (libTransport L) 0) (libNewRequest L) (libNow L) (libParseDate L)
       [WithHTTPClient (libHttpClient L cacheTransport (Timeout cfg))]"

definition sagaResultPrefetch :: int where "sagaResultPrefetch = 10"

record 'w server_parts =
  spHandler :: "'w SubscriptionHandler"
  spScanner :: "'w Scanner"
  spRelay :: "'w Relay"
  spReaper :: "'w Reaper"
  spOrchestrator :: "'w Orchestrator"
  spSagaConsumer :: "'w Consumer"

definition wire_server :: "'w libraries \<Rightarrow> ServerConfig \<Rightarrow> 'w RoundTripper \<Rightarrow> 'w server_parts" where
  "wire_server L cfg cacheTransport =
     (let ghClient = github_client L (scGitHub cfg) cacheTransport;
          sagaStore = NewStore (libGorm L) (libNow L);
          orch = NewOrchestrator sagaStore
      in \<lparr>spHandler = NewSubscriptionHandler (NewSubscriptionStore (libGorm L)) (GetRepository ghClient) (libRand L)
            (libServices L) (libInc L),
          spScanner = NewScanner (libGorm L) (libNow L) (libServices L) (libBucket L) ghClient
            (Some (GetRateLimits (libLimits L))) (scScanner cfg),
          spRelay = NewRelay (libGorm L) (rabbit_publisher L) (obBatchSize (scOutbox cfg)),
          spReaper = NewReaper sagaStore (srPollInterval (scSaga cfg)) (StaleAfter (scSaga cfg)),
          spOrchestrator = orch,
          spSagaConsumer = NewConsumer (libConn L) (Queues OnboardingSagaEndpoint) sagaResultPrefetch
            (configured_policy (scRabbitMQ cfg)) (orchestrator_Handler (orchStore orch))\<rparr>)"

definition build_server :: "'w libraries \<Rightarrow> ServerConfig \<Rightarrow> ('w, 'w server_parts) state" where
  "build_server L cfg = do {
     cacheTransport \<leftarrow> github_transport L (scGitHub cfg);
     ret (wire_server L cfg cacheTransport) }"

lemmas build_server_parts = build_server_def wire_server_def

section \<open>The notifier\<close>

definition transportGRPC :: string where "transportGRPC = ''grpc''"

text \<open>The publisher and the function that releases it; \<open>newClient\<close> is \<open>grpc.NewClient\<close>.\<close>

definition newCommandPublisher ::
  "(string \<Rightarrow> ('w, goerror + 'w grpc_conn) state) \<Rightarrow> NotifierConfig \<Rightarrow> 'w Broker
     \<Rightarrow> ('w, goerror + ('w CommandPublisher \<times> ('w, goerror option) state)) state" where
  "newCommandPublisher newClient cfg publisher =
     (if DeliveryTransport cfg = transportGRPC then do {
        dialled \<leftarrow> grpc_Dial newClient (MailerGRPCAddr cfg);
        ret (case dialled of
           Inl err \<Rightarrow> Inl err
         | Inr client \<Rightarrow> Inr (grpc_Publish client, grpc_Close client)) }
      else ret (Inr (command_Publish publisher, ret None)))"

text \<open>\<open>time.Duration(hours) * time.Hour\<close> wraps.\<close>

definition dedup_ttl :: "int \<Rightarrow> int64" where
  "dedup_ttl hours = word_of_int hours * word_of_int (3600 * second)"

text \<open>The consumer that every worker of the notifier starts.\<close>

definition wire_notifier :: "'w libraries \<Rightarrow> NotifierConfig \<Rightarrow> 'w CommandPublisher \<Rightarrow> 'w Consumer" where
  "wire_notifier L cfg publisher =
     NewConsumer (libConn L) (Queues NotificationsEndpoint) (ncPrefetchCount cfg) (configured_policy (ncRabbitMQ cfg))
       (notifier_Handler (NewNotifier publisher (NewDedup (libRedis L) (dedup_ttl (DedupTTLHours cfg)))))"

section \<open>The mailer\<close>

text \<open>\<open>newGRPCServer\<close>: the listener of the library (\<open>net.Listen\<close>) and the server that answers on it.\<close>

definition newGRPCServer ::
  "(string \<Rightarrow> ('w, goerror option) state) \<Rightarrow> (string \<Rightarrow> string \<Rightarrow> ('w, unit) state) \<Rightarrow> string
     \<Rightarrow> 'w Deliverer \<Rightarrow> ('w, goerror + 'w Server) state" where
  "newGRPCServer listen observe addr d = do {
     err \<leftarrow> listen addr;
     ret (case err of Some e \<Rightarrow> Inl e | None \<Rightarrow> Inr \<lparr>deliverer = d, srvObserve = observe\<rparr>) }"

definition wire_mailer ::
  "'w mail_library \<Rightarrow> (int64 \<Rightarrow> ('w, goerror option) state) \<Rightarrow> (string \<Rightarrow> string \<Rightarrow> ('w, unit) state) \<Rightarrow> (json \<Rightarrow> string)
     \<Rightarrow> 'w libraries \<Rightarrow> MailerConfig \<Rightarrow> 'w Mailer \<times> 'w Consumer" where
  "wire_mailer mail wait observe format L cfg =
     (let smtp = mcSMTP cfg;
          smtpClient = smtp_NewClient (Config.smtpHost smtp) (Config.smtpPort smtp) (Config.smtpUsername smtp)
            (Config.smtpPassword smtp) (Config.smtpFrom smtp) (Config.smtpSenderEmail smtp);
          mlr = wired_mailer mail smtpClient (libServices L) (rabbit_publisher L) wait observe format
      in (mlr, NewConsumer (libConn L) (Queues CommandsEndpoint) (mcPrefetchCount cfg)
            (configured_policy (mcRabbitMQ cfg)) (mailer_Handler mlr)))"

section \<open>What a request to GitHub costs\<close>

text \<open>The requests that reached the network and the limits in the transport's cell. Redis, the
  clock and reading a body change neither.\<close>

locale github_world =
  fixes L :: "('w, 'x) http_libraries_scheme" and sent :: "'w \<Rightarrow> http_request list" and tracked :: "'w \<Rightarrow> RateLimits"
  assumes network: "\<And>req w r w'. run (libTransport L req) w = (r, w') \<Longrightarrow> sent w' = sent w @ [req] \<and> tracked w' = tracked w"
    and clock: "\<And>w t w'. run (libNow L) w = (t, w') \<Longrightarrow> sent w' = sent w \<and> tracked w' = tracked w"
    and read_cell: "\<And>w l w'. run (readLimits (libLimits L)) w = (l, w') \<Longrightarrow>
      l = tracked w \<and> sent w' = sent w \<and> tracked w' = tracked w"
    and write_cell: "\<And>l w u w'. run (writeLimits (libLimits L) l) w = (u, w') \<Longrightarrow> sent w' = sent w \<and> tracked w' = l"
    and redis_get: "\<And>k w r w'. run (redisGet (libRedis L) k) w = (r, w') \<Longrightarrow> sent w' = sent w \<and> tracked w' = tracked w"
    and redis_set: "\<And>k v ttl w r w'. run (redisSet (libRedis L) k v ttl) w = (r, w') \<Longrightarrow>
      sent w' = sent w \<and> tracked w' = tracked w"
    and body: "\<And>res w r w'. run (libReadAll L res) w = (r, w') \<Longrightarrow> sent w' = sent w \<and> tracked w' = tracked w"

text \<open>The request as it leaves the server.\<close>

definition authorized :: "string \<Rightarrow> http_request \<Rightarrow> http_request" where
  "authorized token req =
     (if token \<noteq> '''' then req\<lparr>reqHeader := header_set ''Authorization'' (''Bearer '' @ token) (reqHeader req)\<rparr>
      else req)"

text \<open>The limits after an answer of the network: those of before, moved by its headers.\<close>

definition limits_follow ::
  "(string \<Rightarrow> time option) \<Rightarrow> goerror + http_response \<Rightarrow> RateLimits \<Rightarrow> RateLimits \<Rightarrow> bool" where
  "limits_follow parse_date answer before after =
     (case answer of
        Inl _ \<Rightarrow> after = before
      | Inr res \<Rightarrow> \<exists>t. after = update_limits (extractRateLimits parse_date (resHeader res) t) before)"

context github_world begin

lemma rate_limited_run:
  assumes "run (ratelimit_RoundTrip (libParseDate L) (libNow L) (libLimits L) (NewAuthTransport (libTransport L) token) req) w
    = (r, w')"
  shows "sent w' = sent w @ [authorized token req] \<and> limits_follow (libParseDate L) r (tracked w) (tracked w')"
proof -
  obtain ans w1 where 1: "run (libTransport L (authorized token req)) w = (ans, w1)" by (rule prod.exhaust)
  have auth: "NewAuthTransport (libTransport L) token req = libTransport L (authorized token req)"
    by (simp add: NewAuthTransport_def auth_RoundTrip_def authorized_def)
  show ?thesis
  proof (cases ans)
    case (Inl e)
    then show ?thesis
      using assms 1 network[OF 1] by (auto simp: ratelimit_RoundTrip_def auth limits_follow_def)
  next
    case (Inr res)
    obtain t w2 where 2: "run (libNow L) w1 = (t, w2)" by (rule prod.exhaust)
    obtain l w3 where 3: "run (readLimits (libLimits L)) w2 = (l, w3)" by (rule prod.exhaust)
    obtain u w4 where 4: "run (writeLimits (libLimits L)
        (update_limits (extractRateLimits (libParseDate L) (resHeader res) t) l)) w3 = (u, w4)" by (rule prod.exhaust)
    have "r = Inr res \<and> w' = w4"
      using assms 1 2 3 4 Inr by (auto simp: ratelimit_RoundTrip_def auth)
    then show ?thesis
      using network[OF 1] clock[OF 2] read_cell[OF 3] write_cell[OF 4] by (auto simp: limits_follow_def)
  qed
qed

lemma cache_store_quiet:
  assumes "run (cache_store t (NewCacheWithClient (libRedis L)) key resp) w = (r, w')" and "ctReadAll t = libReadAll L"
  shows "sent w' = sent w \<and> tracked w' = tracked w \<and> (\<forall>res. r = Inr res \<longrightarrow> resHeader res = resHeader resp)"
  using assms
  by (auto simp: cache_store_def Let_def NewCacheWithClient_def cache_Set_def split: prod.splits sum.splits if_splits
      dest!: body redis_set)

lemma cached_run:
  assumes t: "ctCache t = Some (NewCacheWithClient (libRedis L))" "ctReadAll t = libReadAll L"
    and net: "\<And>w r w'. run (ctTransport t req) w = (r, w') \<Longrightarrow>
      sent w' = sent w @ [out] \<and> limits_follow pd r (tracked w) (tracked w')"
    and run: "run (cache_RoundTrip t req) w = (r, w')"
  shows "(\<exists>res. r = Inr res) \<and> sent w' = sent w \<and> tracked w' = tracked w
    \<or> sent w' = sent w @ [out] \<and> (\<exists>ans. limits_follow pd ans (tracked w) (tracked w')
         \<and> (\<forall>res. r = Inr res \<longrightarrow> (\<exists>res0. ans = Inr res0 \<and> resHeader res = resHeader res0)))"
proof -
  obtain hit w1 where 1: "run (cache_lookup t (getCacheKey (URL req))) w = (hit, w1)" by (rule prod.exhaust)
  have q1: "sent w1 = sent w" "tracked w1 = tracked w"
    using 1 t by (auto simp: cache_lookup_def NewCacheWithClient_def cache_Get_def split: prod.splits dest!: redis_get)
  obtain ans w2 where 2: "run (ctTransport t req) w1 = (ans, w2)" by (rule prod.exhaust)
  show ?thesis
  proof (cases hit)
    case (Some c)
    then show ?thesis using run 1 q1 by (auto simp: cache_RoundTrip_def Let_def)
  next
    case None
    then have after: "run (case ans of Inl err \<Rightarrow> ret (Inl err)
        | Inr resp \<Rightarrow> if Method req \<noteq> ''GET'' then ret (Inr resp)
            else cache_store t (NewCacheWithClient (libRedis L)) (getCacheKey (URL req)) resp) w2 = (r, w')"
      using run 1 2 t by (auto simp: cache_RoundTrip_def Let_def split: sum.splits)
    show ?thesis
      using after net[OF 2] q1 t(2)
      by (auto split: sum.splits if_splits dest!: cache_store_quiet intro!: exI[of _ ans])
  qed
qed

end

text \<open>
  C25: A request through the server's transports either is answered by the cache, and then neither
  reaches the network nor moves the tracked limits, or reaches it once, with the token in its
  \<open>Authorization\<close> header when one is configured; the limits, which start at the base limits of
  the token, then follow the headers of the network's answer, and these are the headers the
  caller sees.
\<close>

theorem github_request_cost:
  assumes "github_world L sent tracked" and "run (github_transport L cfg) w0 = (stack, w1)"
    and "run (stack req) w = (r, w')"
  shows "(\<exists>t. tracked w1 = GetBaseRateLimits (Token cfg) t)
    \<and> ((\<exists>res. r = Inr res) \<and> sent w' = sent w \<and> tracked w' = tracked w
     \<or> sent w' = sent w @ [authorized (Token cfg) req] \<and> (\<exists>ans. limits_follow (libParseDate L) ans (tracked w) (tracked w')
         \<and> (\<forall>res. r = Inr res \<longrightarrow> (\<exists>res0. ans = Inr res0 \<and> resHeader res = resHeader res0))))"
proof -
  obtain now w2 where 2: "run (libNow L) w0 = (now, w2)" by (rule prod.exhaust)
  obtain u w3 where 3: "run (writeLimits (libLimits L) (GetBaseRateLimits (Token cfg) now)) w2 = (u, w3)"
    by (rule prod.exhaust)
  define t where "t = NewCacheTransport (ratelimit_RoundTrip (libParseDate L) (libNow L) (libLimits L)
      (NewAuthTransport (libTransport L) (Token cfg))) (Some (NewCacheWithClient (libRedis L)))
      (word_of_int (CacheTTL cfg)) (word_of_int (CacheErrorTTL cfg)) (libReadAll L)"
  have stack: "stack = cache_RoundTrip t" and w1: "w1 = w3"
    using assms(2) 2 3 by (auto simp: github_transport_def NewRateLimitTransport_def t_def Let_def)
  have t: "ctCache t = Some (NewCacheWithClient (libRedis L))" "ctReadAll t = libReadAll L"
    "ctTransport t = ratelimit_RoundTrip (libParseDate L) (libNow L) (libLimits L)
      (NewAuthTransport (libTransport L) (Token cfg))"
    by (simp_all add: t_def NewCacheTransport_def)
  show ?thesis
    using github_world.write_cell[OF assms(1) 3] w1
      github_world.cached_run[OF assms(1) t(1,2) github_world.rate_limited_run[OF assms(1)],
        unfolded t(3), OF _ assms(3)[unfolded stack]]
    by auto
qed

section \<open>The transports at work\<close>

text \<open>A world with the cache, the requests sent and the limits; GitHub always answers with a
  quota of one.\<close>

record stack_world =
  swCache :: "string \<rightharpoonup> string"
  swSent :: "http_request list"
  swLimits :: RateLimits

definition stack_answer :: http_response where
  "stack_answer = \<lparr>resStatusCode = 200, resHeader = [(''X-RateLimit-Remaining'', [''1''])], resBody = ''{}''\<rparr>"

definition stack_libraries :: "stack_world http_libraries" where
  "stack_libraries =
     \<lparr>libNow = ret 0,
      libRedis = \<lparr>redisSetNX = \<lambda>_ _ _. ret None, redisDel = \<lambda>_. ret None,
        redisGet = \<lambda>k. State (\<lambda>w. (case swCache w k of None \<Rightarrow> Inl RedisNil | Some v \<Rightarrow> Inr v, w)),
        redisSet = \<lambda>k v _. State (\<lambda>w. (None, w\<lparr>swCache := (swCache w)(k \<mapsto> v)\<rparr>))\<rparr>,
      libTransport = \<lambda>req. State (\<lambda>w. (Inr stack_answer, w\<lparr>swSent := swSent w @ [req]\<rparr>)),
      libHttpClient = \<lambda>t _. t, libNewRequest = \<lambda>_. None, libParseDate = \<lambda>_. None,
      libReadAll = \<lambda>res. ret (Inr (resBody res)),
      libLimits = \<lparr>readLimits = State (\<lambda>w. (swLimits w, w)), writeLimits = \<lambda>l. State (\<lambda>w. ((), w\<lparr>swLimits := l\<rparr>))\<rparr>\<rparr>"

interpretation stack: github_world stack_libraries swSent swLimits
  by unfold_locales (auto simp: stack_libraries_def)

definition stack_config :: GithubConfig where
  "stack_config = \<lparr>Token = ''t'', Timeout = 0, CacheTTL = 60 * second, CacheErrorTTL = 5 * second\<rparr>"

definition stack_start :: stack_world where
  "stack_start = \<lparr>swCache = Map.empty, swSent = [], swLimits = zero_limits\<rparr>"

text \<open>The first request is a miss and goes out with the token.\<close>

theorem github_request_cost_witness:
  "\<exists>stack w1 r w'. run (github_transport stack_libraries stack_config) stack_start = (stack, w1)
     \<and> run (stack \<lparr>Method = ''GET'', URL = ''u'', reqHeader = []\<rparr>) w1 = (r, w')
     \<and> Limit (swLimits w1) = 5000
     \<and> swSent w' = [\<lparr>Method = ''GET'', URL = ''u'', reqHeader = [(''Authorization'', ''Bearer t'')]\<rparr>]"
proof -
  obtain stack w1 where 1: "run (github_transport stack_libraries stack_config) stack_start = (stack, w1)"
    by (rule prod.exhaust)
  let ?req = "\<lparr>Method = ''GET'', URL = ''u'', reqHeader = []\<rparr>"
  obtain r w' where 2: "run (stack ?req) w1 = (r, w')" by (rule prod.exhaust)
  have "swSent w1 = []" "swCache w1 = Map.empty"
    using 1 by (auto simp: github_transport_def NewRateLimitTransport_def stack_libraries_def stack_start_def Let_def)
  moreover from this have "swSent w' \<noteq> []"
    using 1 2 by (auto simp: github_transport_def NewRateLimitTransport_def stack_libraries_def stack_config_def
      Let_def NewCacheTransport_def cache_RoundTrip_def cache_lookup_def NewCacheWithClient_def cache_Get_def
      ratelimit_RoundTrip_def NewAuthTransport_def auth_RoundTrip_def cache_store_def cache_Set_def second_def
      split: if_splits)
  ultimately have "swSent w' = [authorized ''t'' ?req]" "Limit (swLimits w1) = 5000"
    using github_request_cost[OF stack.github_world_axioms 1 2]
    by (auto simp: stack_config_def GetBaseRateLimits_def GetAuthenticatedRateLimits_def)
  then show ?thesis using 1 2 by (auto simp: authorized_def header_set_def)
qed

end
