(* ===== verification/Lifecycle.thy ===== *)
theory Lifecycle
  imports Table_Steps Server
begin

text \<open>
  The running server: the handlers, the orchestrator, the reaper, the scanner and the relay of
  \<open>cmd/server\<close> in any interleaving, each call one step. The theorems: every run refines the
  transitions of \<open>Table_Steps\<close>, so a saga is settled once, a pending subscription always has a
  saga that was not compensated, and all rows stay well typed; and what the one step that is
  not atomic in the code, the confirmation, does when a compensation falls into its middle.
\<close>

section \<open>The steps of the server\<close>

text \<open>A settlement of a delivery, and a send to the scanner's queue, leave the tables alone.\<close>

definition settler_keeps :: "('w \<Rightarrow> 'v) \<Rightarrow> 'w Settler \<Rightarrow> bool" where
  "settler_keeps view s \<longleftrightarrow> (\<forall>a. keeps view (settle_with s a))"

inductive server_step :: "'w server_parts \<Rightarrow> 'w Settler \<Rightarrow> 'w repo_queue \<Rightarrow> 'w \<Rightarrow> 'w \<Rightarrow> bool"
  for S :: "'w server_parts" and s :: "'w Settler" and q :: "'w repo_queue" where
  subscribe: "run (Subscribe fuel (spHandler S) c) w = (r, w') \<Longrightarrow> server_step S s q w w'"
| confirm: "run (Confirm (spHandler S) c) w = (r, w') \<Longrightarrow> server_step S s q w w'"
| unsubscribe: "run (Unsubscribe (spHandler S) c) w = (r, w') \<Longrightarrow> server_step S s q w w'"
| list_subs: "run (GetSubscriptions (spHandler S) c) w = (r, w') \<Longrightarrow> server_step S s q w w'"
| saga_result: "run (orchestrator_Handler (orchStore (spOrchestrator S)) body s) w = (u, w')
    \<Longrightarrow> server_step S s q w w'"
| reap: "run (sweep (reaperStore (spReaper S)) (reaperStaleAfter (spReaper S))) w = (u, w')
    \<Longrightarrow> server_step S s q w w'"
| recovery: "run (recover (sStore (spScanner S))) w = (u, w') \<Longrightarrow> server_step S s q w w'"
| produce: "run (Produce (sProducer (spScanner S)) q) w = (u, w') \<Longrightarrow> server_step S s q w w'"
| scan: "run (ProcessRepo (sProcessor (spScanner S)) repo) w = (u, w') \<Longrightarrow> server_step S s q w w'"
| relay: "run (deliver fuel (spRelay S)) w = (u, w') \<Longrightarrow> server_step S s q w w'"

section \<open>What is assumed of the libraries\<close>

text \<open>GORM and the broker meet their contracts, a counter counts, sixteen random bytes are read, the
  clock's text is a time stamp, and nothing else of the libraries touches the database.\<close>

locale server_world =
  fixes L :: "'w libraries" and view :: "'w \<Rightarrow> 'v observed_scheme"
  assumes database: "gorm_clock (libGorm L) view (libNow L)"
    and rabbit: "broker (rabbit_publisher L) view"
    and network: "\<And>req. keeps view (libTransport L req)"
    and http_client: "\<And>t d req. (\<And>req. keeps view (t req)) \<Longrightarrow> keeps view (libHttpClient L t d req)"
    and redis_get: "\<And>k. keeps view (redisGet (libRedis L) k)"
    and redis_set: "\<And>k v ttl. keeps view (redisSet (libRedis L) k v ttl)"
    and read_body: "\<And>res. keeps view (libReadAll L res)"
    and read_limits: "keeps view (readLimits (libLimits L))"
    and write_limits: "\<And>l. keeps view (writeLimits (libLimits L) l)"
    and bucket: "\<And>l. keeps view (limSetLimit (libBucket L) l)"
    and rand: "\<And>w r w'. run (libRand L) w = (r, w') \<Longrightarrow> view w' = view w
      \<and> (case r of Inl _ \<Rightarrow> True | Inr bs \<Rightarrow> length bs = 16)"
    and uuid: "keeps view (NewString (libServices L))"
    and time: "\<And>w r w'. run (NowUTC (libServices L)) w = (r, w') \<Longrightarrow> view w' = view w \<and> valid_rfc3339 r"
    and inc: "\<And>c w r w'. run (libInc L c) w = (r, w') \<Longrightarrow> view w' = counted_update (\<lambda>cs. cs @ [c]) (view w)"

section \<open>The parts under their contracts\<close>

context gorm begin

lemma repository_meets: "subscription_repository (NewSubscriptionStore G) view"
  by (rule subscriptions_store.subscription_repository_axioms)

end

context gorm_clock begin

lemma scan_store_meets: "scan_store (NewRepositoryStore G now) view"
  by (rule scan.scan_store_axioms)

end

context server_world begin

lemma now_keeps: "keeps view (libNow L)"
  using gorm_clock.now_view[OF database] by (auto simp: keeps_def)

lemma limited_keeps:
  "keeps view (ratelimit_RoundTrip (libParseDate L) (libNow L) (libLimits L) (NewAuthTransport (libTransport L) token) req)"
  unfolding ratelimit_RoundTrip_def NewAuthTransport_def auth_RoundTrip_def Let_def
  by (intro keeps_bind network)
     (auto intro!: keeps_bind now_keeps read_limits write_limits split: sum.splits)

lemma cache_keeps:
  assumes "ctCache t = Some (NewCacheWithClient (libRedis L))" and "ctReadAll t = libReadAll L"
    and "\<And>req. keeps view (ctTransport t req)"
  shows "keeps view (cache_RoundTrip t req)"
  using assms
  by (auto simp: cache_RoundTrip_def cache_lookup_def cache_store_def NewCacheWithClient_def cache_Get_def cache_Set_def Let_def
      intro!: keeps_bind redis_get redis_set read_body split: option.splits sum.splits)

lemma transport_keeps:
  assumes "run (github_transport L cfg) w = (t, w')"
  shows "keeps view (t req)" "view w' = view w"
proof -
  obtain now w2 where 2: "run (libNow L) w = (now, w2)" by (rule prod.exhaust)
  obtain u w3 where 3: "run (writeLimits (libLimits L) (GetBaseRateLimits (Token cfg) now)) w2 = (u, w3)"
    by (rule prod.exhaust)
  have t: "t = cache_RoundTrip (NewCacheTransport (ratelimit_RoundTrip (libParseDate L) (libNow L) (libLimits L)
      (NewAuthTransport (libTransport L) (Token cfg))) (Some (NewCacheWithClient (libRedis L)))
      (word_of_int (CacheTTL cfg)) (word_of_int (CacheErrorTTL cfg)) (libReadAll L))" and w': "w' = w3"
    using assms 2 3 by (auto simp: github_transport_def NewRateLimitTransport_def Let_def)
  show "keeps view (t req)"
    unfolding t by (rule cache_keeps) (simp_all add: NewCacheTransport_def limited_keeps)
  show "view w' = view w" using keepsD[OF now_keeps 2] keepsD[OF write_limits 3] w' by simp
qed

lemma client_keeps:
  assumes "run (github_transport L cfg) w = (t, w')"
  shows "keeps view (httpDo (github_client L cfg t) req)" "clientNow (github_client L cfg t) = libNow L"
  using http_client[of t] transport_keeps(1)[OF assms]
  by (simp_all add: github_client_def NewClient_def WithHTTPClient_def)

lemma client_get_keeps:
  assumes "\<And>req. keeps view (httpDo c req)" and "keeps view (clientNow c)"
  shows "keeps view (client_get c endpoint etag zero handler)"
  using assms by (auto simp: client_get_def Let_def intro!: keeps_bind split: option.splits sum.splits prod.splits)

lemma web:
  assumes "run (build_server L cfg) w = (S, w')"
  shows "subscription_web (spHandler S) view"
proof -
  obtain t w1 where t: "run (github_transport L (scGitHub cfg)) w = (t, w1)" by (rule prod.exhaust)
  have S: "spHandler S = NewSubscriptionHandler (NewSubscriptionStore (libGorm L))
      (GetRepository (github_client L (scGitHub cfg) t)) (libRand L) (libServices L) (libInc L)"
    using assms t by (auto simp: build_server_parts Let_def)
  have store: "subscription_repository (NewSubscriptionStore (libGorm L)) view"
    by (rule gorm.repository_meets[OF gorm_clock.axioms(1)[OF database]])
  have resolver: "keeps view (GetRepository (github_client L (scGitHub cfg) t) owner name etag)" for owner name etag
    unfolding GetRepository_def
    by (rule client_get_keeps) (simp_all add: client_keeps[OF t] now_keeps)
  show ?thesis
    unfolding S NewSubscriptionHandler_def
    by (intro subscription_web.intro subscription_web_axioms.intro; unfold SubscriptionHandler.simps)
       (use store in \<open>auto dest: keepsD[OF resolver] rand keepsD[OF uuid] time inc\<close>)
qed

lemma scanner_parts:
  assumes "run (build_server L cfg) w = (S, w')"
  shows "sStore (spScanner S) = NewRepositoryStore (libGorm L) (libNow L)"
    "prStore (sProducer (spScanner S)) = NewRepositoryStore (libGorm L) (libNow L)"
    "keeps view (qRefresh (prQuota (sProducer (spScanner S))))"
    "spRelay S = NewRelay (libGorm L) (rabbit_publisher L) (obBatchSize (scOutbox cfg))"
    "orchStore (spOrchestrator S) = NewStore (libGorm L) (libNow L)"
    "reaperStore (spReaper S) = NewStore (libGorm L) (libNow L)"
proof -
  obtain t w1 where t: "run (github_transport L (scGitHub cfg)) w = (t, w1)" by (rule prod.exhaust)
  note S = assms[unfolded build_server_parts, simplified t run_bind, simplified]
  show "sStore (spScanner S) = NewRepositoryStore (libGorm L) (libNow L)"
    "prStore (sProducer (spScanner S)) = NewRepositoryStore (libGorm L) (libNow L)"
    "spRelay S = NewRelay (libGorm L) (rabbit_publisher L) (obBatchSize (scOutbox cfg))"
    "orchStore (spOrchestrator S) = NewStore (libGorm L) (libNow L)"
    "reaperStore (spReaper S) = NewStore (libGorm L) (libNow L)"
    using S by (auto simp: Let_def NewScanner_def NewRepoProducer_def NewOrchestrator_def NewReaper_def)
  have "keeps view (quota_Refresh (libNow L) \<lparr>rlp = Some (GetRateLimits (libLimits L)), limiter = libBucket L,
      safetyBuffer = b\<rparr>)" for b
    unfolding quota_Refresh_def GetRateLimits_def
    by (auto intro!: keeps_bind now_keeps read_limits bucket simp: Let_def)
  then show "keeps view (qRefresh (prQuota (sProducer (spScanner S))))"
    using S by (auto simp: Let_def NewScanner_def NewRepoProducer_def NewQuotaManager_def)
qed

lemma processor:
  assumes "run (build_server L cfg) w = (S, w')"
  shows "repo_processor (sProcessor (spScanner S)) view"
proof -
  obtain t w1 where t: "run (github_transport L (scGitHub cfg)) w = (t, w1)" by (rule prod.exhaust)
  let ?gh = "github_client L (scGitHub cfg) t"
  have S: "sProcessor (spScanner S) = NewRepoProcessor (NewRepositoryStore (libGorm L) (libNow L)) ?gh
      (NewQuotaManager (libNow L) (libBucket L) (Some (GetRateLimits (libLimits L))) (SafetyBuffer (scScanner cfg)))
      (libServices L)"
    using assms t by (auto simp: build_server_parts Let_def NewScanner_def)
  have clk: "valid_rfc3339 (fst (run (NowUTC (libServices L)) x))" for x
    by (rule conjunct2[OF time]) (rule surjective_pairing)
  show ?thesis
    unfolding S NewRepoProcessor_def
    by (intro repo_processor.intro repo_processor_axioms.intro; unfold RepoProcessor.simps)
       (auto simp: clk client_keeps(2)[OF t] gorm_clock.scan_store_meets[OF database] NewQuotaManager_def quota_Freeze_def
         Let_def dest: keepsD[OF client_keeps(1)[OF t]] keepsD[OF now_keeps] keepsD[OF uuid] keepsD[OF bucket] time)
qed

end

section \<open>The orchestrator and the reaper refine the transitions\<close>

lemma step_into: "tables_step v u \<Longrightarrow> tables_step\<^sup>*\<^sup>* v u"
  by (rule r_into_rtranclp)

lemma settles_steps:
  fixes view :: "'w \<Rightarrow> 'v observed_scheme"
  assumes "saga_store S view now"
  shows "run (MarkCompleted S token) w = (r, w') \<Longrightarrow> tables_step\<^sup>*\<^sup>* (view w) (view w')"
    and "run (Compensate S token) w = (r, w') \<Longrightarrow> tables_step\<^sup>*\<^sup>* (view w) (view w')"
proof -
  show "tables_step\<^sup>*\<^sup>* (view w) (view w')" if "run (MarkCompleted S token) w = (r, w')"
    using saga_store.mark_completed[OF assms that]
    by (auto simp: settles_def intro!: step_into tables_step.complete split: option.splits)
  show "tables_step\<^sup>*\<^sup>* (view w) (view w')" if "run (Compensate S token) w = (r, w')"
    using saga_store.compensates[OF assms that]
    by (auto simp: settles_def intro!: step_into tables_step.compensate split: option.splits)
qed

lemma decision_steps:
  fixes view :: "'w \<Rightarrow> 'v observed_scheme"
  assumes store: "saga_store S view now" and "run (settle_decision S token write retry) w = (a, w')"
    and writes: "\<And>w r w'. run (write token) w = (r, w') \<Longrightarrow> tables_step\<^sup>*\<^sup>* (view w) (view w')"
  shows "tables_step\<^sup>*\<^sup>* (view w) (view w')"
proof -
  obtain f w1 where f: "run (SagaStateOf S token) w = (f, w1)" by (rule prod.exhaust)
  have v1: "view w1 = view w" using saga_store.saga_state[OF store f] by simp
  show ?thesis
  proof (cases "f = Inr SagaAwaitingDelivery")
    case True
    then obtain r where "run (write token) w1 = (r, w')"
      using assms(2) f by (auto simp: settle_decision_def split: prod.splits)
    from writes[OF this] v1 show ?thesis by simp
  next
    case False
    then have "w' = w1" using assms(2) f by (auto simp: settle_decision_def split: sum.splits if_splits)
    then show ?thesis using v1 by simp
  qed
qed

lemma orchestrator_steps:
  fixes view :: "'w \<Rightarrow> 'v observed_scheme"
  assumes store: "saga_store S view now" and "settler_keeps view s" and "run (orchestrator_Handler S body s) w = (u, w')"
  shows "tables_step\<^sup>*\<^sup>* (view w) (view w')"
proof -
  obtain a w1 where a: "run (orchestrator_decision S body) w = (a, w1)" by (rule prod.exhaust)
  then have "run (settle_with s a) w1 = (u, w')" using assms(3) by (simp add: Handler_eq_decision)
  then have w': "view w' = view w1" using assms(2) by (auto simp: settler_keeps_def dest: keepsD)
  show ?thesis
  proof (cases "result_event body")
    case None
    then have "w1 = w" using orchestrator_decision_other[OF None, of S] a by auto
    then show ?thesis using w' by simp
  next
    case (Some dt)
    obtain delivered token where dt: "dt = (delivered, token)" by (cases dt)
    note run = a[unfolded orchestrator_decision_result[OF Some[unfolded dt]]]
    have "tables_step\<^sup>*\<^sup>* (view w) (view w1)"
      using run by (cases delivered) (auto intro: decision_steps[OF store] settles_steps[OF store])
    then show ?thesis using w' by simp
  qed
qed

lemma sweep_steps:
  fixes view :: "'w \<Rightarrow> 'v observed_scheme"
  assumes store: "saga_store S view now" and "run (sweep S staleAfter) w = (r, w')"
  shows "tables_step\<^sup>*\<^sup>* (view w) (view w')"
proof -
  obtain f w1 where f: "run (StaleAwaitingTokens S staleAfter) w = (f, w1)" by (rule prod.exhaust)
  have v1: "view w1 = view w" using saga_store.stale[OF store f] by simp
  show ?thesis
  proof (cases f)
    case (Inl e)
    then show ?thesis using assms(2) f v1 by (simp add: sweep_def)
  next
    case (Inr ts)
    then have loop: "run (for_each ts (\<lambda>token. do { err \<leftarrow> Compensate S token; ret () })) w1 = (r, w')"
      using assms(2) f by (simp add: sweep_def)
    show ?thesis
    proof (rule for_each_inv[where I = "\<lambda>x. tables_step\<^sup>*\<^sup>* (view w) (view x)", OF _ _ loop])
      show "tables_step\<^sup>*\<^sup>* (view w) (view w1)" using v1 by simp
      show "tables_step\<^sup>*\<^sup>* (view w) (view b)"
        if ev: "tables_step\<^sup>*\<^sup>* (view w) (view a)" and body: "run (do { err \<leftarrow> Compensate S token; ret () }) a = (u, b)"
        for token a u b
      proof -
        obtain e where "run (Compensate S token) a = (e, b)" using body by (auto split: prod.splits)
        from rtranclp_trans[OF ev settles_steps(2)[OF store this]] show ?thesis .
      qed
    qed
  qed
qed

section \<open>The scanner and the relay refine the transitions\<close>

lemma elsewhere_step: "elsewhere v u \<Longrightarrow> tables_step\<^sup>*\<^sup>* v u"
  by (blast intro: tables_step.other)

lemma row_data_deleted: "map row_data (update_where P (soft_delete t) rows) = map row_data rows"
  by (induction rows) (simp_all add: update_where_def row_data_def soft_delete_def)

context outbox_relay begin

lemma deliver_rows_elsewhere:
  "run (deliver_rows (NewRelay G publish n) rows) w = (ok, w') \<Longrightarrow> elsewhere (view w) (view w')"
proof (induction rows arbitrary: w)
  case (Cons row rows)
  obtain e w1 where pub: "run (publish EventsExchange (RoutingKey row) (Payload row)) w = (e, w1)"
    by (rule prod.exhaust)
  have 1: "elsewhere (view w) (view w1)" using publish[OF pub] by (simp add: elsewhere_def)
  show ?case
  proof (cases e)
    case (Some x)
    then show ?thesis using Cons.prems pub 1 by simp
  next
    case None
    obtain d w2 where del: "run (gDelete (Rows G) (\<lambda>r. ID r = ID row)) w1 = (d, w2)" by (rule prod.exhaust)
    have 2: "elsewhere (view w1) (view w2)"
      using rows.deletes[OF del] by (auto simp: elsewhere_def row_data_deleted split: option.splits)
    have "run (deliver_rows (NewRelay G publish n) rows) w2 = (ok, w')"
      using Cons.prems pub None del by simp
    from elsewhere_trans[OF elsewhere_trans[OF 1 2] Cons.IH[OF this]] show ?thesis .
  qed
qed simp

lemma deliver_elsewhere:
  "run (deliver fuel (NewRelay G publish n)) w = (r, w') \<Longrightarrow> elsewhere (view w) (view w')"
proof (induction fuel arbitrary: w)
  case (Suc fuel)
  obtain f w1 where f: "run (gFindByID (Rows G) n) w = (f, w1)" by (rule prod.exhaust)
  have 1: "elsewhere (view w) (view w1)" using rows.by_id[OF f] by simp
  show ?case
  proof (cases "\<exists>rs. f = Inr rs \<and> rs \<noteq> []")
    case False
    then show ?thesis using Suc.prems f 1 by (auto split: sum.splits)
  next
    case True
    then obtain rs where rs: "f = Inr rs" "rs \<noteq> []" by blast
    obtain ok w2 where d: "run (deliver_rows (NewRelay G publish n) rs) w1 = (ok, w2)" by (rule prod.exhaust)
    note 2 = elsewhere_trans[OF 1 deliver_rows_elsewhere[OF d]]
    have "w' = w2 \<or> run (deliver fuel (NewRelay G publish n)) w2 = (r, w')"
      using Suc.prems f rs d by (auto split: if_splits)
    then show ?thesis using 2 elsewhere_trans[OF 2 Suc.IH] by blast
  qed
qed simp

end

context repo_processor begin

lemma check_release_events:
  assumes "run (check_release p repo) w = ((repo', evs), w')"
  shows "\<exists>subs tag. list_all2 (announced_by DecodeReleaseDetected RoutingKeyReleaseDetected (release_detected repo tag)) subs evs"
proof -
  obtain rel w1 where 1: "run (GetLatestRelease (pGh p) (Owner repo) (Name repo) (relETag (LastRelease repo))) w = (rel, w1)"
    by (rule prod.exhaust)
  show ?thesis
  proof (cases "rStatusCode rel = 200 \<and> lrTagName (rData rel) \<noteq> TagName (LastRelease repo)")
    case True
    then have new: "run (handleNewRelease p repo (rData rel)) w1 = (evs, w')"
      using assms 1 by (auto simp: check_release_def Let_def split: prod.splits)
    obtain found w2 where "run (GetActiveSubscriptions (pStore p) (ID repo)) w1 = (found, w2)" by (rule prod.exhaust)
    from handleNewRelease_run[OF this new] show ?thesis by (cases found) auto
  next
    case False
    then have "evs = []" using assms 1 by (auto simp: check_release_def Let_def split: prod.splits if_splits)
    then show ?thesis by blast
  qed
qed

lemma scan_repo_events:
  assumes "run (scan_repo p repo) w = ((repo', evs), w')"
  shows "\<exists>rp subs tag. list_all2 (announced_by DecodeReleaseDetected RoutingKeyReleaseDetected (release_detected rp tag)) subs evs"
proof -
  obtain resp w1 where "run (GetRepository (pGh p) (Owner repo) (Name repo) (repoETag repo)) w = (resp, w1)"
    by (rule prod.exhaust)
  then consider "evs = []" | mid where "run (check_release p mid) w1 = ((repo', evs), w')"
    using assms by (auto simp: scan_repo_def Let_def split: prod.splits if_splits)
  then show ?thesis
  proof cases
    case 1
    then show ?thesis by blast
  next
    case (2 mid)
    from check_release_events[OF this] show ?thesis by blast
  qed
qed

lemma status_announces:
  assumes "run (UpdateScanStatus (pStore p) repo evs) w = (r, w')"
    and "list_all2 (announced_by DecodeReleaseDetected RoutingKeyReleaseDetected (release_detected rp tag)) subs evs"
  shows "\<exists>rows subs'. outbox_rows (view w') = outbox_rows (view w) @ rows
    \<and> list_all2 (announces DecodeReleaseDetected RoutingKeyReleaseDetected (release_detected rp tag)) subs' rows"
proof (cases r)
  case None
  then obtain t where "queued evs (repositories_update (update_where (\<lambda>r. ID r = ID repo) (scanned repo t)) (view w)) (view w')"
    using update_status[OF assms(1)] by auto
  from queued_rows[OF this assms(2)] show ?thesis by auto
next
  case (Some e)
  then have "view w' = view w" using update_status[OF assms(1)] by simp
  then show ?thesis by (intro exI[of _ "[]"]) simp
qed

end

lemma process_steps:
  fixes view :: "'w \<Rightarrow> 'v observed_scheme"
  assumes p: "repo_processor p view" and "run (ProcessRepo p repo) w = (u, w')"
  shows "tables_step\<^sup>*\<^sup>* (view w) (view w')"
proof -
  obtain resp w0 where 0: "run (GetRepository (pGh p) (Owner repo) (Name repo) (repoETag repo)) w = (resp, w0)"
    by (rule prod.exhaust)
  obtain repo' evs w1 where 1: "run (scan_repo p repo) w = ((repo', evs), w1)" by (metis prod.exhaust)
  obtain r w2 where 2: "run (UpdateScanStatus (pStore p) repo' evs) w1 = (r, w2)" by (rule prod.exhaust)
  have w': "w' = w2" using assms(2) 1 2 by (simp add: ProcessRepo_def)
  have "tables_step\<^sup>*\<^sup>* (view w) (view w1)"
    using repo_processor.scan_repo_run[OF p 0 1] by (auto intro: step_into tables_step.moved)
  moreover obtain rp subs tag rows where "outbox_rows (view w2) = outbox_rows (view w1) @ rows"
    and "list_all2 (announces DecodeReleaseDetected RoutingKeyReleaseDetected (release_detected rp tag)) subs rows"
    using repo_processor.scan_repo_events[OF p 1] repo_processor.status_announces[OF p 2] by metis
  then have "tables_step (view w1) (view w2)"
    using repo_processor.status_keeps[OF p 2] by (intro tables_step.announced)
  ultimately show ?thesis using w' by simp
qed

lemma claims_elsewhere: "claims n cutoff ids v u \<Longrightarrow> elsewhere v u"
  by (auto simp: claims_def elsewhere_def split: if_splits)

lemma claim_elsewhere:
  fixes view :: "'w \<Rightarrow> 'v observed_scheme"
  assumes "scan_store RS view" and "run (ClaimIdle RS n d) w = (r, w')"
  shows "elsewhere (view w) (view w')"
  using scan_store.claim_idle[OF assms] by (auto dest: claims_elsewhere split: sum.splits)

lemma send_repos_keeps: "(\<And>x. keeps view (qSend q x)) \<Longrightarrow> keeps view (send_repos q repos)"
  by (induction repos) (auto intro!: keeps_bind)

definition queue_keeps :: "('w \<Rightarrow> 'v) \<Rightarrow> 'w repo_queue \<Rightarrow> bool" where
  "queue_keeps view q \<longleftrightarrow> keeps view (qRoom q) \<and> (\<forall>x. keeps view (qSend q x))"

lemma produce_elsewhere:
  fixes view :: "'w \<Rightarrow> 'v observed_scheme"
  assumes store: "scan_store (prStore p) view" and "keeps view (qRefresh (prQuota p))" and q: "queue_keeps view q"
    and "run (Produce p q) w = (u, w')"
  shows "elsewhere (view w) (view w')"
proof -
  obtain rps w1 where 1: "run (qRefresh (prQuota p)) w = (rps, w1)" by (rule prod.exhaust)
  obtain k w2 where 2: "run (qRoom q) w1 = (k, w2)" by (rule prod.exhaust)
  let ?n = "min \<lceil>round64 (rps * Seconds (producerInterval p))\<rceil> k"
  obtain c w3 where 3: "run (ClaimIdle (prStore p) (nat ?n) (minCheckInterval p)) w2 = (c, w3)" by (rule prod.exhaust)
  have v: "view w1 = view w" "view w2 = view w" using keepsD[OF assms(2) 1] q 2 by (auto simp: queue_keeps_def dest: keepsD)
  consider "w' \<in> {w1, w2, w3}" | repos where "run (send_repos q repos) w3 = (u, w')"
    using assms(4) 1 2 3 unfolding Produce_def by (cases c) (auto simp: Let_def split: if_splits)
  then have "view w' \<in> {view w, view w3}"
    using v send_repos_keeps[of view q] q by cases (auto simp: queue_keeps_def dest: keepsD)
  then show ?thesis using claim_elsewhere[OF store 3] v by auto
qed

section \<open>The server refines the transitions\<close>

lemma request_steps:
  fixes view :: "'w \<Rightarrow> 'v observed_scheme"
  assumes h: "subscription_web h view"
  shows "run (Subscribe fuel h c) w = (r, w') \<Longrightarrow> tables_step\<^sup>*\<^sup>* (view w) (view w')"
    and "run (Confirm h c) w = (q, w') \<Longrightarrow> tables_step\<^sup>*\<^sup>* (view w) (view w')"
    and "run (Unsubscribe h c) w = (q, w') \<Longrightarrow> tables_step\<^sup>*\<^sup>* (view w) (view w')"
    and "run (GetSubscriptions h c) w = (q, w') \<Longrightarrow> tables_step\<^sup>*\<^sup>* (view w) (view w')"
proof -
  show "tables_step\<^sup>*\<^sup>* (view w) (view w')" if "run (Subscribe fuel h c) w = (r, w')"
  proof -
    note out = specD[OF subscription_web.Subscribe_spec[OF h] refl that]
    show ?thesis
    proof (cases "\<exists>resp. r = Some resp \<and> httpStatus resp = 200")
      case True
      then obtain email where "onboarded email (view w) (view w')"
        using out by (auto simp: subscribe_outcome_def)
      then show ?thesis by (intro step_into tables_step.onboard)
    next
      case False
      then have "elsewhere (view w) (view w')"
        using out by (auto simp: subscribe_outcome_def same_subs_def elsewhere_def split: option.splits if_splits)
      then show ?thesis by (rule elsewhere_step)
    qed
  qed
  show "tables_step\<^sup>*\<^sup>* (view w) (view w')" if "run (Confirm h c) w = (q, w')"
  proof -
    note out = specD[OF subscription_web.Confirm_spec[OF h] refl that]
    have "elsewhere (view w) (view w') \<or> tables_step (view w) (view w')"
      using out by (auto simp: confirm_outcome_def elsewhere_def rest_same_def split: if_splits intro: tables_step.activate)
    then show ?thesis by (blast intro: elsewhere_step step_into)
  qed
  show "tables_step\<^sup>*\<^sup>* (view w) (view w')" if "run (Unsubscribe h c) w = (q, w')"
  proof -
    note out = specD[OF subscription_web.Unsubscribe_spec[OF h] refl that]
    have "elsewhere (view w) (view w') \<or> tables_step (view w) (view w')"
      using out by (auto simp: unsubscribe_outcome_def elsewhere_def rest_same_def split: if_splits intro: tables_step.finish)
    then show ?thesis by (blast intro: elsewhere_step step_into)
  qed
  show "tables_step\<^sup>*\<^sup>* (view w) (view w')" if "run (GetSubscriptions h c) w = (q, w')"
    using specD[OF subscription_web.GetSubscriptions_spec[OF h] refl that] by simp
qed

lemma step_refines:
  fixes view :: "'w \<Rightarrow> 'v observed_scheme"
  assumes world: "server_world L view" and built: "run (build_server L cfg) w0 = (S, w1)"
    and settler: "settler_keeps view s" and queue: "queue_keeps view q" and "server_step S s q w w'"
  shows "tables_step\<^sup>*\<^sup>* (view w) (view w')"
proof -
  note parts = server_world.scanner_parts[OF world built]
  note db = server_world.database[OF world]
  have store: "saga_store (NewStore (libGorm L) (libNow L)) view (libNow L)"
    by (rule saga_store_of_gorm[OF db])
  have scan: "scan_store (NewRepositoryStore (libGorm L) (libNow L)) view"
    by (rule gorm_clock.scan_store_meets[OF db])
  have rel: "outbox_relay (libGorm L) (rabbit_publisher L) view"
    by (intro outbox_relay.intro gorm_clock.axioms(1)[OF db] server_world.rabbit[OF world])
  note web = request_steps[OF server_world.web[OF world built]]
  from assms(5) show ?thesis
  proof cases
    case (subscribe fuel c r)
    then show ?thesis by (rule web(1))
  next
    case (confirm c r)
    then show ?thesis by (rule web(2))
  next
    case (unsubscribe c r)
    then show ?thesis by (rule web(3))
  next
    case (list_subs c r)
    then show ?thesis by (rule web(4))
  next
    case (saga_result body u)
    then show ?thesis using orchestrator_steps[OF store settler] by (simp add: parts)
  next
    case (reap u)
    then show ?thesis using sweep_steps[OF store] by (simp add: parts)
  next
    case (recovery u)
    then have "elsewhere (view w) (view w')"
      using scan by (auto simp: parts recover_def elsewhere_def dest!: scan_store.recover split: prod.splits option.splits if_splits)
    then show ?thesis by (rule elsewhere_step)
  next
    case (produce u)
    then have "elsewhere (view w) (view w')"
      by (intro produce_elsewhere[OF _ parts(3) queue]) (simp_all add: parts scan)
    then show ?thesis by (rule elsewhere_step)
  next
    case (scan repo u)
    then show ?thesis by (rule process_steps[OF server_world.processor[OF world built]])
  next
    case (relay fuel u)
    then have "elsewhere (view w) (view w')"
      using outbox_relay.deliver_elsewhere[OF rel] by (simp add: parts)
    then show ?thesis by (rule elsewhere_step)
  qed
qed

lemma run_refines:
  fixes view :: "'w \<Rightarrow> 'v observed_scheme"
  assumes "server_world L view" and "run (build_server L cfg) w0 = (S, w1)" and "settler_keeps view s"
    and "queue_keeps view q" and "(server_step S s q)\<^sup>*\<^sup>* w w'"
  shows "tables_step\<^sup>*\<^sup>* (view w) (view w')"
  using assms(5)
proof (induction rule: rtranclp_induct)
  case (step u v)
  from rtranclp_trans[OF step.IH step_refines[OF assms(1-4) step.hyps(2)]] show ?case .
qed simp

section \<open>The invariants of a running server\<close>

text \<open>
  C1: However the handlers, the orchestrator, the reaper, the scanner and the relay interleave,
  and whatever requests, result events and answers of GitHub they get, the server refines the
  automaton of the saga: no saga ever disappears, each one is where it was or, if it was
  awaiting, completed or compensated, and one that is settled never changes again, duplicated,
  late and contradicting results included.
\<close>

theorem saga_settles_once:
  assumes "server_world L view" and "run (build_server L cfg) w0 = (S, w1)" and "settler_keeps view s"
    and "queue_keeps view q" and "(server_step S s q)\<^sup>*\<^sup>* w w'" and "i < length (sagas (view w))"
  shows "i < length (sagas (view w')) \<and> saga_next (sagas (view w) ! i) (sagas (view w') ! i)
    \<and> (sagaState (sagas (view w) ! i) \<noteq> SagaAwaitingDelivery \<longrightarrow> sagas (view w') ! i = sagas (view w) ! i)"
proof -
  obtain old new where "sagas (view w') = old @ new" and o: "list_all2 saga_next (sagas (view w)) old"
    using steps_evolve[OF run_refines[OF assms(1-5)]] by (auto simp: sagas_evolve_def)
  moreover have "i < length old" using list_all2_lengthD[OF o] assms(6) by simp
  moreover have "saga_next (sagas (view w) ! i) (old ! i)" by (rule list_all2_nthD[OF o assms(6)])
  ultimately show ?thesis using saga_next_final by (auto simp: nth_append)
qed

text \<open>
  C3: A server whose pending subscriptions all have a saga keeps it so: after any run, a live
  pending subscription has a live saga with its confirm token that was not
  compensated. No interleaving leaves a pending subscription behind
  whose saga was compensated, which nothing would ever remove.
\<close>

theorem pending_has_open_saga:
  assumes "server_world L view" and "run (build_server L cfg) w0 = (S, w1)" and "settler_keeps view s"
    and "queue_keeps view q" and "(server_step S s q)\<^sup>*\<^sup>* w w'" and "pending_watched (view w)"
    and "sub \<in> set (subscriptions (view w'))" and "live sub" and "subStatus sub = StatusPending"
  shows "\<exists>g \<in> set (sagas (view w')). live g \<and> sagaToken g = ConfirmToken sub
    \<and> sagaState g \<noteq> SagaCompensated"
proof -
  have "pending_watched (view w')"
    by (rule steps_invariant[where I = pending_watched, OF run_refines[OF assms(1-5)] step_pending_watched assms(6)])
  then show ?thesis using assms(7-9) by (auto simp: pending_watched_def watches_def)
qed

text \<open>
  C9: The rows the server stores are well typed and stay so over any run: a subscription has one
  of the three statuses and a confirm token of 32 hexadecimal digits, and an API token of that
  form once it is active; a saga has one of its three states and such a token; a row of the
  outbox has a routing key that the notifier's queue is bound to, and a payload the notifier
  decodes and makes a command of.
\<close>

theorem stored_rows_typed:
  assumes "server_world L view" and "run (build_server L cfg) w0 = (S, w1)" and "settler_keeps view s"
    and "queue_keeps view q" and "(server_step S s q)\<^sup>*\<^sup>* w w'" and "well_typed (view w)"
  shows "well_typed (view w')"
  by (rule steps_invariant[where I = well_typed, OF run_refines[OF assms(1-5)] step_well_typed assms(6)])

section \<open>A confirmation overtaken by a compensation\<close>

text \<open>
  C18: \<open>Confirm\<close> reads the subscription and saves it in two calls with no transaction around them.
  When a compensation of the same token commits between the two, the save, which writes the
  whole row, brings the deleted subscription back: it is live and active, although its saga
  is compensated and right after the compensation no live pending subscription had the token.
\<close>

theorem confirm_race_revives:
  fixes view :: "'w \<Rightarrow> 'v observed_scheme"
  assumes "subscription_web h view" and "gorm G view"
    and found: "run (FindSubscriptionByConfirmToken (hStore h) token) w = (Inr sub, w1)"
    and pending: "subStatus sub = StatusPending"
    and compensated: "run (store_Compensate G token) w1 = (None, w2)"
    and activated: "run (activate h sub) w2 = (Inr sub', w3)"
  shows "(\<forall>s \<in> set (subscriptions (view w2)). ConfirmToken s = token \<and> subStatus s = StatusPending \<longrightarrow> \<not> live s)
    \<and> sub' \<in> set (subscriptions (view w3)) \<and> live sub' \<and> ID sub' = ID sub \<and> ConfirmToken sub' = token
    \<and> subStatus sub' = StatusActive
    \<and> (\<exists>g \<in> set (sagas (view w3)). live g \<and> sagaToken g = token \<and> sagaState g = SagaCompensated)"
proof -
  have sub: "sub \<in> set (subscriptions (view w))" "live sub" "ConfirmToken sub = token"
    using subscription_repository.sub_by_confirm[OF subscription_web.axioms(1)[OF assms(1)] found]
    by (auto simp: finds_first_def rows_where_def)
  obtain t where open_before: "saga_open token (view w1)"
    and v2: "view w2 = cancel_pending token t (close_saga token SagaCompensated (view w1))"
    using gorm.Compensate_call[OF assms(2) compensated] by (auto simp: settles_def)
  obtain g where g: "g \<in> set (sagas (view w1))" "awaiting token g" "live g"
    using open_before by (auto simp: saga_open_def rows_where_def filter_empty_conv)
  have saga: "g\<lparr>sagaState := SagaCompensated\<rparr> \<in> set (sagas (view w2))"
    using g v2 by (force simp: close_saga_def update_where_def)
  obtain apiToken where sub': "sub' = sub\<lparr>subStatus := StatusActive, APIToken := apiToken\<rparr>"
    and v3: "view w3 = subscriptions_update (upsert sub') (view w2)"
    using specD[OF subscription_web.activate_spec[OF assms(1)] refl activated] pending
    by (auto simp: subscription_statuses)
  have "\<forall>s \<in> set (subscriptions (view w2)). ConfirmToken s = token \<and> subStatus s = StatusPending \<longrightarrow> \<not> live s"
    using v2 by (auto dest: after_cancel)
  moreover have "sub' \<in> set (subscriptions (view w3))"
    by (auto simp: v3 upsert_def)
  moreover have "\<exists>g \<in> set (sagas (view w3)). live g \<and> sagaToken g = token \<and> sagaState g = SagaCompensated"
    using saga g by (intro bexI[of _ "g\<lparr>sagaState := SagaCompensated\<rparr>"]) (auto simp: v3 awaiting_def live_def)
  ultimately show ?thesis using sub by (simp add: sub' live_def)
qed

section \<open>The server at work\<close>

text \<open>The libraries over the world in memory. GitHub is not reachable, and the broker takes
  every message.\<close>

definition taking_channel :: "mem_world channel" where
  "taking_channel =
     \<lparr>declaring = \<lparr>ExchangeDeclare = \<lambda>_ _ _ _ _ _ _. ret None, QueueDeclare = \<lambda>_ _ _ _ _ _. ret None,
        QueueBind = \<lambda>_ _ _ _ _. ret None\<rparr>,
      chConfirm = ret None,
      chPublish = \<lambda>ex rk p. State (\<lambda>w. (None, published_update (\<lambda>ps. ps @ [(ex, rk, pBody p)]) w)),
      awaitConfirm = ret (Confirmation True), chQos = \<lambda>_ _ _. ret None, chConsume = \<lambda>_ _ _ _ _ _ _. ret None,
      chRecv = ret RecvClosed, chClose = ret None\<rparr>"

definition mem_libraries :: "mem_world libraries" where
  "mem_libraries =
     \<lparr>libNow = mem_now,
      libRedis = \<lparr>redisSetNX = \<lambda>_ _ _. ret None, redisDel = \<lambda>_. ret None, redisGet = \<lambda>_. ret (Inl RedisNil),
        redisSet = \<lambda>_ _ _. ret None\<rparr>,
      libTransport = \<lambda>_. ret (Inl (Err ''offline'')), libHttpClient = \<lambda>t _. t, libNewRequest = \<lambda>_. None,
      libParseDate = \<lambda>_. None, libReadAll = \<lambda>res. ret (Inr (resBody res)),
      libLimits = \<lparr>readLimits = ret zero_limits, writeLimits = \<lambda>_. ret ()\<rparr>,
      libGorm = mem_gorm, libServices = hServices mem_handler, libRand = hRandRead mem_handler,
      libInc = hInc mem_handler,
      libBucket = \<lparr>limSetLimit = \<lambda>_. ret (), limLimit = ret 0, limWait = ret None\<rparr>,
      libConn = \<lparr>Channel = ret (Inr taking_channel), dAck = \<lambda>_ _. ret None, dNack = \<lambda>_ _ _. ret None\<rparr>\<rparr>"

lemma mem_libraries_publish:
  "run (rabbit_publisher mem_libraries ex rk doc) w
     = (None, published_update (\<lambda>ps. ps @ [(ex, rk, json_print doc)]) w)"
  by (simp add: rabbit_publisher_def publisher_Publish_def mem_libraries_def taking_channel_def and_then_def wrapping_def)

interpretation mem_server: server_world mem_libraries obs
proof (intro server_world.intro)
  show "gorm_clock (libGorm mem_libraries) obs (libNow mem_libraries)"
    by (simp add: mem_libraries_def mem_clock.gorm_clock_axioms)
  show "broker (rabbit_publisher mem_libraries) obs"
    by unfold_locales (auto simp: mem_libraries_publish)
qed (auto simp: mem_libraries_def mem_handler_def keeps_def mem_bytes_def mem_now_text)

definition server_config :: ServerConfig where
  "server_config =
     \<lparr>scBase = \<lparr>AppEnv = ''development'', LogLevel = ''info''\<rparr>, DBDSN = ''host=localhost'',
      scGitHub = \<lparr>Token = '''', Timeout = 15 * second, CacheTTL = 600 * second, CacheErrorTTL = 60 * second\<rparr>,
      scScanner = \<lparr>ProducerInterval = 60 * second, MinInterval = 600 * second, QueueSize = 100, Workers = 2,
        SafetyBuffer = 1\<rparr>,
      scRedis = ''localhost:6379'',
      scRabbitMQ = \<lparr>rmqURL = ''amqp://localhost'', RetryTTLSeconds = 30, RetryBackoffFactor = 2, MaxRetryAttempts = 5\<rparr>,
      scOutbox = \<lparr>obPollInterval = 2 * second, obBatchSize = 50\<rparr>,
      scSaga = \<lparr>srPollInterval = 300 * second, StaleAfter = 0\<rparr>\<rparr>"

definition quiet_settler :: "'w Settler" where
  "quiet_settler = \<lparr>sAck = ret (), sRetry = \<lambda>_. ret (), sDeadLetter = \<lambda>_. ret ()\<rparr>"

lemma quiet_keeps: "settler_keeps view quiet_settler"
  unfolding settler_keeps_def by (rule allI, rename_tac a, case_tac a) (simp_all add: quiet_settler_def)

definition full_queue :: "'w repo_queue" where
  "full_queue = \<lparr>qRoom = ret 0, qSend = \<lambda>_. ret False\<rparr>"

lemma full_queue_keeps: "queue_keeps view full_queue"
  by (simp add: queue_keeps_def full_queue_def)

text \<open>A failed delivery compensates the sample saga, and a sweep follows.\<close>

theorem saga_settles_once_witness:
  "\<exists>S w1 w'. run (build_server mem_libraries server_config) empty_world = (S, w1)
     \<and> (server_step S quiet_settler full_queue)\<^sup>*\<^sup>* sample_world w'
     \<and> saga_next (sagas (obs sample_world) ! 0) (sagas (obs w') ! 0)"
proof -
  obtain S w1 where built: "run (build_server mem_libraries server_config) empty_world = (S, w1)" by (rule prod.exhaust)
  obtain u w2 where 1: "run (orchestrator_Handler (orchStore (spOrchestrator S)) sample_result quiet_settler) sample_world = (u, w2)"
    by (rule prod.exhaust)
  obtain r w3 where 2: "run (sweep (reaperStore (spReaper S)) (reaperStaleAfter (spReaper S))) w2 = (r, w3)" by (rule prod.exhaust)
  have steps: "(server_step S quiet_settler full_queue)\<^sup>*\<^sup>* sample_world w3"
    using saga_result[OF 1] reap[OF 2] by (meson r_into_rtranclp rtranclp.rtrancl_into_rtrancl)
  have "0 < length (sagas (obs sample_world))" by (simp add: sample_world_def)
  from saga_settles_once[OF mem_server.server_world_axioms built quiet_keeps full_queue_keeps steps this] steps built
  show ?thesis by blast
qed

lemma tok_valid: "isValidToken (tok CHR ''a'')" "isValidToken (tok CHR ''b'')"
  by code_simp+

theorem stored_rows_typed_witness:
  "\<exists>S w1 w'. run (build_server mem_libraries server_config) empty_world = (S, w1)
     \<and> (server_step S quiet_settler full_queue)\<^sup>*\<^sup>* web_world w' \<and> well_typed (obs w')"
proof -
  obtain S w1 where built: "run (build_server mem_libraries server_config) empty_world = (S, w1)" by (rule prod.exhaust)
  obtain r w' where "run (Confirm (spHandler S) (web_context (tok CHR ''a'') '''')) web_world = (r, w')" by (rule prod.exhaust)
  then have steps: "(server_step S quiet_settler full_queue)\<^sup>*\<^sup>* web_world w'" by (blast intro: confirm)
  have "well_typed (obs web_world)"
    by (simp add: well_typed_def web_world_def empty_world_def sub_typed_def pending_subscription_def tok_valid)
  from stored_rows_typed[OF mem_server.server_world_axioms built quiet_keeps full_queue_keeps steps this] steps built
  show ?thesis by blast
qed

text \<open>The pending subscription of a world that a sweep passes over.\<close>

definition pending_world :: mem_world where
  "pending_world = empty_world\<lparr>
     subscriptions := [sample_subscription\<lparr>ConfirmToken := tok CHR ''a''\<rparr>],
     sagas := [sample_saga\<lparr>sagaToken := tok CHR ''a''\<rparr>]\<rparr>"

theorem pending_has_open_saga_witness:
  "\<exists>S w1. run (build_server mem_libraries server_config) empty_world = (S, w1)
     \<and> (\<exists>g \<in> set (sagas pending_world). live g \<and> sagaToken g = tok CHR ''a'' \<and> sagaState g \<noteq> SagaCompensated)"
proof -
  obtain S w1 where built: "run (build_server mem_libraries server_config) empty_world = (S, w1)" by (rule prod.exhaust)
  have "pending_watched (obs pending_world)"
    by (simp add: pending_watched_def watches_def pending_world_def sample_saga_def sample_subscription_def live_def saga_states)
  moreover have "\<exists>s \<in> set (subscriptions (obs pending_world)). live s \<and> subStatus s = StatusPending \<and> ConfirmToken s = tok CHR ''a''"
    by (simp add: pending_world_def sample_subscription_def live_def)
  ultimately show ?thesis
    using pending_has_open_saga[OF mem_server.server_world_axioms built quiet_keeps full_queue_keeps rtranclp.rtrancl_refl]
      built by (metis obs_simps(12))
qed

definition race_found :: "(goerror + Subscription) \<times> mem_world" where
  "race_found = run (FindSubscriptionByConfirmToken (hStore mem_handler) (tok CHR ''a'')) pending_world"

definition race_compensated :: "goerror option \<times> mem_world" where
  "race_compensated = run (store_Compensate mem_gorm (tok CHR ''a'')) (snd race_found)"

definition race_activated :: "(string + Subscription) \<times> mem_world" where
  "race_activated = run (activate mem_handler (projr (fst race_found))) (snd race_compensated)"

lemma race_runs:
  "\<not> isl (fst race_found) \<and> subStatus (projr (fst race_found)) = StatusPending \<and> fst race_compensated = None
     \<and> \<not> isl (fst race_activated)"
  by code_simp

theorem confirm_race_revives_witness:
  "live (projr (fst race_activated)) \<and> subStatus (projr (fst race_activated)) = StatusActive
     \<and> (\<exists>g \<in> set (sagas (snd race_activated)). sagaToken g = tok CHR ''a'' \<and> sagaState g = SagaCompensated)"
proof -
  have 1: "run (FindSubscriptionByConfirmToken (hStore mem_handler) (tok CHR ''a'')) pending_world
      = (Inr (projr (fst race_found)), snd race_found)"
    using race_runs by (simp add: race_found_def[symmetric] prod_eq_iff)
  have 2: "run (store_Compensate mem_gorm (tok CHR ''a'')) (snd race_found) = (None, snd race_compensated)"
    using race_runs by (simp add: race_compensated_def[symmetric] prod_eq_iff)
  have 3: "run (activate mem_handler (projr (fst race_found))) (snd race_compensated)
      = (Inr (projr (fst race_activated)), snd race_activated)"
    using race_runs by (simp add: race_activated_def[symmetric] prod_eq_iff)
  show ?thesis
    using confirm_race_revives[OF mem_web.subscription_web_axioms mem.gorm_axioms 1 _ 2 3] race_runs by auto
qed

end
