(* ===== verification/Http_Server.thy ===== *)
theory Http_Server
  imports Handlers Quota
begin

text \<open>
  \<open>internal/metrics/metrics.go\<close>, \<open>internal/transport/http/server.go\<close> and its middleware
  \<open>middleware/prometheus.go\<close>: the metrics, the routes of the API and the measuring of requests.
  gin and the Prometheus client are parameters. The theorems: every request that is answered is
  counted once under its method, its route and its status, and the gauge of running requests
  is back where it was; and a handler that panics leaves the gauge raised for good.
\<close>

section \<open>The metrics\<close>

datatype metric_kind = MetricCounter | MetricCounterVec | MetricGauge | MetricHistogramVec

text \<open>The options of a collector; all histograms have the client's default buckets.\<close>

record collector =
  metricKind :: metric_kind
  metricName :: string
  metricHelp :: string
  metricLabels :: "string list"

definition HTTPRequestsTotal :: collector where
  "HTTPRequestsTotal = \<lparr>metricKind = MetricCounterVec, metricName = ''http_requests_total'',
     metricHelp = ''Total number of HTTP requests by method, path, and status code.'',
     metricLabels = [''method'', ''path'', ''status'']\<rparr>"

definition HTTPRequestDuration :: collector where
  "HTTPRequestDuration = \<lparr>metricKind = MetricHistogramVec, metricName = ''http_request_duration_seconds'',
     metricHelp = ''HTTP request latency in seconds.'', metricLabels = [''method'', ''path'', ''status'']\<rparr>"

definition HTTPRequestsInFlight :: collector where
  "HTTPRequestsInFlight = \<lparr>metricKind = MetricGauge, metricName = ''http_requests_in_flight'',
     metricHelp = ''Current number of HTTP requests being processed.'', metricLabels = []\<rparr>"

definition SubscribeAttempts :: collector where
  "SubscribeAttempts = \<lparr>metricKind = MetricCounter, metricName = ''subscriptions_subscribe_attempts_total'',
     metricHelp = ''Total number of subscribe endpoint calls.'', metricLabels = []\<rparr>"

definition SubscribeSuccesses :: collector where
  "SubscribeSuccesses = \<lparr>metricKind = MetricCounter, metricName = ''subscriptions_subscribe_successes_total'',
     metricHelp = ''Total number of successful (confirmation email sent) subscribe calls.'', metricLabels = []\<rparr>"

definition SubscribeConflicts :: collector where
  "SubscribeConflicts = \<lparr>metricKind = MetricCounter, metricName = ''subscriptions_subscribe_conflicts_total'',
     metricHelp = ''Total number of subscribe calls that found an already-active subscription.'', metricLabels = []\<rparr>"

definition ConfirmAttempts :: collector where
  "ConfirmAttempts = \<lparr>metricKind = MetricCounter, metricName = ''subscriptions_confirm_attempts_total'',
     metricHelp = ''Total number of confirm endpoint calls.'', metricLabels = []\<rparr>"

definition ConfirmSuccesses :: collector where
  "ConfirmSuccesses = \<lparr>metricKind = MetricCounter, metricName = ''subscriptions_confirm_successes_total'',
     metricHelp = ''Total number of successful subscription confirmations.'', metricLabels = []\<rparr>"

definition UnsubscribeAttempts :: collector where
  "UnsubscribeAttempts = \<lparr>metricKind = MetricCounter, metricName = ''subscriptions_unsubscribe_attempts_total'',
     metricHelp = ''Total number of unsubscribe endpoint calls.'', metricLabels = []\<rparr>"

definition UnsubscribeSuccesses :: collector where
  "UnsubscribeSuccesses = \<lparr>metricKind = MetricCounter, metricName = ''subscriptions_unsubscribe_successes_total'',
     metricHelp = ''Total number of successful unsubscribes.'', metricLabels = []\<rparr>"

definition MailerDeliveries :: collector where
  "MailerDeliveries = \<lparr>metricKind = MetricCounterVec, metricName = ''mailer_deliveries_total'',
     metricHelp = ''Total email delivery attempts by transport (amqp/grpc) and outcome.'',
     metricLabels = [''transport'', ''outcome'']\<rparr>"

definition MailerDeliveryDuration :: collector where
  "MailerDeliveryDuration = \<lparr>metricKind = MetricHistogramVec, metricName = ''mailer_delivery_duration_seconds'',
     metricHelp = ''Email delivery latency in seconds by transport (amqp/grpc).'', metricLabels = [''transport'']\<rparr>"

lemmas collector_defs =
  HTTPRequestsTotal_def HTTPRequestDuration_def HTTPRequestsInFlight_def
  SubscribeAttempts_def SubscribeSuccesses_def SubscribeConflicts_def
  ConfirmAttempts_def ConfirmSuccesses_def UnsubscribeAttempts_def UnsubscribeSuccesses_def
  MailerDeliveries_def MailerDeliveryDuration_def

text \<open>The counters without labels, which the handlers increment.\<close>

definition handler_counters :: "collector list" where
  "handler_counters =
     [SubscribeAttempts, SubscribeSuccesses, SubscribeConflicts, ConfirmAttempts, ConfirmSuccesses,
      UnsubscribeAttempts, UnsubscribeSuccesses]"

section \<open>The Prometheus client\<close>

text \<open>A call with label values is \<open>WithLabelValues(vs...)\<close> and what follows it; it returns
  whether it returned: \<open>False\<close> is a panic.\<close>

record 'w prometheus =
  gaugeAdd :: "collector \<Rightarrow> int \<Rightarrow> ('w, unit) state"
  counterInc :: "collector \<Rightarrow> string list \<Rightarrow> ('w, bool) state"
  histObserve :: "collector \<Rightarrow> string list \<Rightarrow> float64 \<Rightarrow> ('w, bool) state"

definition ObserveMailerDelivery :: "'w prometheus \<Rightarrow> string \<Rightarrow> string \<Rightarrow> float64 \<Rightarrow> ('w, bool) state" where
  "ObserveMailerDelivery P transport outcome seconds = do {
     ok \<leftarrow> counterInc P MailerDeliveries [transport, outcome];
     if \<not> ok then ret False else histObserve P MailerDeliveryDuration [transport] seconds }"

text \<open>\<open>Inc\<close> of the handlers' counter of that name.\<close>

definition handler_inc :: "'w prometheus \<Rightarrow> string \<Rightarrow> ('w, unit) state" where
  "handler_inc P name =
     (case List.find (\<lambda>c. metricName c = name) handler_counters of
        None \<Rightarrow> ret ()
      | Some c \<Rightarrow> do { ok \<leftarrow> counterInc P c []; ret () })"

section \<open>Requests and the middleware\<close>

datatype 'a served = Answered 'a | Panicked | Unfinished

record gin_request =
  ginMethod :: string
  ginPath :: string
  ginFullPath :: string
  ginContext :: gin_context

type_synonym 'w gin_handler = "gin_request \<Rightarrow> ('w, web_response served) state"

text \<open>\<open>Prometheus()\<close>: what is after \<open>c.Next()\<close> is not run when the handler panics.\<close>

definition request_label :: "gin_request \<Rightarrow> string" where
  "request_label c = (if ginFullPath c = '''' then ginPath c else ginFullPath c)"

definition Prometheus :: "'w prometheus \<Rightarrow> ('w, time) state \<Rightarrow> 'w gin_handler \<Rightarrow> 'w gin_handler" where
  "Prometheus P clk nxt c = do {
     let path = request_label c;
     gaugeAdd P HTTPRequestsInFlight 1;
     start \<leftarrow> clk;
     served \<leftarrow> nxt c;
     case served of
       Panicked \<Rightarrow> ret Panicked
     | Unfinished \<Rightarrow> ret Unfinished
     | Answered r \<Rightarrow> do {
         gaugeAdd P HTTPRequestsInFlight (- 1);
         let status = Itoa (int (httpStatus r));
         t \<leftarrow> clk;
         let elapsed = Seconds (time_Sub t start);
         ok \<leftarrow> counterInc P HTTPRequestsTotal [ginMethod c, path, status];
         if \<not> ok then ret Panicked
         else do {
           ok \<leftarrow> histObserve P HTTPRequestDuration [ginMethod c, path, status] elapsed;
           ret (if ok then Answered r else Panicked) } } }"

section \<open>The server\<close>

record 'w gin_route =
  routeMethod :: string
  routePattern :: string
  routeHandler :: "gin_context \<Rightarrow> ('w, web_response served) state"

definition answering_with :: "('w, web_response) state \<Rightarrow> ('w, web_response served) state" where
  "answering_with m = do { r \<leftarrow> m; ret (Answered r) }"

definition RegisterRoutes :: "nat \<Rightarrow> 'w SubscriptionHandler \<Rightarrow> 'w gin_route list" where
  "RegisterRoutes fuel h =
     [\<lparr>routeMethod = ''POST'', routePattern = ''/subscribe'', routeHandler = (\<lambda>c. do {
         r \<leftarrow> Subscribe fuel h c;
         ret (case r of None \<Rightarrow> Unfinished | Some r \<Rightarrow> Answered r) })\<rparr>,
      \<lparr>routeMethod = ''GET'', routePattern = ''/confirm/:token'', routeHandler = \<lambda>c. answering_with (Confirm h c)\<rparr>,
      \<lparr>routeMethod = ''GET'', routePattern = ''/unsubscribe/:token'', routeHandler = \<lambda>c. answering_with (Unsubscribe h c)\<rparr>,
      \<lparr>routeMethod = ''GET'', routePattern = ''/subscriptions'', routeHandler = \<lambda>c. answering_with (GetSubscriptions h c)\<rparr>]"

text \<open>gin: the parameters of a path that matches a pattern, the middlewares of \<open>gin.Default()\<close>, and
  the answer to a request without a route.\<close>

record 'w gin =
  ginMatch :: "string \<Rightarrow> string \<Rightarrow> (string \<Rightarrow> string) option"
  ginDefault :: "'w gin_handler \<Rightarrow> 'w gin_handler"
  ginNotFound :: web_response

fun ginRoute :: "'w gin \<Rightarrow> 'w gin_route list \<Rightarrow> string \<Rightarrow> string \<Rightarrow> ('w gin_route \<times> (string \<Rightarrow> string)) option" where
  "ginRoute G [] verb path = None"
| "ginRoute G (r # rs) verb path =
     (if routeMethod r = verb
      then (case ginMatch G (routePattern r) path of Some ps \<Rightarrow> Some (r, ps) | None \<Rightarrow> ginRoute G rs verb path)
      else ginRoute G rs verb path)"

text \<open>The engine: the route is found first, then the chain of middlewares is run around it.\<close>

definition ginServe :: "'w gin \<Rightarrow> ('w gin_handler \<Rightarrow> 'w gin_handler) \<Rightarrow> 'w gin_route list \<Rightarrow> 'w gin_handler" where
  "ginServe G middleware routes req =
     (case ginRoute G routes (ginMethod req) (ginPath req) of
        Some (r, ps) \<Rightarrow>
          ginDefault G (middleware (\<lambda>c. routeHandler r (ginContext c)))
            (req\<lparr>ginFullPath := routePattern r, ginContext := (ginContext req)\<lparr>Param := ps\<rparr>\<rparr>)
      | None \<Rightarrow> ginDefault G (middleware (\<lambda>c. ret (Answered (ginNotFound G)))) (req\<lparr>ginFullPath := ''''\<rparr>))"

record 'w http_server =
  httpAddr :: string
  httpHandler :: "'w gin_handler"
  httpReadTimeout :: int
  httpWriteTimeout :: int

text \<open>\<open>promhttp.Handler()\<close> is the parameter \<open>exposition\<close>.\<close>

definition NewServer ::
  "'w gin \<Rightarrow> 'w prometheus \<Rightarrow> ('w, time) state \<Rightarrow> ('w, web_response) state \<Rightarrow> nat
     \<Rightarrow> string \<Rightarrow> 'w SubscriptionHandler \<Rightarrow> 'w http_server" where
  "NewServer G P clk exposition fuel addr subHandler =
     \<lparr>httpAddr = addr,
      httpHandler = ginServe G (Prometheus P clk)
        (\<lparr>routeMethod = ''GET'', routePattern = ''/metrics'', routeHandler = \<lambda>_. answering_with exposition\<rparr>
           # RegisterRoutes fuel subHandler),
      httpReadTimeout = 10 * second, httpWriteTimeout = 10 * second\<rparr>"

text \<open>\<open>ListenAndServe\<close> and \<open>Shutdown\<close> of the library are parameters, as is \<open>http.ErrServerClosed\<close>.\<close>

definition http_Start :: "('w http_server \<Rightarrow> ('w, goerror option) state) \<Rightarrow> goerror \<Rightarrow> 'w http_server \<Rightarrow> ('w, goerror option) state" where
  "http_Start listen_and_serve errServerClosed s = do {
     err \<leftarrow> listen_and_serve s;
     ret (if err \<noteq> None \<and> err \<noteq> Some errServerClosed then err else None) }"

definition http_Stop :: "('w http_server \<Rightarrow> ('w, goerror option) state) \<Rightarrow> 'w http_server \<Rightarrow> ('w, goerror option) state" where
  "http_Stop shutdown s = shutdown s"

section \<open>What is assumed of the client and of gin\<close>

text \<open>The values of the metrics: the gauges, and the increments and observations in their order.\<close>

record metric_values =
  gauges :: "collector \<Rightarrow> int"
  counts :: "(collector \<times> string list) list"
  timings :: "(collector \<times> string list \<times> float64) list"

text \<open>\<open>WithLabelValues\<close> panics when the number of values is not that of the labels.\<close>

locale prometheus_client =
  fixes P :: "'w prometheus" and mv :: "'w \<Rightarrow> metric_values"
  assumes gauge: "\<And>c n w u w'. run (gaugeAdd P c n) w = (u, w') \<Longrightarrow>
      mv w' = gauges_update (\<lambda>g. g(c := g c + n)) (mv w)"
    and inc: "\<And>c vs w ok w'. run (counterInc P c vs) w = (ok, w') \<Longrightarrow> ok = (length vs = length (metricLabels c))
      \<and> mv w' = (if ok then counts_update (\<lambda>l. l @ [(c, vs)]) (mv w) else mv w)"
    and observe: "\<And>c vs x w ok w'. run (histObserve P c vs x) w = (ok, w') \<Longrightarrow> ok = (length vs = length (metricLabels c))
      \<and> mv w' = (if ok then timings_update (\<lambda>l. l @ [(c, vs, x)]) (mv w) else mv w)"

text \<open>The clock and gin leave the metrics alone; \<open>Recovery\<close> answers a panic with a 500.\<close>

locale measured_gin = prometheus_client P mv
  for P :: "'w prometheus" and mv :: "'w \<Rightarrow> metric_values" +
  fixes G :: "'w gin" and clk :: "('w, time) state"
  assumes clock: "\<And>w t w'. run clk w = (t, w') \<Longrightarrow> mv w' = mv w"
    and default: "\<And>nxt c w served w'. run (ginDefault G nxt c) w = (served, w') \<Longrightarrow>
      \<exists>w0 inner w1. mv w0 = mv w \<and> run (nxt c) w0 = (inner, w1) \<and> mv w' = mv w1
        \<and> (if inner = Panicked then \<exists>r. served = Answered r \<and> httpStatus r = 500 else served = inner)"

section \<open>Computations that stay within a relation\<close>

definition stays :: "('w \<Rightarrow> 'w \<Rightarrow> bool) \<Rightarrow> ('w, 'a) state \<Rightarrow> bool" where
  "stays R m \<longleftrightarrow> (\<forall>w r w'. run m w = (r, w') \<longrightarrow> R w w')"

lemma staysD: "stays R m \<Longrightarrow> run m w = (r, w') \<Longrightarrow> R w w'"
  by (simp add: stays_def)

locale preorder_on_worlds =
  fixes R :: "'w \<Rightarrow> 'w \<Rightarrow> bool"
  assumes refl: "R w w" and trans: "R u v \<Longrightarrow> R v w \<Longrightarrow> R u w"
begin

lemma ret_within [simp]: "stays R (ret x)"
  by (simp add: stays_def refl)

lemma bind_within: "stays R m \<Longrightarrow> (\<And>x. stays R (f x)) \<Longrightarrow> stays R (State_Monad.bind m f)"
  unfolding stays_def by (fastforce split: prod.splits intro: trans)

text \<open>A handler whose parts stay within the relation does.\<close>

definition parts_within :: "'w SubscriptionHandler \<Rightarrow> bool" where
  "parts_within h \<longleftrightarrow>
     (\<forall>x y. stays R (FindRepoByPath (hStore h) x y)) \<and> (\<forall>x. stays R (FindRepoByGitHubID (hStore h) x))
   \<and> (\<forall>x. stays R (SaveRepo (hStore h) x)) \<and> (\<forall>x. stays R (CreateRepo (hStore h) x))
   \<and> (\<forall>x y. stays R (FindSubscription (hStore h) x y)) \<and> (\<forall>x. stays R (IsConfirmTokenTaken (hStore h) x))
   \<and> (\<forall>x y. stays R (SaveSubscription (hStore h) x y)) \<and> (\<forall>x y. stays R (CreateSubscription (hStore h) x y))
   \<and> (\<forall>x. stays R (FindSubscriptionByConfirmToken (hStore h) x))
   \<and> (\<forall>x y. stays R (FindSubscriptionByTokens (hStore h) x y))
   \<and> (\<forall>x y. stays R (FindSubscriptionByEmailAndToken (hStore h) x y))
   \<and> (\<forall>x. stays R (ListSubscriptions (hStore h) x)) \<and> (\<forall>x. stays R (FindReposByIDs (hStore h) x))
   \<and> (\<forall>x y z. stays R (hResolver h x y z)) \<and> stays R (hRandRead h)
   \<and> stays R (NewString (hServices h)) \<and> stays R (NowUTC (hServices h)) \<and> (\<forall>x. stays R (hInc h x))"

lemma answering_within [simp]: "stays R m \<Longrightarrow> stays R (answering_with m)"
  by (simp add: answering_with_def bind_within)

lemma token_within: "parts_within h \<Longrightarrow> stays R (generateToken h)"
  unfolding generateToken_def parts_within_def by (auto intro!: bind_within)

lemma event_within: "parts_within h \<Longrightarrow> stays R (NewSubscriptionCreated (hServices h) pl)"
  unfolding NewSubscriptionCreated_def newEnvelope_def parts_within_def
  by (auto intro!: bind_within split: sum.splits)

end

text \<open>A handler with such parts, and its calls.\<close>

locale handler_within = preorder_on_worlds R
  for R :: "'w \<Rightarrow> 'w \<Rightarrow> bool" +
  fixes h :: "'w SubscriptionHandler"
  assumes parts: "parts_within h"
begin

lemmas part_within [simp] = parts[unfolded parts_within_def] token_within[OF parts] event_within[OF parts]

lemma free_token_within [simp]: "stays R (free_token n h)"
  by (induction n) (auto intro!: bind_within split: sum.splits)

lemma resolve_within [simp]: "stays R (resolveOrCreateRepo h owner name)"
  unfolding resolveOrCreateRepo_def Let_def by (auto intro!: bind_within split: sum.splits)

lemma subscribe_end_within [simp]: "stays R (subscribe_with_token h email i sub token)"
  unfolding subscribe_with_token_def Let_def by (auto intro!: bind_within split: sum.splits option.splits)

lemma subscribe_repo_within [simp]: "stays R (subscribe_repo fuel h email i)"
  unfolding subscribe_repo_def Let_def by (auto intro!: bind_within split: sum.splits option.splits)

lemma subscribe_within [simp]: "stays R (Subscribe fuel h c)"
  unfolding Subscribe_def Let_def by (auto intro!: bind_within split: sum.splits)

lemma activate_within [simp]: "stays R (activate h sub)"
  unfolding activate_def Let_def by (auto intro!: bind_within split: sum.splits)

lemma confirm_within [simp]: "stays R (Confirm h c)"
  unfolding Confirm_def Let_def by (auto intro!: bind_within split: sum.splits)

lemma unsubscribe_within [simp]: "stays R (Unsubscribe h c)"
  unfolding Unsubscribe_def end_subscription_def Let_def
  by (auto intro!: bind_within split: sum.splits option.splits)

lemma listing_within [simp]: "stays R (GetSubscriptions h c)"
  unfolding GetSubscriptions_def Let_def by (auto intro!: bind_within split: sum.splits)

lemma routes_within: "r \<in> set (RegisterRoutes fuel h) \<Longrightarrow> stays R (routeHandler r c)"
  by (auto simp: RegisterRoutes_def intro!: bind_within)

end

section \<open>What a request leaves in the metrics\<close>

text \<open>A handler increments its own counters, and nothing else of the metrics moves.\<close>

definition handler_moves :: "('w \<Rightarrow> metric_values) \<Rightarrow> 'w \<Rightarrow> 'w \<Rightarrow> bool" where
  "handler_moves mv w w' \<longleftrightarrow> gauges (mv w') = gauges (mv w) \<and> timings (mv w') = timings (mv w)
     \<and> (\<exists>cs. set cs \<subseteq> set handler_counters \<and> counts (mv w') = counts (mv w) @ map (\<lambda>c. (c, [])) cs)"

lemma handler_moves_same: "mv w' = mv w \<Longrightarrow> handler_moves mv w w'"
  by (auto simp: handler_moves_def)

lemma handler_moves_trans:
  assumes "handler_moves mv u v" and "handler_moves mv v w"
  shows "handler_moves mv u w"
proof -
  obtain cs ds where "set cs \<subseteq> set handler_counters" "counts (mv v) = counts (mv u) @ map (\<lambda>c. (c, [])) cs"
    and "set ds \<subseteq> set handler_counters" "counts (mv w) = counts (mv v) @ map (\<lambda>c. (c, [])) ds"
    using assms by (auto simp: handler_moves_def)
  then show ?thesis
    using assms by (auto simp: handler_moves_def intro!: exI[of _ "cs @ ds"])
qed

lemma handler_moves_preorder: "preorder_on_worlds (handler_moves mv)"
  by unfold_locales (auto intro: handler_moves_same handler_moves_trans)

text \<open>The trace of one request: \<open>elapsed\<close> seconds under the labels of the method, the path and the
  status.\<close>

definition request_counted :: "metric_values \<Rightarrow> string \<Rightarrow> string \<Rightarrow> nat \<Rightarrow> metric_values \<Rightarrow> bool" where
  "request_counted v verb path status u \<longleftrightarrow> (\<exists>cs elapsed.
     gauges u = gauges v \<and> set cs \<subseteq> set handler_counters
     \<and> counts u = counts v @ map (\<lambda>c. (c, [])) cs @ [(HTTPRequestsTotal, [verb, path, Itoa (int status)])]
     \<and> timings u = timings v @ [(HTTPRequestDuration, [verb, path, Itoa (int status)], elapsed)])"

context prometheus_client begin

lemma handler_inc_moves: "stays (handler_moves mv) (handler_inc P name)"
  unfolding stays_def
proof (intro allI impI)
  fix w r w'
  assume run: "run (handler_inc P name) w = (r, w')"
  show "handler_moves mv w w'"
  proof (cases "List.find (\<lambda>c. metricName c = name) handler_counters")
    case None
    then show ?thesis using run by (simp add: handler_inc_def handler_moves_same)
  next
    case (Some c)
    then have c: "c \<in> set handler_counters" by (auto simp: find_Some_iff in_set_conv_nth)
    obtain ok w1 where 1: "run (counterInc P c []) w = (ok, w1)" by (rule prod.exhaust)
    have "metricLabels c = []" using c by (auto simp: handler_counters_def collector_defs)
    then have "handler_moves mv w w1"
      using inc[OF 1] c by (auto simp: handler_moves_def intro!: exI[of _ "[c]"])
    then show ?thesis using run Some 1 by (simp add: handler_inc_def)
  qed
qed

lemma observe_delivery_run:
  assumes "run (ObserveMailerDelivery P transport outcome s) w = (ok, w')"
  shows "ok \<and> mv w' = (mv w)\<lparr>counts := counts (mv w) @ [(MailerDeliveries, [transport, outcome])],
    timings := timings (mv w) @ [(MailerDeliveryDuration, [transport], s)]\<rparr>"
proof -
  obtain ok1 w1 where 1: "run (counterInc P MailerDeliveries [transport, outcome]) w = (ok1, w1)" by (rule prod.exhaust)
  obtain ok2 w2 where 2: "run (histObserve P MailerDeliveryDuration [transport] s) w1 = (ok2, w2)" by (rule prod.exhaust)
  show ?thesis
    using assms 1 2 inc[OF 1] observe[OF 2]
    by (auto simp: ObserveMailerDelivery_def MailerDeliveries_def MailerDeliveryDuration_def split: if_splits)
qed

end

context measured_gin begin

text \<open>The middleware around a handler that does not panic, and around one that does.\<close>

lemma middleware_run:
  assumes run: "run (Prometheus P clk nxt c) w = (served, w')"
    and nxt: "stays (handler_moves mv) (nxt c)" "\<And>v v'. run (nxt c) v \<noteq> (Panicked, v')"
  shows "served \<noteq> Panicked
    \<and> (\<forall>r. served = Answered r \<longrightarrow> request_counted (mv w) (ginMethod c) (request_label c) (httpStatus r) (mv w'))"
proof -
  obtain u1 w1 where 1: "run (gaugeAdd P HTTPRequestsInFlight 1) w = (u1, w1)" by (rule prod.exhaust)
  obtain start w2 where 2: "run clk w1 = (start, w2)" by (rule prod.exhaust)
  obtain inner w3 where 3: "run (nxt c) w2 = (inner, w3)" by (rule prod.exhaust)
  show ?thesis
  proof (cases inner)
    case Panicked
    then show ?thesis using nxt(2) 3 by blast
  next
    case Unfinished
    then show ?thesis using run 1 2 3 by (simp add: Prometheus_def Let_def)
  next
    case (Answered r)
    let ?labels = "[ginMethod c, request_label c, Itoa (int (httpStatus r))]"
    obtain u4 w4 where 4: "run (gaugeAdd P HTTPRequestsInFlight (- 1)) w3 = (u4, w4)" by (rule prod.exhaust)
    obtain t w5 where 5: "run clk w4 = (t, w5)" by (rule prod.exhaust)
    obtain ok6 w6 where 6: "run (counterInc P HTTPRequestsTotal ?labels) w5 = (ok6, w6)" by (rule prod.exhaust)
    have ok: "ok6" using inc[OF 6] by (simp add: HTTPRequestsTotal_def)
    obtain ok7 w7 where 7: "run (histObserve P HTTPRequestDuration ?labels (Seconds (time_Sub t start))) w6 = (ok7, w7)"
      by (rule prod.exhaust)
    have ok7: "ok7" using observe[OF 7] by (simp add: HTTPRequestDuration_def)
    have s: "served = Answered r" and w': "w' = w7"
      using run 1 2 3 Answered 4 5 6 7 ok ok7 by (simp_all add: Prometheus_def Let_def)
    obtain cs where cs: "set cs \<subseteq> set handler_counters" "counts (mv w3) = counts (mv w2) @ map (\<lambda>c. (c, [])) cs"
      and m: "gauges (mv w3) = gauges (mv w2)" "timings (mv w3) = timings (mv w2)"
      using staysD[OF nxt(1) 3] by (auto simp: handler_moves_def)
    have "request_counted (mv w) (ginMethod c) (request_label c) (httpStatus r) (mv w7)"
      unfolding request_counted_def
      using cs m gauge[OF 1] clock[OF 2] gauge[OF 4] clock[OF 5] inc[OF 6] observe[OF 7] ok ok7
      by (intro exI[of _ cs] exI[of _ "Seconds (time_Sub t start)"]) (auto simp: fun_eq_iff)
    then show ?thesis using s w' by simp
  qed
qed

lemma middleware_panic:
  assumes "run (Prometheus P clk nxt c) w = (served, w')" and "\<And>v. mv v = (mv w)\<lparr>gauges := g\<rparr> \<Longrightarrow> \<exists>v'. run (nxt c) v = (Panicked, v')"
    and "g = (gauges (mv w))(HTTPRequestsInFlight := gauges (mv w) HTTPRequestsInFlight + 1)"
    and "stays (handler_moves mv) (nxt c)"
  shows "served = Panicked \<and> gauges (mv w') = g \<and> timings (mv w') = timings (mv w)
    \<and> (\<exists>cs. set cs \<subseteq> set handler_counters \<and> counts (mv w') = counts (mv w) @ map (\<lambda>c. (c, [])) cs)"
proof -
  obtain u1 w1 where 1: "run (gaugeAdd P HTTPRequestsInFlight 1) w = (u1, w1)" by (rule prod.exhaust)
  obtain start w2 where 2: "run clk w1 = (start, w2)" by (rule prod.exhaust)
  have v2: "mv w2 = (mv w)\<lparr>gauges := g\<rparr>" using clock[OF 2] gauge[OF 1] assms(3) by simp
  obtain w3 where 3: "run (nxt c) w2 = (Panicked, w3)" using assms(2)[OF v2] by blast
  have "served = Panicked" "w' = w3" using assms(1) 1 2 3 by (simp_all add: Prometheus_def Let_def)
  then show ?thesis using staysD[OF assms(4) 3] v2 by (auto simp: handler_moves_def)
qed

end

section \<open>Every request is counted\<close>

definition server_routes :: "('w, web_response) state \<Rightarrow> nat \<Rightarrow> 'w SubscriptionHandler \<Rightarrow> 'w gin_route list" where
  "server_routes exposition fuel h =
     \<lparr>routeMethod = ''GET'', routePattern = ''/metrics'', routeHandler = \<lambda>_. answering_with exposition\<rparr>
       # RegisterRoutes fuel h"

lemma route_found: "ginRoute G routes verb path = Some (r, ps) \<Longrightarrow> r \<in> set routes"
  by (induction routes) (auto split: if_splits option.splits)

lemma routes_never_panic:
  "r \<in> set (server_routes exposition fuel h) \<Longrightarrow> run (routeHandler r c) v \<noteq> (Panicked, v')"
  by (auto simp: server_routes_def RegisterRoutes_def answering_with_def split: prod.splits option.splits)

lemma routes_move_counters:
  assumes "handler_within (handler_moves mv) h" and "stays (handler_moves mv) exposition"
    and "r \<in> set (server_routes exposition fuel h)"
  shows "stays (handler_moves mv) (routeHandler r c)"
  using assms(2,3) handler_within.routes_within[OF assms(1)]
    preorder_on_worlds.answering_within[OF handler_moves_preorder, of mv exposition]
  by (auto simp: server_routes_def)

lemma measured_serve:
  assumes "measured_gin P mv G clk" and "run (ginServe G (Prometheus P clk) routes req) w = (served, w')"
    and quiet: "\<And>r c. r \<in> set routes \<Longrightarrow> stays (handler_moves mv) (routeHandler r c)"
      "\<And>r c v v'. r \<in> set routes \<Longrightarrow> run (routeHandler r c) v \<noteq> (Panicked, v')"
  shows "served \<noteq> Panicked \<and> (\<forall>r. served = Answered r \<longrightarrow> (\<exists>path \<in> insert (ginPath req) (routePattern ` set routes).
      request_counted (mv w) (ginMethod req) path (httpStatus r) (mv w')))"
proof -
  obtain nxt c where c: "ginMethod c = ginMethod req" "request_label c \<in> insert (ginPath req) (routePattern ` set routes)"
    and served: "run (ginDefault G (Prometheus P clk nxt) c) w = (served, w')"
    and nxt: "stays (handler_moves mv) (nxt c)" "\<And>v v'. run (nxt c) v \<noteq> (Panicked, v')"
  proof (cases "ginRoute G routes (ginMethod req) (ginPath req)")
    case None
    show ?thesis
      by (rule that[of "req\<lparr>ginFullPath := ''''\<rparr>" "\<lambda>c. ret (Answered (ginNotFound G))"])
         (use assms(2) None in \<open>auto simp: ginServe_def request_label_def stays_def handler_moves_same\<close>)
  next
    case (Some rp)
    obtain r ps where rp: "rp = (r, ps)" by (cases rp)
    note r = route_found[OF Some[unfolded rp]]
    show ?thesis
      by (rule that[of "req\<lparr>ginFullPath := routePattern r, ginContext := (ginContext req)\<lparr>Param := ps\<rparr>\<rparr>"
            "\<lambda>c. routeHandler r (ginContext c)"])
         (use assms(2) Some rp r quiet[OF r] in \<open>auto simp: ginServe_def request_label_def\<close>)
  qed
  obtain w0 inner w1 where i: "mv w0 = mv w" "run (Prometheus P clk nxt c) w0 = (inner, w1)" "mv w' = mv w1"
    and s: "if inner = Panicked then \<exists>r. served = Answered r \<and> httpStatus r = 500 else served = inner"
    using measured_gin.default[OF assms(1) served] by blast
  show ?thesis
    using measured_gin.middleware_run[OF assms(1) i(2) nxt] s i(1,3) c by auto
qed


text \<open>
  The middleware raises the gauge of running requests before the handler and lowers it after
  it, not in a deferred call, and \<open>Recovery\<close> stands outside of it. A request whose handler
  panics is answered with a 500, but it leaves the gauge raised for good, and it is neither
  counted nor timed.
\<close>

theorem panic_leaks_gauge:
  assumes "measured_gin P mv G clk" and "stays (handler_moves mv) (nxt c)" and "\<And>v. \<exists>v'. run (nxt c) v = (Panicked, v')"
    and "run (ginDefault G (Prometheus P clk nxt) c) w = (served, w')"
  shows "(\<exists>r. served = Answered r \<and> httpStatus r = 500)
    \<and> gauges (mv w') HTTPRequestsInFlight = gauges (mv w) HTTPRequestsInFlight + 1
    \<and> (\<exists>cs. set cs \<subseteq> set handler_counters \<and> counts (mv w') = counts (mv w) @ map (\<lambda>c. (c, [])) cs)
    \<and> timings (mv w') = timings (mv w)"
proof -
  obtain w0 inner w1 where i: "mv w0 = mv w" "run (Prometheus P clk nxt c) w0 = (inner, w1)" "mv w' = mv w1"
    and s: "if inner = Panicked then \<exists>r. served = Answered r \<and> httpStatus r = 500 else served = inner"
    using measured_gin.default[OF assms(1,4)] by blast
  from measured_gin.middleware_panic[OF assms(1) i(2) assms(3) HOL.refl assms(2)]
  show ?thesis using s i(1,3) by auto
qed

section \<open>A server at work\<close>

text \<open>The metrics alone are the world; the database is not reachable.\<close>

definition mem_prometheus :: "metric_values prometheus" where
  "mem_prometheus =
     \<lparr>gaugeAdd = \<lambda>c n. State (\<lambda>v. ((), gauges_update (\<lambda>g. g(c := g c + n)) v)),
      counterInc = \<lambda>c vs. State (\<lambda>v. if length vs = length (metricLabels c)
        then (True, counts_update (\<lambda>l. l @ [(c, vs)]) v) else (False, v)),
      histObserve = \<lambda>c vs x. State (\<lambda>v. if length vs = length (metricLabels c)
        then (True, timings_update (\<lambda>l. l @ [(c, vs, x)]) v) else (False, v))\<rparr>"

definition mem_gin :: "metric_values gin" where
  "mem_gin =
     \<lparr>ginMatch = \<lambda>pattern path. if pattern = path then Some (\<lambda>_. '''') else None,
      ginDefault = \<lambda>nxt c. do { served \<leftarrow> nxt c;
        ret (case served of Panicked \<Rightarrow> Answered (respond 500 JNull) | Unfinished \<Rightarrow> Unfinished | Answered r \<Rightarrow> Answered r) },
      ginNotFound = respond 404 JNull\<rparr>"

interpretation mem_metrics: measured_gin mem_prometheus "\<lambda>v. v" mem_gin "ret 0"
  by unfold_locales (auto simp: mem_prometheus_def mem_gin_def respond_def split: if_splits prod.splits served.splits)

definition offline_store :: "'w SubscriptionRepository" where
  "offline_store =
     \<lparr>FindRepoByPath = \<lambda>_ _. ret (Inl (Err ''offline'')), FindRepoByGitHubID = \<lambda>_. ret (Inl (Err ''offline'')),
      SaveRepo = \<lambda>_. ret (Some (Err ''offline'')), CreateRepo = \<lambda>_. ret (Inl (Err ''offline'')),
      FindSubscription = \<lambda>_ _. ret (Inl (Err ''offline'')), IsConfirmTokenTaken = \<lambda>_. ret (Inl (Err ''offline'')),
      SaveSubscription = \<lambda>_ _. ret (Some (Err ''offline'')), CreateSubscription = \<lambda>_ _. ret (Some (Err ''offline'')),
      FindSubscriptionByConfirmToken = \<lambda>_. ret (Inl (Err ''offline'')),
      FindSubscriptionByTokens = \<lambda>_ _. ret (Inl (Err ''offline'')),
      FindSubscriptionByEmailAndToken = \<lambda>_ _. ret (Inl (Err ''offline'')),
      ListSubscriptions = \<lambda>_. ret (Inl (Err ''offline'')), FindReposByIDs = \<lambda>_. ret (Inl (Err ''offline''))\<rparr>"

definition offline_handler :: "metric_values SubscriptionHandler" where
  "offline_handler = NewSubscriptionHandler offline_store
     (\<lambda>_ _ _. ret \<lparr>rData = \<lparr>ghID = 0, ghFullName = ''''\<rparr>, rLimits = zero_limits, rETag = '''', rStatusCode = 0,
        rError = None\<rparr>)
     (ret (Inl (Err ''no random source''))) \<lparr>NewString = ret ''id'', NowUTC = ret ''''\<rparr> (handler_inc mem_prometheus)"

interpretation offline: handler_within "handler_moves (\<lambda>v. v)" offline_handler
proof (intro handler_within.intro handler_within_axioms.intro handler_moves_preorder)
  show "preorder_on_worlds.parts_within (handler_moves (\<lambda>v. v)) offline_handler"
    unfolding preorder_on_worlds.parts_within_def[OF handler_moves_preorder]
    by (simp add: offline_handler_def NewSubscriptionHandler_def offline_store_def mem_metrics.handler_inc_moves
        preorder_on_worlds.ret_within[OF handler_moves_preorder])
qed

definition no_metrics :: metric_values where
  "no_metrics = \<lparr>gauges = \<lambda>_. 0, counts = [], timings = []\<rparr>"

definition listing_request :: gin_request where
  "listing_request = \<lparr>ginMethod = ''GET'', ginPath = ''/subscriptions'', ginFullPath = '''',
     ginContext = \<lparr>ShouldBindJSON = Inl EOF, Param = \<lambda>_. '''', Query = \<lambda>_. '''', GetHeader = \<lambda>_. ''''\<rparr>\<rparr>"


theorem panic_leaks_gauge_witness:
  "\<exists>served w'. run (ginDefault mem_gin (Prometheus mem_prometheus (ret 0) (\<lambda>_. ret Panicked)) listing_request) no_metrics
      = (served, w') \<and> gauges w' HTTPRequestsInFlight = 1 \<and> timings w' = []"
proof -
  obtain served w' where run: "run (ginDefault mem_gin (Prometheus mem_prometheus (ret 0) (\<lambda>_. ret Panicked)) listing_request)
      no_metrics = (served, w')" by (rule prod.exhaust)
  have "stays (handler_moves (\<lambda>v. v)) (ret (Panicked :: web_response served))"
    by (rule preorder_on_worlds.ret_within[OF handler_moves_preorder])
  from panic_leaks_gauge[OF mem_metrics.measured_gin_axioms this _ run] run
  show ?thesis by (auto simp: no_metrics_def)
qed

end
