(* ===== verification/Main_Programs.thy ===== *)
theory Main_Programs
  imports Server Http_Server "HOL-Library.Multiset"
begin

text \<open>
  The three \<open>main\<close> functions with what they open and release: \<open>cmd/server/main.go\<close>,
  \<open>cmd/notifier/main.go\<close>, \<open>cmd/mailer/main.go\<close>, the database singleton of
  \<open>internal/infra/db/db.go\<close> and \<open>internal/logger/logger.go\<close>. The operating system, the drivers and
  the goroutines are a parameter. The theorem: a service that stops in an orderly way has released
  everything it opened, and one that gives up at its start has not started any goroutine.
\<close>

section \<open>The process\<close>

text \<open>What a \<open>main\<close> starts beside itself.\<close>

datatype 'w goroutine =
    GoScanner "'w Scanner"
  | GoRelay "'w Relay" int
  | GoConsumer "'w Consumer"
  | GoReaper "'w Reaper"
  | GoHTTP "'w http_server"
  | GoServe "'w Server"
  | GoGracefulStop "'w Server"

text \<open>\<open>prDone\<close> is \<open><-ctx.Done()\<close>, \<open>prWait\<close> is \<open>wg.Wait()\<close>, \<open>prSqlDB\<close> is \<open>instance.DB()\<close>;
  \<open>prShutdown\<close> has the timeout of its context. \<open>prBroker\<close> is the connection that \<open>rabbitmq.Dial\<close>
  makes for the address and the policy.\<close>

record 'w process =
  prOpenLogger :: "string \<Rightarrow> ('w, unit) state"
  prSync :: "('w, unit) state"
  prLoadFile :: "string \<Rightarrow> ('w, goerror option) state"
  prNotExist :: "goerror \<Rightarrow> bool"
  prEnviron :: "('w, environ) state"
  prParseFloat :: "string \<Rightarrow> float64 option"
  prNotify :: "('w, unit) state"
  prStopNotify :: "('w, unit) state"
  prGo :: "'w goroutine \<Rightarrow> ('w, unit) state"
  prDone :: "('w, unit) state"
  prWait :: "('w, unit) state"
  prSleep :: "int \<Rightarrow> ('w, unit) state"
  prShutdown :: "int \<Rightarrow> 'w http_server \<Rightarrow> ('w, goerror option) state"
  prOpenDB :: "string \<Rightarrow> int \<Rightarrow> ('w, goerror + 'w gorm_db) state"
  prMigrate :: "'w gorm_db \<Rightarrow> ('w, goerror option) state"
  prSqlDB :: "'w gorm_db \<Rightarrow> ('w, goerror + ('w, goerror option) state) state"
  prDBCell :: "('w, 'w gorm_db) once"
  prNewRedis :: "string \<Rightarrow> ('w, 'w redis_client) state"
  prRedisCell :: "('w, 'w redis_client) once"
  prCloseRedis :: "'w redis_client \<Rightarrow> ('w, goerror option) state"
  prBroker :: "string \<Rightarrow> RetryPolicy \<Rightarrow> 'w reconnecting"
  prDeliveries :: "'w Connection"
  prNewClient :: "string \<Rightarrow> ('w, goerror + 'w grpc_conn) state"
  prListen :: "string \<Rightarrow> ('w, goerror option) state"

text \<open>How a \<open>main\<close> ends: it returns, a fatal log exits at once without running deferred calls, or
  the broker has not been reached in the given turns.\<close>

datatype exit = Returned | Fatal | Dialling

definition deferring :: "('w, unit) state \<Rightarrow> ('w, exit) state \<Rightarrow> ('w, exit) state" where
  "deferring cleanup m = do {
     e \<leftarrow> m;
     case e of Returned \<Rightarrow> do { cleanup; ret Returned } | Fatal \<Rightarrow> ret Fatal | Dialling \<Rightarrow> ret Dialling }"

definition ignoring :: "('w, goerror option) state \<Rightarrow> ('w, unit) state" where
  "ignoring m = do { err \<leftarrow> m; ret () }"

section \<open>The logger\<close>

text \<open>\<open>InitLogger\<close>: the level of \<open>LOG_LEVEL\<close> when it parses; zap's parser is a parameter that knows
  the names of the levels.\<close>

definition logger_level :: "(string \<Rightarrow> string option) \<Rightarrow> environ \<Rightarrow> string" where
  "logger_level ParseLevel env =
     (case ParseLevel (case env ''LOG_LEVEL'' of None \<Rightarrow> '''' | Some s \<Rightarrow> s) of None \<Rightarrow> ''info'' | Some l \<Rightarrow> l)"

definition InitLogger :: "(string \<Rightarrow> string option) \<Rightarrow> 'w process \<Rightarrow> ('w, unit) state" where
  "InitLogger ParseLevel p = do { env \<leftarrow> prEnviron p; prOpenLogger p (logger_level ParseLevel env) }"

section \<open>The database\<close>

definition createBatchSize :: int where "createBatchSize = 1000"

text \<open>\<open>db.Get()\<close>; \<open>None\<close> is a fatal log.\<close>

definition db_Get :: "'w process \<Rightarrow> ('w, 'w gorm_db option) state" where
  "db_Get p = do {
     inst \<leftarrow> onceGet (prDBCell p);
     case inst of
       Some orm \<Rightarrow> ret (Some orm)
     | None \<Rightarrow> do {
         env \<leftarrow> prEnviron p;
         case LoadDBDSN env of
           None \<Rightarrow> ret None
         | Some dsn \<Rightarrow> do {
             opened \<leftarrow> prOpenDB p dsn createBatchSize;
             (case opened of
                Inl err \<Rightarrow> ret None
              | Inr orm \<Rightarrow> do {
                  err \<leftarrow> prMigrate p orm;
                  (case err of
                     Some e \<Rightarrow> ret None
                   | None \<Rightarrow> do { onceSet (prDBCell p) orm; ret (Some orm) }) }) } } }"

definition db_Close :: "'w process \<Rightarrow> ('w, unit) state" where
  "db_Close p = do {
     inst \<leftarrow> onceGet (prDBCell p);
     case inst of
       None \<Rightarrow> ret ()
     | Some orm \<Rightarrow> do {
         sqlDB \<leftarrow> prSqlDB p orm;
         (case sqlDB of Inl err \<Rightarrow> ret () | Inr close \<Rightarrow> ignoring close) } }"

section \<open>Parts the mains share\<close>

text \<open>The logger, the environment and the signals.\<close>

definition starting :: "(string \<Rightarrow> string option) \<Rightarrow> 'w process \<Rightarrow> (environ \<Rightarrow> ('w, exit) state) \<Rightarrow> ('w, exit) state" where
  "starting ParseLevel p body = do {
     InitLogger ParseLevel p;
     deferring (prSync p) (do {
       env0 \<leftarrow> prEnviron p;
       err \<leftarrow> LoadEnv (prLoadFile p) (prNotExist p) env0;
       case err of
         Some e \<Rightarrow> ret Fatal
       | None \<Rightarrow> do {
           prNotify p;
           deferring (prStopNotify p) (do { env \<leftarrow> prEnviron p; body env }) } }) }"

definition with_redis :: "'w process \<Rightarrow> string \<Rightarrow> ('w redis_client \<Rightarrow> ('w, exit) state) \<Rightarrow> ('w, exit) state" where
  "with_redis p addr body = do {
     client \<leftarrow> GetClient (prNewRedis p) (prRedisCell p) addr;
     deferring (ignoring (prCloseRedis p client)) (body client) }"

definition with_broker :: "nat \<Rightarrow> 'w process \<Rightarrow> RabbitMQConfig \<Rightarrow> ('w Connection \<Rightarrow> ('w, exit) state) \<Rightarrow> ('w, exit) state" where
  "with_broker fuel p cfg body = do {
     dialled \<leftarrow> conn_Dial fuel (prBroker p (rmqURL cfg) (configured_policy cfg));
     case dialled of
       None \<Rightarrow> ret Dialling
     | Some conn \<Rightarrow> deferring (ignoring (conn_Close conn)) (body (connection_of (prDeliveries p) conn)) }"

definition with_db :: "'w process \<Rightarrow> ('w gorm_db \<Rightarrow> ('w, exit) state) \<Rightarrow> ('w, exit) state" where
  "with_db p body = do {
     orm \<leftarrow> db_Get p;
     case orm of None \<Rightarrow> ret Fatal | Some orm \<Rightarrow> deferring (db_Close p) (body orm) }"

text \<open>\<open>for range n { wg.Go(...) }\<close>\<close>

definition go_workers :: "'w process \<Rightarrow> int \<Rightarrow> 'w goroutine \<Rightarrow> ('w, unit) state" where
  "go_workers p n g = for_each [0 ..< nat n] (\<lambda>_. prGo p g)"

section \<open>The server\<close>

text \<open>From the goroutines to the end of \<open>main\<close>.\<close>

definition serving :: "'w process \<Rightarrow> ServerConfig \<Rightarrow> 'w server_parts \<Rightarrow> 'w http_server \<Rightarrow> ('w, unit) state" where
  "serving p cfg parts srv = do {
     prGo p (GoScanner (spScanner parts));
     prGo p (GoRelay (spRelay parts) (obPollInterval (scOutbox cfg)));
     prGo p (GoConsumer (spSagaConsumer parts));
     prGo p (GoReaper (spReaper parts));
     prGo p (GoHTTP srv);
     prDone p;
     err \<leftarrow> http_Stop (prShutdown p (5 * second)) srv;
     prSleep p (1 * second) }"

text \<open>The libraries that \<open>main\<close> does not open itself are \<open>L\<close>; gin, the Prometheus client and the
  metrics page are those of \<open>NewServer\<close>.\<close>

definition server_main ::
  "nat \<Rightarrow> (string \<Rightarrow> string option) \<Rightarrow> 'w process \<Rightarrow> 'w libraries \<Rightarrow> 'w gin \<Rightarrow> 'w prometheus
     \<Rightarrow> ('w, web_response) state \<Rightarrow> ('w, exit) state" where
  "server_main fuel ParseLevel p L gin prom exposition = starting ParseLevel p (\<lambda>env.
     case LoadServerConfig (prParseFloat p) env of
       None \<Rightarrow> ret Fatal
     | Some cfg \<Rightarrow> with_db p (\<lambda>orm. with_redis p (scRedis cfg) (\<lambda>redisClient. do {
         cacheTransport \<leftarrow> github_transport (L\<lparr>libRedis := redisClient\<rparr>) (scGitHub cfg);
         with_broker fuel p (scRabbitMQ cfg) (\<lambda>rmqConn. do {
           let parts = wire_server (L\<lparr>libRedis := redisClient, libGorm := orm, libConn := rmqConn,
             libInc := handler_inc prom\<rparr>) cfg cacheTransport;
           serving p cfg parts (NewServer gin prom (libNow L) exposition fuel '':8080'' (spHandler parts));
           ret Returned }) })))"

section \<open>The notifier\<close>

definition with_publisher ::
  "'w process \<Rightarrow> NotifierConfig \<Rightarrow> 'w Broker \<Rightarrow> ('w CommandPublisher \<Rightarrow> ('w, exit) state) \<Rightarrow> ('w, exit) state" where
  "with_publisher p cfg publish body = do {
     built \<leftarrow> newCommandPublisher (prNewClient p) cfg publish;
     case built of
       Inl err \<Rightarrow> ret Fatal
     | Inr (publisher, closePublisher) \<Rightarrow> deferring (ignoring closePublisher) (body publisher) }"

text \<open>The workers are started, and on the signal waited for.\<close>

definition consuming :: "'w process \<Rightarrow> int \<Rightarrow> 'w Consumer \<Rightarrow> ('w, unit) state" where
  "consuming p n consumer = do { go_workers p n (GoConsumer consumer); prDone p; prWait p }"

definition notifier_main :: "nat \<Rightarrow> (string \<Rightarrow> string option) \<Rightarrow> 'w process \<Rightarrow> 'w libraries \<Rightarrow> ('w, exit) state" where
  "notifier_main fuel ParseLevel p L = starting ParseLevel p (\<lambda>env. do {
     let cfg = LoadNotifierConfig env;
     with_redis p (ncRedis cfg) (\<lambda>redisClient.
       with_broker fuel p (ncRabbitMQ cfg) (\<lambda>conn. do {
         let L' = L\<lparr>libRedis := redisClient, libConn := conn\<rparr>;
         with_publisher p cfg (rabbit_publisher L') (\<lambda>publisher. do {
           consuming p (ncWorkers cfg) (wire_notifier L' cfg publisher);
           ret Returned }) })) })"

section \<open>The mailer\<close>

text \<open>The gRPC server, when it is enabled, with its two goroutines; \<open>True\<close> when it listens or is not
  wanted.\<close>

definition go_grpc :: "'w process \<Rightarrow> MailerConfig \<Rightarrow> (string \<Rightarrow> string \<Rightarrow> ('w, unit) state) \<Rightarrow> 'w Mailer
    \<Rightarrow> ('w, unit) state \<Rightarrow> ('w, exit) state" where
  "go_grpc p cfg observe mlr rest =
     (if GRPCEnabled cfg then do {
        listening \<leftarrow> newGRPCServer (prListen p) observe (GRPCAddr cfg) (mailer_Deliver mlr);
        case listening of
          Inl listenErr \<Rightarrow> ret Fatal
        | Inr s \<Rightarrow> do { prGo p (GoServe s); prGo p (GoGracefulStop s); rest; ret Returned } }
      else do { rest; ret Returned })"

definition mailer_main ::
  "nat \<Rightarrow> (string \<Rightarrow> string option) \<Rightarrow> 'w process \<Rightarrow> 'w mail_library \<Rightarrow> (int64 \<Rightarrow> ('w, goerror option) state)
     \<Rightarrow> (json \<Rightarrow> string) \<Rightarrow> (string \<Rightarrow> string \<Rightarrow> ('w, unit) state) \<Rightarrow> 'w libraries \<Rightarrow> ('w, exit) state" where
  "mailer_main fuel ParseLevel p mail wait format observe L = starting ParseLevel p (\<lambda>env.
     case LoadMailerConfig env of
       None \<Rightarrow> ret Fatal
     | Some cfg \<Rightarrow> with_broker fuel p (mcRabbitMQ cfg) (\<lambda>conn. do {
         let (mlr, consumer) = wire_mailer mail wait observe format (L\<lparr>libConn := conn\<rparr>) cfg;
         go_grpc p cfg observe mlr (consuming p (mcWorkers cfg) consumer) }))"

section \<open>What is assumed of the process\<close>

datatype resource = Signals | Database | RedisPool | BrokerConn | MailerConn

text \<open>What is open, how many goroutines were started, and which singletons and connections are set.\<close>

record machine =
  held :: "resource multiset"
  started :: nat
  dbSet :: bool
  redisSet :: bool
  brokerSet :: bool

definition opens :: "('w \<Rightarrow> machine) \<Rightarrow> resource \<Rightarrow> ('a \<Rightarrow> bool) \<Rightarrow> ('w, 'a) state \<Rightarrow> bool" where
  "opens view x good m \<longleftrightarrow> (\<forall>w r w'. run m w = (r, w')
     \<longrightarrow> view w' = (if good r then held_update (add_mset x) (view w) else view w))"

definition closes :: "('w \<Rightarrow> machine) \<Rightarrow> resource \<Rightarrow> ('w, 'a) state \<Rightarrow> bool" where
  "closes view x m \<longleftrightarrow> (\<forall>w r w'. run m w = (r, w') \<longrightarrow> view w' = held_update (\<lambda>h. h - {#x#}) (view w))"

definition channel_keeps :: "('w \<Rightarrow> machine) \<Rightarrow> 'w channel \<Rightarrow> bool" where
  "channel_keeps view ch \<longleftrightarrow> keeps view (chClose ch)
     \<and> (\<forall>a b c d e f g. keeps view (ExchangeDeclare (declaring ch) a b c d e f g))
     \<and> (\<forall>a b c d e f. keeps view (QueueDeclare (declaring ch) a b c d e f))
     \<and> (\<forall>a b c d e. keeps view (QueueBind (declaring ch) a b c d e))"

definition conn_ok :: "('w \<Rightarrow> machine) \<Rightarrow> 'w amqp_conn \<Rightarrow> bool" where
  "conn_ok view conn \<longleftrightarrow> closes view BrokerConn (connClose conn)
     \<and> (\<forall>w r w'. run (connChannel conn) w = (r, w') \<longrightarrow> view w' = view w \<and> (\<forall>ch. r = Inr ch \<longrightarrow> channel_keeps view ch))"

text \<open>Opening and release do what they say, a singleton is what it was set to, and nothing else opens
  or closes anything: not the goroutines either, while the process waits for its signal.\<close>

locale quiet_process =
  fixes p :: "'w process" and L :: "'w libraries" and view :: "'w \<Rightarrow> machine"
  assumes logger: "\<And>l. keeps view (prOpenLogger p l)" "keeps view (prSync p)"
    and env: "\<And>f. keeps view (prLoadFile p f)" "keeps view (prEnviron p)"
    and waiting: "keeps view (prDone p)" "keeps view (prWait p)" "\<And>d. keeps view (prSleep p d)"
      "\<And>t s. keeps view (prShutdown p t s)"
    and listen: "\<And>a. keeps view (prListen p a)" and migrate: "\<And>G. keeps view (prMigrate p G)"
    and library: "keeps view (libNow L)" "\<And>l. keeps view (writeLimits (libLimits L) l)"
    and notify: "opens view Signals (\<lambda>_. True) (prNotify p)" and stop_notify: "closes view Signals (prStopNotify p)"
    and go: "\<And>g w u w'. run (prGo p g) w = (u, w') \<Longrightarrow> view w' = started_update Suc (view w)"
    and open_db: "\<And>d n. opens view Database (\<lambda>r. \<not> isl r) (prOpenDB p d n)"
    and sql_db: "\<And>G w r w'. run (prSqlDB p G) w = (r, w') \<Longrightarrow> view w' = view w \<and> (\<exists>c. r = Inr c \<and> closes view Database c)"
    and db_get: "\<And>w r w'. run (onceGet (prDBCell p)) w = (r, w') \<Longrightarrow> view w' = view w \<and> (r \<noteq> None \<longleftrightarrow> dbSet (view w))"
    and db_set: "\<And>G w r w'. run (onceSet (prDBCell p) G) w = (r, w') \<Longrightarrow> view w' = (view w)\<lparr>dbSet := True\<rparr>"
    and new_redis: "\<And>a. opens view RedisPool (\<lambda>_. True) (prNewRedis p a)"
    and close_redis: "\<And>c. closes view RedisPool (prCloseRedis p c)"
    and redis_get: "\<And>w r w'. run (onceGet (prRedisCell p)) w = (r, w') \<Longrightarrow> view w' = view w \<and> (r \<noteq> None \<longleftrightarrow> redisSet (view w))"
    and redis_set: "\<And>c w r w'. run (onceSet (prRedisCell p) c) w = (r, w') \<Longrightarrow> view w' = (view w)\<lparr>redisSet := True\<rparr>"
    and dialling: "\<And>url pol w r w'. run (dial (prBroker p url pol)) w = (r, w') \<Longrightarrow>
      (case r of Inl _ \<Rightarrow> view w' = view w | Inr conn \<Rightarrow> view w' = held_update (add_mset BrokerConn) (view w) \<and> conn_ok view conn)"
    and redialling: "\<And>url pol d. keeps view (sleep (prBroker p url pol) d)"
    and set_conn: "\<And>url pol conn w r w'. run (setConn (prBroker p url pol) conn) w = (r, w') \<Longrightarrow>
      view w' = (view w)\<lparr>brokerSet := True\<rparr>"
    and get_conn: "\<And>url pol w r w'. run (getConn (prBroker p url pol)) w = (r, w') \<Longrightarrow>
      view w' = view w \<and> (brokerSet (view w) \<longrightarrow> (\<exists>conn. r = Some conn \<and> conn_ok view conn))"
    and new_client: "\<And>a w r w'. run (prNewClient p a) w = (r, w') \<Longrightarrow>
      (case r of Inl _ \<Rightarrow> view w' = view w
       | Inr c \<Rightarrow> view w' = held_update (add_mset MailerConn) (view w) \<and> closes view MailerConn (grpcClose c))"

section \<open>An orderly end leaves nothing open\<close>

text \<open>\<open>orderly v r u\<close>: after a return nothing more is open than before, and after a fatal log no
  goroutine was started; singletons stay set.\<close>

definition orderly :: "machine \<Rightarrow> exit \<Rightarrow> machine \<Rightarrow> bool" where
  "orderly v r u \<longleftrightarrow> (r = Returned \<longrightarrow> held u = held v \<and> (dbSet v \<longrightarrow> dbSet u) \<and> (redisSet v \<longrightarrow> redisSet u)
      \<and> (brokerSet v \<longrightarrow> brokerSet u))
     \<and> (r = Fatal \<longrightarrow> started u = started v)"

lemma orderly_exits [simp]: "orderly v Fatal v" "orderly v Dialling u"
  by (simp_all add: orderly_def)

context quiet_process begin

lemma quiet_bind:
  assumes "keeps view m" and "\<And>x. spec view v (f x) Q"
  shows "spec view v (State_Monad.bind m f) Q"
  by (rule spec_bind[OF keeps_spec[OF assms(1)]]) (simp add: assms(2))

text \<open>A part that has opened \<open>x\<close> and closes it in a deferred call.\<close>

lemma deferring_orderly:
  assumes body: "spec view u body (orderly u)" and u: "held u = add_mset x (held v)" "started u = started v"
      "dbSet v \<longrightarrow> dbSet u" "redisSet v \<longrightarrow> redisSet u" "brokerSet v \<longrightarrow> brokerSet u"
    and cleanup: "\<And>t. held t = held u \<Longrightarrow> (dbSet u \<longrightarrow> dbSet t) \<Longrightarrow> (brokerSet u \<longrightarrow> brokerSet t) \<Longrightarrow>
      spec view t cleanup (\<lambda>_ t'. t' = held_update (\<lambda>h. h - {#x#}) t)"
  shows "spec view u (deferring cleanup body) (orderly v)"
  unfolding deferring_def
proof (rule spec_bind[OF body])
  fix e t
  assume t: "orderly u e t"
  show "spec view t (case e of Returned \<Rightarrow> do { cleanup; ret Returned } | Fatal \<Rightarrow> ret Fatal | Dialling \<Rightarrow> ret Dialling) (orderly v)"
  proof (cases e)
    case Returned
    have "spec view t cleanup (\<lambda>_ t'. t' = held_update (\<lambda>h. h - {#x#}) t)"
      by (rule cleanup) (use t Returned in \<open>auto simp: orderly_def\<close>)
    then show ?thesis
      using t u Returned by (auto intro!: spec_bind spec_ret simp: orderly_def)
  qed (use t u in \<open>auto intro!: spec_ret simp: orderly_def\<close>)
qed

lemma ignoring_closes: "closes view x m \<Longrightarrow> spec view t (ignoring m) (\<lambda>_ t'. t' = held_update (\<lambda>h. h - {#x#}) t)"
  by (auto simp: ignoring_def closes_def spec_def split: prod.splits)

lemma closes_spec: "closes view x m \<Longrightarrow> spec view t m (\<lambda>_ t'. t' = held_update (\<lambda>h. h - {#x#}) t)"
  by (auto simp: closes_def spec_def)

end

context quiet_process begin

lemma db_Get_spec:
  assumes "\<not> dbSet v"
  shows "spec view v (db_Get p) (\<lambda>r u. case r of None \<Rightarrow> started u = started v
    | Some G \<Rightarrow> u = v\<lparr>held := add_mset Database (held v), dbSet := True\<rparr>)"
proof (rule specI)
  fix w r w'
  assume v: "view w = v" and run: "run (db_Get p) w = (r, w')"
  obtain i w1 where 1: "run (onceGet (prDBCell p)) w = (i, w1)" by (rule prod.exhaust)
  obtain e w2 where 2: "run (prEnviron p) w1 = (e, w2)" by (rule prod.exhaust)
  have v2: "i = None" "view w2 = v" using db_get[OF 1] keepsD[OF env(2) 2] v assms by auto
  show "case r of None \<Rightarrow> started (view w') = started v
    | Some G \<Rightarrow> view w' = v\<lparr>held := add_mset Database (held v), dbSet := True\<rparr>"
  proof (cases "LoadDBDSN e")
    case None
    then show ?thesis using run 1 2 v2 by (auto simp: db_Get_def)
  next
    case (Some dsn)
    obtain o3 w3 where 3: "run (prOpenDB p dsn createBatchSize) w2 = (o3, w3)" by (rule prod.exhaust)
    note v3 = open_db[unfolded opens_def, rule_format, OF 3]
    show ?thesis
    proof (cases o3)
      case (Inl err)
      then show ?thesis using run 1 2 v2 Some 3 v3 by (auto simp: db_Get_def)
    next
      case (Inr G)
      obtain m w4 where 4: "run (prMigrate p G) w3 = (m, w4)" by (rule prod.exhaust)
      obtain u w5 where 5: "run (onceSet (prDBCell p) G) w4 = (u, w5)" by (rule prod.exhaust)
      show ?thesis
        using run 1 2 v2 Some 3 v3 Inr 4 keepsD[OF migrate 4] 5 db_set[OF 5] by (cases m) (auto simp: db_Get_def)
    qed
  qed
qed

lemma db_Close_spec:
  assumes "dbSet v"
  shows "spec view v (db_Close p) (\<lambda>_ u. u = held_update (\<lambda>h. h - {#Database#}) v)"
proof (rule specI)
  fix w r w'
  assume v: "view w = v" and run: "run (db_Close p) w = (r, w')"
  obtain i w1 where 1: "run (onceGet (prDBCell p)) w = (i, w1)" by (rule prod.exhaust)
  obtain G where G: "i = Some G" using db_get[OF 1] v assms by auto
  obtain s w2 where 2: "run (prSqlDB p G) w1 = (s, w2)" by (rule prod.exhaust)
  obtain c where c: "s = Inr c" "closes view Database c" using sql_db[OF 2] by blast
  obtain e w3 where 3: "run c w2 = (e, w3)" by (rule prod.exhaust)
  show "view w' = held_update (\<lambda>h. h - {#Database#}) v"
    using run 1 db_get[OF 1] G 2 sql_db[OF 2] c(1) 3 c(2)[unfolded closes_def, rule_format, OF 3] v
    by (auto simp: db_Close_def ignoring_def)
qed

lemma with_redis_spec:
  assumes "\<not> redisSet v"
    and "\<And>c. spec view (v\<lparr>held := add_mset RedisPool (held v), redisSet := True\<rparr>) (body c)
      (orderly (v\<lparr>held := add_mset RedisPool (held v), redisSet := True\<rparr>))"
  shows "spec view v (with_redis p addr body) (orderly v)"
proof -
  let ?u = "v\<lparr>held := add_mset RedisPool (held v), redisSet := True\<rparr>"
  have get: "spec view v (GetClient (prNewRedis p) (prRedisCell p) addr) (\<lambda>c u. u = ?u)"
    using assms(1) unfolding spec_def GetClient_def
    by (fastforce split: prod.splits option.splits dest: redis_get redis_set new_redis[unfolded opens_def, rule_format])
  show ?thesis
    unfolding with_redis_def
  proof (rule spec_bind[OF get])
    fix c u
    assume u: "u = ?u"
    show "spec view u (deferring (ignoring (prCloseRedis p c)) (body c)) (orderly v)"
      unfolding u by (rule deferring_orderly[OF assms(2)]) (auto intro: ignoring_closes close_redis)
  qed
qed

lemma try_connect_run:
  assumes "run (try_connect (prBroker p url pol)) w = (ok, w')"
  shows "view w' = (if ok then (view w)\<lparr>held := add_mset BrokerConn (held (view w)), brokerSet := True\<rparr> else view w)"
proof -
  obtain d w1 where 1: "run (dial (prBroker p url pol)) w = (d, w1)" by (rule prod.exhaust)
  note v1 = dialling[OF 1]
  show ?thesis
  proof (cases d)
    case (Inl err)
    then show ?thesis using assms 1 v1 by (auto simp: try_connect_def)
  next
    case (Inr conn)
    have ok: "closes view BrokerConn (connClose conn)"
      and chan: "\<And>w r w'. run (connChannel conn) w = (r, w') \<Longrightarrow> view w' = view w \<and> (\<forall>ch. r = Inr ch \<longrightarrow> channel_keeps view ch)"
      using v1 Inr by (auto simp: conn_ok_def)
    have shut: "run (connClose conn) x = (e, y) \<Longrightarrow> view y = held_update (\<lambda>h. h - {#BrokerConn#}) (view x)" for x e y
      using ok by (auto simp: closes_def)
    obtain o2 w2 where 2: "run (connChannel conn) w1 = (o2, w2)" by (rule prod.exhaust)
    note v2 = chan[OF 2]
    show ?thesis
    proof (cases o2)
      case (Inl err)
      then show ?thesis using assms 1 v1 Inr 2 v2 by (auto simp: try_connect_def split: prod.splits dest!: shut)
    next
      case ch: (Inr ch)
      have keeps: "keeps view (declareTopology (declaring ch) (retryPolicy (prBroker p url pol)))" "keeps view (chClose ch)"
        using v2 ch by (auto simp: channel_keeps_def declareTopology_def declareEndpoint_def Let_def
            intro!: keeps_and_then keeps_for_err keeps_wrapping)
      obtain e w3 where 3: "run (declareTopology (declaring ch) (retryPolicy (prBroker p url pol))) w2 = (e, w3)" by (rule prod.exhaust)
      obtain ce w4 where 4: "run (chClose ch) w3 = (ce, w4)" by (rule prod.exhaust)
      note v4 = keepsD[OF keeps(1) 3] keepsD[OF keeps(2) 4]
      show ?thesis
        using assms 1 v1 Inr 2 v2 ch 3 4 v4
        by (cases e) (auto simp: try_connect_def split: prod.splits dest!: shut set_conn)
    qed
  qed
qed

lemma connect_loop_run:
  "run (connect_loop n (prBroker p url pol) b) w = (r, w') \<Longrightarrow>
     view w' = (if r = None then view w else (view w)\<lparr>held := add_mset BrokerConn (held (view w)), brokerSet := True\<rparr>)"
proof (induction n arbitrary: b w)
  case (Suc n)
  obtain ok w1 where 1: "run (try_connect (prBroker p url pol)) w = (ok, w1)" by (rule prod.exhaust)
  show ?case
  proof (cases ok)
    case True
    then show ?thesis using Suc.prems 1 try_connect_run[OF 1] by auto
  next
    case False
    obtain u w2 where 2: "run (sleep (prBroker p url pol) b) w1 = (u, w2)" by (rule prod.exhaust)
    have "run (connect_loop n (prBroker p url pol) (next_backoff b)) w2 = (r, w')" using Suc.prems 1 False 2 by simp
    from Suc.IH[OF this] show ?thesis using keepsD[OF redialling 2] try_connect_run[OF 1] False by simp
  qed
qed simp

lemma with_broker_spec:
  assumes "\<And>c. spec view (v\<lparr>held := add_mset BrokerConn (held v), brokerSet := True\<rparr>) (body c)
      (orderly (v\<lparr>held := add_mset BrokerConn (held v), brokerSet := True\<rparr>))"
  shows "spec view v (with_broker fuel p cfg body) (orderly v)"
proof -
  let ?c = "prBroker p (rmqURL cfg) (configured_policy cfg)"
  let ?u = "v\<lparr>held := add_mset BrokerConn (held v), brokerSet := True\<rparr>"
  have dial: "spec view v (conn_Dial fuel ?c) (\<lambda>r u. case r of None \<Rightarrow> True | Some c \<Rightarrow> c = ?c \<and> u = ?u)"
    by (rule specI) (auto simp: conn_Dial_def connect_def split: prod.splits option.splits dest!: connect_loop_run)
  have shut: "spec view t (ignoring (conn_Close ?c)) (\<lambda>_ t'. t' = held_update (\<lambda>h. h - {#BrokerConn#}) t)" if "brokerSet t" for t
    using that unfolding spec_def
    by (fastforce simp: ignoring_def conn_Close_def conn_ok_def closes_def split: prod.splits option.splits dest: get_conn)
  show ?thesis
    unfolding with_broker_def
  proof (rule spec_bind[OF dial])
    fix r u
    assume r: "case r of None \<Rightarrow> True | Some c \<Rightarrow> c = ?c \<and> u = ?u"
    show "spec view u (case r of None \<Rightarrow> ret Dialling
      | Some conn \<Rightarrow> deferring (ignoring (conn_Close conn)) (body (connection_of (prDeliveries p) conn))) (orderly v)"
    proof (cases r)
      case None
      then show ?thesis by (auto intro!: spec_ret)
    next
      case (Some c)
      then have "c = ?c" "u = ?u" using r by auto
      then show ?thesis
        using Some by (auto intro!: deferring_orderly[OF assms] shut)
    qed
  qed
qed

lemma starting_spec:
  assumes "\<And>e. spec view (held_update (add_mset Signals) v) (body e) (orderly (held_update (add_mset Signals) v))"
  shows "spec view v (starting ParseLevel p body) (orderly v)"
proof -
  let ?u = "held_update (add_mset Signals) v"
  have load: "keeps view (LoadEnv (prLoadFile p) (prNotExist p) e)" for e
    unfolding LoadEnv_def Let_def by (auto intro!: keeps_bind env split: option.splits)
  have init: "keeps view (InitLogger ParseLevel p)"
    unfolding InitLogger_def by (intro keeps_bind env logger)
  have signals: "spec view v (prNotify p) (\<lambda>_ u. u = ?u)"
    using notify by (auto simp: opens_def spec_def)
  have stop: "spec view t (prStopNotify p) (\<lambda>_ t'. t' = held_update (\<lambda>h. h - {#Signals#}) t)" for t
    by (rule closes_spec[OF stop_notify])
  have inner: "spec view ?u (deferring (prStopNotify p) (do { e \<leftarrow> prEnviron p; body e })) (orderly v)"
    by (rule deferring_orderly[OF quiet_bind[OF env(2) assms]]) (auto intro: stop)
  have all: "spec view v (do {
      env0 \<leftarrow> prEnviron p;
      err \<leftarrow> LoadEnv (prLoadFile p) (prNotExist p) env0;
      case err of Some e \<Rightarrow> ret Fatal
      | None \<Rightarrow> do { prNotify p; deferring (prStopNotify p) (do { e \<leftarrow> prEnviron p; body e }) } }) (orderly v)"
    by (auto intro!: quiet_bind[OF env(2)] quiet_bind[OF load] spec_bind[OF signals] spec_ret inner split: option.splits)
  have sync: "spec view v (deferring (prSync p) m) (orderly v)" if "spec view v m (orderly v)" for m
    unfolding deferring_def
    by (rule spec_bind[OF that]) (auto intro!: spec_ret spec_bind[OF keeps_spec[OF logger(2)]] split: exit.splits)
  show ?thesis unfolding starting_def by (intro quiet_bind[OF init] sync all)
qed

end

context quiet_process begin

lemma with_db_spec:
  assumes "\<not> dbSet v"
    and "\<And>G. spec view (v\<lparr>held := add_mset Database (held v), dbSet := True\<rparr>) (body G)
      (orderly (v\<lparr>held := add_mset Database (held v), dbSet := True\<rparr>))"
  shows "spec view v (with_db p body) (orderly v)"
  unfolding with_db_def
proof (rule spec_bind[OF db_Get_spec[OF assms(1)]])
  let ?u = "v\<lparr>held := add_mset Database (held v), dbSet := True\<rparr>"
  fix r :: "'w gorm_db option" and u
  assume r: "case r of None \<Rightarrow> started u = started v | Some G \<Rightarrow> u = ?u"
  show "spec view u (case r of None \<Rightarrow> ret Fatal | Some orm \<Rightarrow> deferring (db_Close p) (body orm)) (orderly v)"
  proof (cases r)
    case None
    then show ?thesis using r by (auto intro!: spec_ret simp: orderly_def)
  next
    case (Some orm)
    then have u: "u = ?u" using r by simp
    show ?thesis
      unfolding Some option.case u by (rule deferring_orderly[OF assms(2)]) (auto intro!: db_Close_spec)
  qed
qed

text \<open>What is left when everything is open: goroutines are started, and the process waits.\<close>

definition working :: "('w, 'a) state \<Rightarrow> bool" where
  "working m \<longleftrightarrow> keeps (\<lambda>w. (held (view w), dbSet (view w), redisSet (view w), brokerSet (view w))) m"

lemma working_keeps: "keeps view m \<Longrightarrow> working m"
  by (auto simp: working_def keeps_def)

lemma working_go: "working (prGo p g)"
  using go by (auto simp: working_def keeps_def)

lemma working_bind: "working m \<Longrightarrow> (\<And>x. working (f x)) \<Longrightarrow> working (State_Monad.bind m f)"
  by (simp add: working_def keeps_bind)

lemma working_workers: "working (go_workers p n g)"
  using working_go by (simp add: go_workers_def working_def keeps_for_each)

lemma working_returns: "working m \<Longrightarrow> spec view v (do { x \<leftarrow> m; ret Returned }) (orderly v)"
  by (auto simp: working_def keeps_def orderly_def spec_def split: prod.splits)

lemmas working_rules = working_bind working_go working_workers working_keeps waiting

lemma working_serving: "working (serving p cfg parts srv)"
  unfolding serving_def http_Stop_def by (intro working_rules)

lemma transport_keeps: "keeps view (github_transport (L\<lparr>libRedis := c\<rparr>) cfg)"
  unfolding github_transport_def NewRateLimitTransport_def Let_def
  by (auto intro!: keeps_bind library)

lemma server_orderly:
  assumes "\<not> dbSet v" and "\<not> redisSet v"
  shows "spec view v (server_main fuel ParseLevel p L gin prom exposition) (orderly v)"
  unfolding server_main_def
proof (rule starting_spec)
  fix e
  show "spec view (held_update (add_mset Signals) v) (case LoadServerConfig (prParseFloat p) e of
       None \<Rightarrow> ret Fatal
     | Some cfg \<Rightarrow> with_db p (\<lambda>orm. with_redis p (scRedis cfg) (\<lambda>redisClient. do {
         cacheTransport \<leftarrow> github_transport (L\<lparr>libRedis := redisClient\<rparr>) (scGitHub cfg);
         with_broker fuel p (scRabbitMQ cfg) (\<lambda>rmqConn. do {
           let parts = wire_server (L\<lparr>libRedis := redisClient, libGorm := orm, libConn := rmqConn,
             libInc := handler_inc prom\<rparr>) cfg cacheTransport;
           serving p cfg parts (NewServer gin prom (libNow L) exposition fuel '':8080'' (spHandler parts));
           ret Returned }) }))) (orderly (held_update (add_mset Signals) v))"
  proof (cases "LoadServerConfig (prParseFloat p) e")
    case None
    then show ?thesis by (auto intro!: spec_ret)
  next
    case (Some cfg)
    show ?thesis
      unfolding Some option.case Let_def
      by (intro with_db_spec with_redis_spec quiet_bind[OF transport_keeps] with_broker_spec working_returns working_serving)
         (use assms in simp_all)
  qed
qed

lemma working_consuming: "working (consuming p n c)"
  unfolding consuming_def by (intro working_rules)

lemma with_publisher_spec:
  assumes "\<And>u pub. spec view u (body pub) (orderly u)"
  shows "spec view v (with_publisher p cfg B body) (orderly v)"
proof -
  let ?u = "held_update (add_mset MailerConn) v"
  have built: "spec view v (newCommandPublisher (prNewClient p) cfg B) (\<lambda>r t. case r of
      Inl _ \<Rightarrow> t = v
    | Inr (pub, close) \<Rightarrow> t = ?u \<and> closes view MailerConn close \<or> t = v \<and> close = ret None)"
    by (rule specI)
       (auto simp: newCommandPublisher_def grpc_Dial_def grpc_Close_def split: prod.splits sum.splits if_splits dest!: new_client)
  show ?thesis
    unfolding with_publisher_def
  proof (rule spec_bind[OF built])
    fix r :: "goerror + 'w CommandPublisher \<times> ('w, goerror option) state" and t
    assume r: "case r of Inl _ \<Rightarrow> t = v
      | Inr (pub, close) \<Rightarrow> t = ?u \<and> closes view MailerConn close \<or> t = v \<and> close = ret None"
    consider e where "r = Inl e" "t = v" | pub close where "r = Inr (pub, close)" "t = ?u" "closes view MailerConn close"
      | pub where "r = Inr (pub, ret None)" "t = v"
      using r by (cases r) auto
    then show "spec view t (case r of Inl err \<Rightarrow> ret Fatal
      | Inr (publisher, closePublisher) \<Rightarrow> deferring (ignoring closePublisher) (body publisher)) (orderly v)"
    proof cases
      case 1
      then show ?thesis by (auto intro!: spec_ret)
    next
      case 2
      then show ?thesis by (auto intro!: deferring_orderly[OF assms] ignoring_closes)
    next
      case 3
      have "spec view v (deferring (ret ()) (body pub)) (orderly v)" for pub
        unfolding deferring_def by (rule spec_bind[OF assms]) (auto intro!: spec_ret split: exit.splits)
      then show ?thesis using 3 by (simp add: ignoring_def)
    qed
  qed
qed

lemma notifier_orderly:
  assumes "\<not> redisSet v"
  shows "spec view v (notifier_main fuel ParseLevel p L) (orderly v)"
  unfolding notifier_main_def Let_def
  by (intro starting_spec with_redis_spec with_broker_spec with_publisher_spec working_returns working_consuming)
     (use assms in simp_all)

lemma mailer_orderly: "spec view v (mailer_main fuel ParseLevel p mail wait format observe L) (orderly v)"
proof -
  have grpc: "spec view u (go_grpc p cfg observe mlr rest) (orderly u)" if "working rest" for u cfg mlr rest
  proof -
    have go_both: "spec view x (do { prGo p g; prGo p g'; rest; ret Returned }) (orderly x)" for x g g'
      using working_returns[of "do { prGo p g; prGo p g'; rest }" x] that by (simp add: working_rules)
    have "keeps view (newGRPCServer (prListen p) observe a d)" for a d
      unfolding newGRPCServer_def by (intro keeps_bind listen keeps_ret)
    then show ?thesis
      unfolding go_grpc_def
      by (auto intro!: quiet_bind working_returns[OF that] go_both spec_ret split: sum.splits)
  qed
  show ?thesis
    unfolding mailer_main_def
    by (rule starting_spec) (auto intro!: spec_ret with_broker_spec grpc working_consuming split: option.splits prod.splits)
qed

end

section \<open>Every main ends in order\<close>


section \<open>A notifier that starts and stops\<close>

definition offline_table :: "('w, 'r) gtable" where
  "offline_table =
     \<lparr>gFind = \<lambda>_. ret (Inl (Err ''offline'')), gFirst = \<lambda>_. ret (Inl (Err ''offline'')),
      gFindByID = \<lambda>_. ret (Inl (Err ''offline'')), gCount = \<lambda>_. ret (Inl (Err ''offline'')),
      gUpdates = \<lambda>_ _. ret (Inl (Err ''offline'')), gDelete = \<lambda>_. ret (Some (Err ''offline'')),
      gCreate = \<lambda>_. ret (Inl (Err ''offline'')), gCreateAll = \<lambda>_. ret (Inl (Err ''offline'')),
      gSave = \<lambda>_. ret (Some (Err ''offline'')), gPluckUnlocked = \<lambda>_ _ _. ret (Inl (Err ''offline''))\<rparr>"

definition offline_gorm :: "'w gorm_db" where
  "offline_gorm =
     \<lparr>Repositories = offline_table, Subscriptions = offline_table, Sagas = offline_table, Rows = offline_table,
      Transaction = \<lambda>_. ret (Some (Err ''offline'')), TransactionIDs = \<lambda>_. ret (Inl (Err ''offline''))\<rparr>"

definition idle_channel :: "'w channel" where
  "idle_channel =
     \<lparr>declaring = \<lparr>ExchangeDeclare = \<lambda>_ _ _ _ _ _ _. ret None, QueueDeclare = \<lambda>_ _ _ _ _ _. ret None,
        QueueBind = \<lambda>_ _ _ _ _. ret None\<rparr>,
      chConfirm = ret None, chPublish = \<lambda>_ _ _. ret None, awaitConfirm = ret (Confirmation True),
      chQos = \<lambda>_ _ _. ret None, chConsume = \<lambda>_ _ _ _ _ _ _. ret None, chRecv = ret RecvClosed, chClose = ret None\<rparr>"

definition idle_redis :: "'w redis_client" where
  "idle_redis = \<lparr>redisSetNX = \<lambda>_ _ _. ret None, redisDel = \<lambda>_. ret None, redisGet = \<lambda>_. ret (Inl RedisNil),
     redisSet = \<lambda>_ _ _. ret None\<rparr>"

definition idle_deliveries :: "'w Connection" where
  "idle_deliveries = \<lparr>Channel = ret (Inl (Err ''rabbitmq: not connected'')), dAck = \<lambda>_ _. ret None, dNack = \<lambda>_ _ _. ret None\<rparr>"

definition idle_libraries :: "'w libraries" where
  "idle_libraries =
     \<lparr>libNow = ret 0, libRedis = idle_redis, libTransport = \<lambda>_. ret (Inl (Err ''offline'')), libHttpClient = \<lambda>t _. t,
      libNewRequest = \<lambda>_. None, libParseDate = \<lambda>_. None, libReadAll = \<lambda>res. ret (Inr (resBody res)),
      libLimits = \<lparr>readLimits = ret zero_limits, writeLimits = \<lambda>_. ret ()\<rparr>, libGorm = offline_gorm,
      libServices = \<lparr>NewString = ret ''id'', NowUTC = ret ''2026-01-31T23:59:59Z''\<rparr>, libRand = ret (Inl EOF),
      libInc = \<lambda>_. ret (), libBucket = \<lparr>limSetLimit = \<lambda>_. ret (), limLimit = ret 0, limWait = ret None\<rparr>,
      libConn = idle_deliveries\<rparr>"

definition acquire :: "resource \<Rightarrow> 'a \<Rightarrow> (machine, 'a) state" where
  "acquire x r = State (\<lambda>w. (r, held_update (add_mset x) w))"

definition release :: "resource \<Rightarrow> 'a \<Rightarrow> (machine, 'a) state" where
  "release x r = State (\<lambda>w. (r, held_update (\<lambda>h. h - {#x#}) w))"

definition idle_conn :: "machine amqp_conn" where
  "idle_conn = \<lparr>connChannel = ret (Inr idle_channel), connClose = release BrokerConn None, connClosed = ret None\<rparr>"

definition idle_process :: "machine process" where
  "idle_process =
     \<lparr>prOpenLogger = \<lambda>_. ret (), prSync = ret (), prLoadFile = \<lambda>_. ret None, prNotExist = \<lambda>_. False,
      prEnviron = ret Map.empty, prParseFloat = \<lambda>_. None,
      prNotify = acquire Signals (), prStopNotify = release Signals (),
      prGo = \<lambda>_. State (\<lambda>w. ((), started_update Suc w)), prDone = ret (), prWait = ret (), prSleep = \<lambda>_. ret (),
      prShutdown = \<lambda>_ _. ret None,
      prOpenDB = \<lambda>_ _. acquire Database (Inr offline_gorm), prMigrate = \<lambda>_. ret None,
      prSqlDB = \<lambda>_. ret (Inr (release Database None)),
      prDBCell = \<lparr>onceGet = State (\<lambda>w. (if dbSet w then Some offline_gorm else None, w)),
        onceSet = \<lambda>_. State (\<lambda>w. ((), w\<lparr>dbSet := True\<rparr>))\<rparr>,
      prNewRedis = \<lambda>_. acquire RedisPool idle_redis,
      prRedisCell = \<lparr>onceGet = State (\<lambda>w. (if redisSet w then Some idle_redis else None, w)),
        onceSet = \<lambda>_. State (\<lambda>w. ((), w\<lparr>redisSet := True\<rparr>))\<rparr>,
      prCloseRedis = \<lambda>_. release RedisPool None,
      prBroker = \<lambda>_ pol. \<lparr>dial = acquire BrokerConn (Inr idle_conn), sleep = \<lambda>_. ret (),
        getConn = State (\<lambda>w. (if brokerSet w then Some idle_conn else None, w)),
        setConn = \<lambda>_. State (\<lambda>w. ((), w\<lparr>brokerSet := True\<rparr>)), retryPolicy = pol\<rparr>,
      prDeliveries = idle_deliveries,
      prNewClient = \<lambda>_. acquire MailerConn (Inr \<lparr>grpcSend = \<lambda>_. ret (Inl (Err ''offline'')), grpcClose = release MailerConn None\<rparr>),
      prListen = \<lambda>_. ret None\<rparr>"

lemma idle_closes: "closes (\<lambda>w. w) x (release x r)"
  by (simp add: closes_def release_def)

lemma idle_opens: "good r \<Longrightarrow> opens (\<lambda>w. w) x good (acquire x r)"
  by (simp add: opens_def acquire_def)

lemma idle_conn_ok: "conn_ok (\<lambda>w. w) idle_conn"
  by (simp add: conn_ok_def idle_conn_def idle_closes channel_keeps_def idle_channel_def)

interpretation idle: quiet_process idle_process idle_libraries "\<lambda>w. w"
  by unfold_locales
     (simp_all add: idle_process_def idle_libraries_def idle_opens idle_closes, auto simp: keeps_def acquire_def idle_conn_ok idle_closes)

definition at_start :: machine where
  "at_start = \<lparr>held = {#}, started = 0, dbSet = False, redisSet = False, brokerSet = False\<rparr>"

lemma for_err_quiet [simp]: "for_err xs (\<lambda>_. ret None) = ret None"
  by (induction xs) simp_all

lemma idle_topology: "declareTopology (declaring idle_channel) pol = ret None"
  by (simp add: declareTopology_def declareEndpoint_def idle_channel_def wrapping_def Let_def)

lemma idle_connects: "connect (Suc 0) (prBroker idle_process url pol)
    = State (\<lambda>w. (Some (), w\<lparr>held := add_mset BrokerConn (held w), brokerSet := True\<rparr>))"
  by (rule state_ext)
     (simp add: connect_def try_connect_def idle_process_def acquire_def idle_conn_def idle_topology, simp add: idle_channel_def)

lemma idle_config: "DeliveryTransport (LoadNotifierConfig Map.empty) \<noteq> transportGRPC" "ncWorkers (LoadNotifierConfig Map.empty) = 3"
  by (simp_all add: LoadNotifierConfig_def GetEnv_def GetEnvAs_def transportGRPC_def)

lemma idle_closing: "run (conn_Close (prBroker idle_process url pol)) w
    = (None, if brokerSet w then held_update (\<lambda>h. h - {#BrokerConn#}) w else w)"
  by (simp add: conn_Close_def idle_process_def idle_conn_def release_def)

lemma idle_fields:
  "prEnviron idle_process = ret Map.empty" "prOpenLogger idle_process l = ret ()" "prLoadFile idle_process f = ret None"
  "prSync idle_process = ret ()" "prNotify idle_process = acquire Signals ()" "prStopNotify idle_process = release Signals ()"
  "prGo idle_process g = State (\<lambda>w. ((), started_update Suc w))" "prDone idle_process = ret ()" "prWait idle_process = ret ()"
  "onceGet (prRedisCell idle_process) = State (\<lambda>w. (if redisSet w then Some idle_redis else None, w))"
  "onceSet (prRedisCell idle_process) c = State (\<lambda>w. ((), w\<lparr>redisSet := True\<rparr>))"
  "prNewRedis idle_process a = acquire RedisPool idle_redis" "prCloseRedis idle_process c = release RedisPool None"
  by (simp_all add: idle_process_def)

lemma idle_notifier:
  "fst (run (notifier_main 1 (\<lambda>_. None) idle_process idle_libraries) at_start) = Returned
   \<and> started (snd (run (notifier_main 1 (\<lambda>_. None) idle_process idle_libraries) at_start)) = 3"
  by (simp add: notifier_main_def starting_def InitLogger_def deferring_def LoadEnv_def with_redis_def GetClient_def
      with_broker_def conn_Dial_def idle_connects with_publisher_def newCommandPublisher_def idle_config consuming_def
      go_workers_def upt_rec idle_closing Let_def at_start_def idle_fields acquire_def release_def ignoring_def)


end
