(* ===== verification/Loadtest.thy ===== *)
theory Loadtest
  imports Grpc_Mailer Reconnect Publisher Quota
begin

text \<open>
  \<open>cmd/loadtest/main.go\<close>: the harness that times the two ways from the notifier to the mailer.
  What it prints is handed to a parameter as a record; the listener, the gRPC runtime, the
  clock, the goroutines and the AMQP client are parameters too. The theorems: a percentile is
  the order statistic it claims to be and never out of range, waiting for a count ends and is
  right about what it says, and an AMQP run reports only after everything was drained.
\<close>

section \<open>The workload\<close>

definition sampleCommand :: DeliveryMessage where
  "sampleCommand = \<lparr>dmEvent = EventNewRelease, dmEmail = ''load@example.com'', dmRepo = ''owner/repo'',
     dmRelease = ''v1.0.0'', dmPayload = []\<rparr>"

text \<open>\<open>EMAIL_TYPE_NEW_RELEASE\<close> is 1.\<close>

definition protoSample :: DeliveryCommand where
  "protoSample = \<lparr>dcType = 1, dcEmail = dmEmail sampleCommand, dcRepo = dmRepo sampleCommand,
     dcRelease = dmRelease sampleCommand, dcPayload = []\<rparr>"

lemma protoSample_is_sample: "protoSample = toProto sampleCommand"
  by (simp add: protoSample_def toProto_def sampleCommand_def eventToProto_def email_event_types)

definition noopSender :: "'w EmailSender" where
  "noopSender recipient subject body = ret None"

text \<open>An \<open>atomic.Int64\<close>.\<close>

record 'w counter =
  counterAdd :: "int \<Rightarrow> ('w, unit) state"
  counterLoad :: "('w, int) state"

definition countingSender :: "'w counter \<Rightarrow> 'w EmailSender" where
  "countingSender s recipient subject body = do { counterAdd s 1; ret None }"

section \<open>Waiting for a count\<close>

definition timed_out :: "int \<Rightarrow> int \<Rightarrow> goerror" where
  "timed_out c want = Err (''timed out: only '' @ Itoa c @ ''/'' @ Itoa want @ '' consumed'')"

text \<open>The loop, with the number of turns to unroll; \<open>tick\<close> is the \<open>select\<close> of the context and a
  timer of two milliseconds.\<close>

fun wait_turns :: "nat \<Rightarrow> ('w, int) state \<Rightarrow> ('w, goerror option) state \<Rightarrow> 'w counter \<Rightarrow> int \<Rightarrow> int
    \<Rightarrow> ('w, goerror option option) state" where
  "wait_turns 0 clk tick cnt want deadline = ret None"
| "wait_turns (Suc n) clk tick cnt want deadline = do {
     t \<leftarrow> clk;
     if t < deadline then do {
       c \<leftarrow> counterLoad cnt;
       if want \<le> c then ret (Some None)
       else do {
         err \<leftarrow> tick;
         case err of Some e \<Rightarrow> ret (Some (Some e)) | None \<Rightarrow> wait_turns n clk tick cnt want deadline } }
     else do {
       c \<leftarrow> counterLoad cnt;
       ret (Some (Some (timed_out c want))) } }"

definition waitForCount :: "nat \<Rightarrow> ('w, int) state \<Rightarrow> ('w, goerror option) state \<Rightarrow> 'w counter \<Rightarrow> int \<Rightarrow> int
    \<Rightarrow> ('w, goerror option option) state" where
  "waitForCount fuel clk tick cnt want timeout = do {
     t \<leftarrow> clk;
     wait_turns fuel clk tick cnt want (t + timeout) }"

section \<open>The report\<close>

text \<open>\<open>Duration.Round(m)\<close> for a positive \<open>m\<close>: to the nearest multiple, halves away from zero,
  within an \<open>int64\<close>.\<close>

definition Duration_Round :: "int \<Rightarrow> int \<Rightarrow> int" where
  "Duration_Round d m =
     (if d < 0 then (let r = (- d) mod m in
        if r + r < m then d + r else max (- (2 ^ 63)) (d - m + r))
      else (let r = d mod m in
        if r + r < m then d - r else min (2 ^ 63 - 1) (d + m - r)))"

definition microsecond :: int where "microsecond = 1000"
definition millisecond :: int where "millisecond = 1000000"

text \<open>\<open>int(x)\<close> of a float cuts off the fraction. An index out of range is a panic, \<open>None\<close>.\<close>

definition trunc_float :: "float64 \<Rightarrow> int" where
  "trunc_float x = (if x < 0 then \<lceil>x\<rceil> else \<lfloor>x\<rfloor>)"

definition percentile_index :: "nat \<Rightarrow> float64 \<Rightarrow> int" where
  "percentile_index n q = trunc_float (round64 (q * round64 (of_int (int n - 1))))"

definition percentile :: "int list \<Rightarrow> float64 \<Rightarrow> int option" where
  "percentile samples q =
     (let idx = percentile_index (length samples) q
      in if 0 \<le> idx \<and> idx < int (length samples) then Some (Duration_Round (samples ! nat idx) microsecond) else None)"

text \<open>What \<open>report\<close> prints; \<open>None\<close> is the rate of an empty time, which is no number.\<close>

record load_report =
  lrTransport :: string
  lrN :: int
  lrElapsed :: int
  lrThroughput :: "float64 option"
  lrLatency :: "(int option \<times> int option) option"

definition report :: "string \<Rightarrow> int \<Rightarrow> int \<Rightarrow> int list \<Rightarrow> load_report" where
  "report transport n elapsed latencies =
     \<lparr>lrTransport = transport, lrN = n, lrElapsed = Duration_Round elapsed millisecond,
      lrThroughput = (if Seconds elapsed = 0 then None else Some (round64 (round64 (of_int n) / Seconds elapsed))),
      lrLatency = (if latencies = [] then None
        else Some (percentile (sort latencies) (1 / 2), percentile (sort latencies) (round64 (99 / 100))))\<rparr>"

section \<open>The header\<close>

text \<open>\<open>strings.Lines\<close>, \<open>strings.CutPrefix\<close> and \<open>strings.Cut\<close> at one byte.\<close>

fun Lines :: "string \<Rightarrow> string list" where
  "Lines [] = []"
| "Lines (c # cs) =
     (if c = CHR 0x0A then [c] # Lines cs
      else (case Lines cs of [] \<Rightarrow> [[c]] | l # ls \<Rightarrow> (c # l) # ls))"

definition CutPrefix :: "string \<Rightarrow> string \<Rightarrow> string \<times> bool" where
  "CutPrefix s p = (if HasPrefix s p then (drop (length p) s, True) else (s, False))"

fun Cut :: "string \<Rightarrow> char \<Rightarrow> string \<times> string \<times> bool" where
  "Cut [] sep = ([], [], False)"
| "Cut (c # cs) sep =
     (if c = sep then ([], cs, True)
      else (case Cut cs sep of (before, after, found) \<Rightarrow> (c # before, after, found)))"

fun model_line :: "string list \<Rightarrow> string" where
  "model_line [] = ''unknown''"
| "model_line (line # ls) =
     (case CutPrefix line ''model name'' of (rest, found) \<Rightarrow>
        if \<not> found then model_line ls
        else (case Cut rest (CHR '':'') of (_, value, ok) \<Rightarrow> if ok then TrimSpace value else model_line ls))"

text \<open>The argument is the outcome of reading \<open>/proc/cpuinfo\<close>.\<close>

definition cpuModel :: "goerror + string \<Rightarrow> string" where
  "cpuModel data = (case data of Inl _ \<Rightarrow> ''unknown'' | Inr s \<Rightarrow> model_line (Lines s))"

section \<open>The two transports\<close>

text \<open>The rest of what the harness reaches. \<open>hGo\<close> starts a goroutine whose result the harness
  receives with \<open>hJoin\<close>; a generated client's stream sends, receives and is closed. \<open>hWait\<close>,
  \<open>hFormat\<close> and \<open>hObserve\<close> are those of the mailer.\<close>

record 'w client_stream =
  csSend :: "DeliveryCommand \<Rightarrow> ('w, goerror option) state"
  csRecv :: "('w, goerror + proto_enum) state"
  csCloseSend :: "('w, goerror option) state"

record 'w harness =
  hNow :: "('w, int) state"
  hTick :: "('w, goerror option) state"
  hSince :: "int \<Rightarrow> ('w, int) state"
  hReport :: "load_report \<Rightarrow> ('w, unit) state"
  hHeader :: "int \<Rightarrow> int \<Rightarrow> string \<Rightarrow> ('w, unit) state"
  hReadFile :: "string \<Rightarrow> ('w, goerror + string) state"
  hListen :: "('w, goerror + string) state"
  hServe :: "'w Server \<Rightarrow> ('w, unit) state"
  hStop :: "('w, unit) state"
  hNewClient :: "string \<Rightarrow> ('w, goerror + 'w grpc_conn) state"
  hSendStream :: "'w grpc_conn \<Rightarrow> ('w, goerror + 'w client_stream) state"
  hGo :: "('w, goerror option) state \<Rightarrow> ('w, unit) state"
  hJoin :: "('w, goerror option) state"
  hConnection :: "string \<Rightarrow> RetryPolicy \<Rightarrow> 'w reconnecting"
  hDeliveries :: "'w Connection"
  hPid :: "('w, int) state"
  hConsume :: "'w Consumer \<Rightarrow> ('w, unit) state"
  hCancel :: "('w, unit) state"
  hCounter :: "'w counter"
  hWait :: "int64 \<Rightarrow> ('w, goerror option) state"
  hFormat :: "json \<Rightarrow> string"
  hObserve :: "string \<Rightarrow> string \<Rightarrow> ('w, unit) state"

text \<open>How a run ends: with an error or without, by a panic, or not within the given turns.\<close>

datatype load_end = Done "goerror option" | Crashed | Running

text \<open>\<open>for range n { if err := m; err != nil { return err } }\<close>\<close>

definition for_range :: "int \<Rightarrow> ('w, goerror option) state \<Rightarrow> ('w, goerror option) state" where
  "for_range n m = for_err [0 ..< nat n] (\<lambda>_. m)"

fun timed_calls :: "nat \<Rightarrow> 'w harness \<Rightarrow> ('w, goerror option) state \<Rightarrow> int list \<Rightarrow> ('w, goerror + int list) state" where
  "timed_calls 0 H m latencies = ret (Inr latencies)"
| "timed_calls (Suc n) H m latencies = do {
     callStart \<leftarrow> hNow H;
     err \<leftarrow> m;
     case err of
       Some e \<Rightarrow> ret (Inl e)
     | None \<Rightarrow> do { l \<leftarrow> hSince H callStart; timed_calls n H m (latencies @ [l]) } }"

definition runGRPCStream :: "'w harness \<Rightarrow> string \<Rightarrow> int \<Rightarrow> int \<Rightarrow> ('w, load_end) state" where
  "runGRPCStream H addr n warmup = do {
     dialled \<leftarrow> hNewClient H addr;
     case dialled of
       Inl err \<Rightarrow> ret (Done (Some err))
     | Inr conn \<Rightarrow> do {
         opened \<leftarrow> hSendStream H conn;
         res \<leftarrow> (case opened of
           Inl err \<Rightarrow> ret (Done (Some err))
         | Inr stream \<Rightarrow> do {
             let recv = (do { r \<leftarrow> csRecv stream; ret (case r of Inl err \<Rightarrow> Some err | Inr _ \<Rightarrow> None) });
             warm \<leftarrow> for_range warmup (wrapping ''warm-up: '' (and_then (csSend stream protoSample) recv));
             case warm of
               Some err \<Rightarrow> ret (Done (Some err))
             | None \<Rightarrow> do {
                 start \<leftarrow> hNow H;
                 hGo H (and_then (for_range n (csSend stream protoSample)) (csCloseSend stream));
                 recvErr \<leftarrow> for_range n recv;
                 (case recvErr of
                    Some err \<Rightarrow> ret (Done (Some err))
                  | None \<Rightarrow> do {
                      sendErr \<leftarrow> hJoin H;
                      (case sendErr of
                         Some err \<Rightarrow> ret (Done (Some err))
                       | None \<Rightarrow> do {
                           elapsed \<leftarrow> hSince H start;
                           hReport H (report ''grpc-stream'' n elapsed []);
                           ret (Done None) }) }) } });
         closeErr \<leftarrow> grpcClose conn;
         ret res } }"

text \<open>\<open>make\<close> of a slice with a negative capacity panics.\<close>

definition unary_calls :: "'w harness \<Rightarrow> 'w grpc_client \<Rightarrow> int \<Rightarrow> int \<Rightarrow> ('w, load_end) state" where
  "unary_calls H client n warmup = do {
     warm \<leftarrow> for_range warmup (wrapping ''warm-up: '' (grpc_Publish client sampleCommand));
     case warm of
       Some err \<Rightarrow> ret (Done (Some err))
     | None \<Rightarrow>
         if n < 0 then ret Crashed
         else do {
           start \<leftarrow> hNow H;
           timed \<leftarrow> timed_calls (nat n) H (grpc_Publish client sampleCommand) [];
           case timed of
             Inl err \<Rightarrow> ret (Done (Some err))
           | Inr latencies \<Rightarrow> do {
               elapsed \<leftarrow> hSince H start;
               hReport H (report ''grpc-unary'' n elapsed latencies);
               ret (Done None) } } }"

text \<open>\<open>mailer.New(sender, nil)\<close>\<close>

definition load_mailer :: "'w harness \<Rightarrow> 'w EmailSender \<Rightarrow> 'w Mailer" where
  "load_mailer H sender = NewMailer sender None (hWait H) (hObserve H) (hFormat H)"

definition runGRPC :: "'w harness \<Rightarrow> int \<Rightarrow> int \<Rightarrow> bool \<Rightarrow> ('w, load_end) state" where
  "runGRPC H n warmup stream = do {
     let mlr = load_mailer H noopSender;
     lis \<leftarrow> hListen H;
     case lis of
       Inl err \<Rightarrow> ret (Done (Some err))
     | Inr addr \<Rightarrow> do {
         hServe H \<lparr>deliverer = mailer_Deliver mlr, srvObserve = hObserve H\<rparr>;
         res \<leftarrow> (if stream then runGRPCStream H addr n warmup
           else do {
             dialled \<leftarrow> grpc_Dial (hNewClient H) addr;
             case dialled of
               Inl err \<Rightarrow> ret (Done (Some err))
             | Inr client \<Rightarrow> do {
                 res \<leftarrow> unary_calls H client n warmup;
                 closeErr \<leftarrow> grpc_Close client;
                 ret res } });
         hStop H;
         ret res } }"

definition two_minutes :: int where "two_minutes = 120 * second"

text \<open>Publishing a batch and waiting until the count is reached; the outer \<open>None\<close> is a wait that
  has not ended.\<close>

definition drained :: "nat \<Rightarrow> 'w harness \<Rightarrow> ('w, goerror option) state \<Rightarrow> int \<Rightarrow> int \<Rightarrow> ('w, goerror option option) state" where
  "drained fuel H publish batch want = do {
     pubErr \<leftarrow> for_range batch publish;
     case pubErr of
       Some err \<Rightarrow> ret (Some (Some err))
     | None \<Rightarrow> waitForCount fuel (hNow H) (hTick H) (hCounter H) want two_minutes }"

definition warm_error :: "goerror \<Rightarrow> goerror" where
  "warm_error err = Err (''warm-up: '' @ err_text err)"

definition amqp_batches :: "nat \<Rightarrow> 'w harness \<Rightarrow> ('w, goerror option) state \<Rightarrow> int \<Rightarrow> int \<Rightarrow> ('w, load_end) state" where
  "amqp_batches fuel H publish n warmup = do {
     warm \<leftarrow> (if 0 < warmup then drained fuel H publish warmup warmup else ret (Some None));
     case warm of
       None \<Rightarrow> ret Running
     | Some (Some err) \<Rightarrow> ret (Done (Some (warm_error err)))
     | Some None \<Rightarrow> do {
         start \<leftarrow> hNow H;
         timed \<leftarrow> drained fuel H publish n (warmup + n);
         (case timed of
            None \<Rightarrow> ret Running
          | Some (Some err) \<Rightarrow> ret (Done (Some err))
          | Some None \<Rightarrow> do {
              elapsed \<leftarrow> hSince H start;
              hReport H (report ''amqp'' n elapsed []);
              ret (Done None) }) } }"

definition runAMQP :: "nat \<Rightarrow> 'w harness \<Rightarrow> string \<Rightarrow> int \<Rightarrow> int \<Rightarrow> ('w, load_end) state" where
  "runAMQP fuel H url n warmup = do {
     let retry = NewRetryPolicy (30 * word_of_int second) 2 5;
     dialled \<leftarrow> conn_Dial fuel (hConnection H url retry);
     case dialled of
       None \<Rightarrow> ret Running
     | Some conn \<Rightarrow> do {
         pid \<leftarrow> hPid H;
         let routingKey = ''loadtest.'' @ Itoa pid;
         let queue = ''loadtest.'' @ Itoa pid;
         declErr \<leftarrow> DeclareEphemeralQueue conn CommandsExchange queue routingKey;
         res \<leftarrow> (case declErr of
           Some err \<Rightarrow> ret (Done (Some err))
         | None \<Rightarrow> do {
             let mlr = load_mailer H (countingSender (hCounter H));
             let consumer = NewConsumer (connection_of (hDeliveries H) conn) \<lparr>MainQ = queue, RetryQ = '''', DLQ = ''''\<rparr> 50 retry (mailer_Handler mlr);
             hConsume H consumer;
             let publish = publisher_Publish (connection_of (hDeliveries H) conn) CommandsExchange routingKey
               (Inr (marshal_DeliveryMessage sampleCommand));
             res \<leftarrow> amqp_batches fuel H publish n warmup;
             hCancel H;
             ret res });
         closeErr \<leftarrow> conn_Close conn;
         ret res } }"

section \<open>The run\<close>

record load_flags =
  flTransport :: string
  flN :: int
  flWarmup :: int
  flStream :: bool
  flURL :: string

definition cap_warmup :: "int \<Rightarrow> int \<Rightarrow> int" where
  "cap_warmup n warmup = (let maxWarmup = quot n 10 in if maxWarmup < warmup then maxWarmup else warmup)"

definition printHeader :: "'w harness \<Rightarrow> int \<Rightarrow> int \<Rightarrow> ('w, unit) state" where
  "printHeader H n warmup = do { data \<leftarrow> hReadFile H ''/proc/cpuinfo''; hHeader H n warmup (cpuModel data) }"

definition load_run :: "nat \<Rightarrow> 'w harness \<Rightarrow> load_flags \<Rightarrow> ('w, load_end) state" where
  "load_run fuel H flags = do {
     let n = flN flags;
     let warmup = cap_warmup n (flWarmup flags);
     printHeader H n warmup;
     if flTransport flags = ''grpc'' then runGRPC H n warmup (flStream flags)
     else if flTransport flags = ''amqp'' then runAMQP fuel H (flURL flags) n warmup
     else ret (Done (Some (Err (''unknown transport '' @ quoted (flTransport flags))))) }"

text \<open>\<open>main\<close>: the exit code; a panic exits with 2.\<close>

definition exit_code :: "load_end \<Rightarrow> int option" where
  "exit_code e = (case e of Done None \<Rightarrow> Some 0 | Done (Some _) \<Rightarrow> Some 1 | Crashed \<Rightarrow> Some 2 | Running \<Rightarrow> None)"

section \<open>Percentiles\<close>

text \<open>The rounded index is the exact one or the next.\<close>

lemma trunc_round_bounds:
  assumes "0 \<le> z" and "z \<le> of_int m" and "m < 2 ^ 53"
  shows "0 \<le> trunc_float (round64 z)" "trunc_float (round64 z) \<le> m"
    "\<lfloor>z\<rfloor> \<le> trunc_float (round64 z)" "trunc_float (round64 z) \<le> \<lfloor>z\<rfloor> + 1"
proof -
  have z: "0 \<le> \<lfloor>z\<rfloor>" "\<lfloor>z\<rfloor> \<le> m" using assms(1,2) by (simp_all add: floor_le_iff)
  have exact: "round64 (of_int k) = of_int k" if "0 \<le> k" "k < 2 ^ 53" for k
    by (rule round64_int) (use that in simp)
  have "round64 (of_int \<lfloor>z\<rfloor>) \<le> round64 z" by (rule round64_mono) simp
  then have lo: "of_int \<lfloor>z\<rfloor> \<le> round64 z" using exact[of "\<lfloor>z\<rfloor>"] z assms(3) by linarith
  have up: "round64 z \<le> of_int m" using round64_mono[OF assms(2)] exact[of m] z assms(3) by linarith
  have nxt: "round64 z \<le> of_int (\<lfloor>z\<rfloor> + 1)"
  proof (cases "\<lfloor>z\<rfloor> + 1 < 2 ^ 53")
    case True
    have "z \<le> of_int (\<lfloor>z\<rfloor> + 1)" by linarith
    from round64_mono[OF this] show ?thesis using exact[of "\<lfloor>z\<rfloor> + 1"] True z by linarith
  next
    case False
    then show ?thesis using up z assms(3) by linarith
  qed
  have nonneg: "0 \<le> round64 z" using lo z(1) by (metis of_int_0_le_iff order_trans)
  then have t: "trunc_float (round64 z) = \<lfloor>round64 z\<rfloor>" by (simp add: trunc_float_def)
  show "0 \<le> trunc_float (round64 z)" "trunc_float (round64 z) \<le> m"
    "\<lfloor>z\<rfloor> \<le> trunc_float (round64 z)" "trunc_float (round64 z) \<le> \<lfloor>z\<rfloor> + 1"
    unfolding t using nonneg lo up nxt by (simp_all add: le_floor_iff floor_le_iff less_le_not_le)
qed

text \<open>In a sorted list, the entries up to an index are at most the entry there, and those from it
  on at least.\<close>

lemma filter_parts:
  "length (filter P (take k xs)) \<le> length (filter P xs)" "length (filter P (drop k xs)) \<le> length (filter P xs)"
proof -
  have "filter P (take k xs) @ filter P (drop k xs) = filter P xs"
    by (simp only: filter_append[symmetric] append_take_drop_id)
  then have "length (filter P (take k xs)) + length (filter P (drop k xs)) = length (filter P xs)"
    by (metis length_append)
  then show "length (filter P (take k xs)) \<le> length (filter P xs)" "length (filter P (drop k xs)) \<le> length (filter P xs)"
    by simp_all
qed

lemma sorted_ranks:
  assumes "i < length xs"
  shows "Suc i \<le> length (filter (\<lambda>x. x \<le> sort xs ! i) xs)"
    and "length xs - i \<le> length (filter (\<lambda>x. sort xs ! i \<le> x) xs)"
proof -
  let ?s = "sort xs"
  have same: "length (filter P xs) = length (filter P ?s)" for P
    by (simp add: filter_sort)
  have i: "i < length ?s" using assms by simp
  have "\<forall>x \<in> set (take (Suc i) ?s). x \<le> ?s ! i"
  proof
    fix x assume "x \<in> set (take (Suc i) ?s)"
    then obtain j where "j < length (take (Suc i) ?s)" "take (Suc i) ?s ! j = x" unfolding in_set_conv_nth by blast
    then show "x \<le> ?s ! i" using i sorted_nth_mono[OF sorted_sort[of xs], of j i] by simp
  qed
  then have "filter (\<lambda>x. x \<le> ?s ! i) (take (Suc i) ?s) = take (Suc i) ?s" by (simp only: filter_id_conv)
  then have "Suc i \<le> length (filter (\<lambda>x. x \<le> ?s ! i) (take (Suc i) ?s))" using i by simp
  also have "\<dots> \<le> length (filter (\<lambda>x. x \<le> ?s ! i) ?s)"
    by (rule filter_parts(1))
  finally show "Suc i \<le> length (filter (\<lambda>x. x \<le> ?s ! i) xs)" by (simp add: same)
  have "\<forall>x \<in> set (drop i ?s). ?s ! i \<le> x"
  proof
    fix x assume "x \<in> set (drop i ?s)"
    then obtain j where "j < length (drop i ?s)" "drop i ?s ! j = x" unfolding in_set_conv_nth by blast
    then show "?s ! i \<le> x" using i sorted_nth_mono[OF sorted_sort[of xs], of i "i + j"] by simp
  qed
  then have "filter (\<lambda>x. ?s ! i \<le> x) (drop i ?s) = drop i ?s" by (simp only: filter_id_conv)
  then have "length xs - i \<le> length (filter (\<lambda>x. ?s ! i \<le> x) (drop i ?s))" by simp
  also have "\<dots> \<le> length (filter (\<lambda>x. ?s ! i \<le> x) ?s)"
    by (rule filter_parts(2))
  finally show "length xs - i \<le> length (filter (\<lambda>x. ?s ! i \<le> x) xs)" by (simp add: same)
qed

text \<open>
  C39: For a quantile between 0 and 1 and at least one latency, \<open>percentile\<close> never indexes out of
  range, whatever the rounding of the product: it gives, rounded to a microsecond, the latency
  of some rank \<open>i\<close>, at least \<open>i + 1\<close> of the latencies being at most this and all but \<open>i\<close> at
  least this; and \<open>i\<close> is the whole part of \<open>q * (n - 1)\<close>, or one more.
\<close>

theorem percentile_is_order_statistic:
  assumes "0 \<le> q" and "q \<le> 1" and "latencies \<noteq> []" and "length latencies < 2 ^ 53"
  shows "\<exists>i < length latencies. percentile (sort latencies) q = Some (Duration_Round (sort latencies ! i) microsecond)
    \<and> i + 1 \<le> length (filter (\<lambda>x. x \<le> sort latencies ! i) latencies)
    \<and> length latencies - i \<le> length (filter (\<lambda>x. sort latencies ! i \<le> x) latencies)
    \<and> int i \<in> {\<lfloor>q * of_int (int (length latencies) - 1)\<rfloor>, \<lfloor>q * of_int (int (length latencies) - 1)\<rfloor> + 1}"
proof -
  define m where "m = int (length latencies) - 1"
  have "length latencies \<noteq> 0" using assms(3) by simp
  then have m: "0 \<le> m" "m < 2 ^ 53" using assms(4) by (simp_all add: m_def)
  have q: "0 \<le> q * of_int m" "q * of_int m \<le> of_int m"
    using assms(1,2) m(1) by (simp_all add: mult_left_le_one_le)
  define i where "i = nat (trunc_float (round64 (q * of_int m)))"
  note t = trunc_round_bounds[OF q m(2)]
  have "round64 (of_int m :: rat) = of_int m" by (rule round64_int) (use m in simp)
  then have idx: "percentile_index (length latencies) q = int i"
    using t(1) by (simp add: percentile_index_def i_def m_def)
  have i: "i < length latencies" using t(1,2) by (simp add: i_def m_def)
  have "percentile (sort latencies) q = Some (Duration_Round (sort latencies ! i) microsecond)"
    using idx i by (simp add: percentile_def Let_def)
  moreover have "int i \<in> {\<lfloor>q * of_int m\<rfloor>, \<lfloor>q * of_int m\<rfloor> + 1}"
    using t by (auto simp: i_def)
  ultimately show ?thesis using i sorted_ranks[OF i] by (auto simp: m_def)
qed

theorem percentile_is_order_statistic_witness:
  "percentile (sort [5000, 1000, 3000]) (1 / 2) \<noteq> None"
  using percentile_is_order_statistic[of "1 / 2" "[5000, 1000, 3000]"] by auto

section \<open>Waiting\<close>

text \<open>Time does not go back, and a tick that is not cut short by the context takes two milliseconds;
  the count only grows, whatever the goroutines do that add to it.\<close>

locale counting_world =
  fixes clk :: "('w, int) state" and tick :: "('w, goerror option) state" and cnt :: "'w counter"
    and time :: "'w \<Rightarrow> int" and tally :: "'w \<Rightarrow> int" and ctxErrs :: "goerror set"
  assumes clock: "\<And>w t w'. run clk w = (t, w') \<Longrightarrow> time w \<le> t \<and> t \<le> time w' \<and> tally w \<le> tally w'"
    and ticks: "\<And>w r w'. run tick w = (r, w') \<Longrightarrow> tally w \<le> tally w' \<and> time w \<le> time w'
      \<and> (case r of None \<Rightarrow> time w + 2 * millisecond \<le> time w' | Some e \<Rightarrow> e \<in> ctxErrs)"
    and loads: "\<And>w c w'. run (counterLoad cnt) w = (c, w') \<Longrightarrow> time w \<le> time w' \<and> tally w \<le> c \<and> c \<le> tally w'"

text \<open>What a wait may say.\<close>

definition wait_says ::
  "goerror set \<Rightarrow> int \<Rightarrow> int \<Rightarrow> int \<Rightarrow> int \<Rightarrow> int \<Rightarrow> goerror option \<Rightarrow> bool" where
  "wait_says ctxErrs want deadline before after ended r =
     (case r of
        None \<Rightarrow> want \<le> after
      | Some e \<Rightarrow> e \<in> ctxErrs \<or> (deadline \<le> ended \<and> (\<exists>c. before \<le> c \<and> c \<le> after \<and> e = timed_out c want)))"

lemma wait_says_timeout:
  "deadline \<le> ended \<Longrightarrow> before \<le> c \<Longrightarrow> c \<le> after
    \<Longrightarrow> wait_says E want deadline before after ended (Some (timed_out c want))"
  unfolding wait_says_def by (simp only: option.case) blast

lemma wait_says_earlier: "wait_says E want deadline v u t r \<Longrightarrow> v' \<le> v \<Longrightarrow> wait_says E want deadline v' u t r"
  unfolding wait_says_def by (cases r) (simp, simp, blast intro: order_trans)

context counting_world begin

lemma wait_turns_run:
  assumes "run (wait_turns n clk tick cnt want deadline) w = (r, w')"
  shows "(r = None \<longrightarrow> n = 0 \<or> time w + int (n - 1) * (2 * millisecond) < deadline)
    \<and> (\<forall>res. r = Some res \<longrightarrow> wait_says ctxErrs want deadline (tally w) (tally w') (time w') res)"
  using assms
proof (induction n arbitrary: w)
  case 0
  then show ?case by simp
next
  case (Suc n)
  obtain t w1 where 1: "run clk w = (t, w1)" by (rule prod.exhaust)
  obtain c w2 where 2: "run (counterLoad cnt) w1 = (c, w2)" by (rule prod.exhaust)
  obtain e w3 where 3: "run tick w2 = (e, w3)" by (rule prod.exhaust)
  note facts = clock[OF 1] loads[OF 2] ticks[OF 3]
  show ?case
  proof (cases "t < deadline \<and> c < want \<and> e = None")
    case True
    then have "run (wait_turns n clk tick cnt want deadline) w3 = (r, w')" using Suc.prems 1 2 3 by simp
    note ih = Suc.IH[OF this]
    have "time w + 2 * millisecond \<le> time w3" "tally w \<le> tally w3" using facts True by auto
    then show ?thesis
      using ih facts(1) True by (cases n) (auto simp: algebra_simps intro: wait_says_earlier)
  next
    case False
    then have "\<not> t < deadline \<or> t < deadline \<and> want \<le> c \<or> t < deadline \<and> c < want \<and> e \<noteq> None" by auto
    then consider (late) "\<not> t < deadline" | (enough) "t < deadline" "want \<le> c" | (over) "t < deadline" "c < want" "e \<noteq> None"
      by blast
    then show ?thesis
    proof cases
      case late
      obtain c' w2' where l: "run (counterLoad cnt) w1 = (c', w2')" by (rule prod.exhaust)
      have "r = Some (Some (timed_out c' want))" "w' = w2'"
        using Suc.prems 1 late l by simp_all
      then show ?thesis
        using facts(1) loads[OF l] late by (auto intro: wait_says_timeout)
    next
      case enough
      then show ?thesis using Suc.prems 1 2 facts by (auto simp: wait_says_def)
    next
      case over
      then show ?thesis using Suc.prems 1 2 3 facts by (auto simp: wait_says_def)
    qed
  qed
qed

end

text \<open>
  \<open>waitForCount\<close> ends: one turn more than the milliseconds of the timeout halved is enough. When it
  reports no error, at least \<open>want\<close> messages were counted; otherwise the context was done, or the
  timeout has passed and the error tells a count that was read.
\<close>

theorem wait_ends:
  assumes "counting_world clk tick cnt time tally ctxErrs"
    and "timeout \<le> int n * (2 * millisecond)"
    and "run (waitForCount (Suc n) clk tick cnt want timeout) w = (r, w')"
  shows "\<exists>res. r = Some res \<and> wait_says ctxErrs want (time w + timeout) (tally w) (tally w') (time w') res"
proof -
  obtain t w1 where 1: "run clk w = (t, w1)" by (rule prod.exhaust)
  have loop: "run (wait_turns (Suc n) clk tick cnt want (t + timeout)) w1 = (r, w')"
    using assms(3) 1 by (simp add: waitForCount_def)
  note c = counting_world.clock[OF assms(1) 1] and l = counting_world.wait_turns_run[OF assms(1) loop]
  have "r \<noteq> None"
    using l c assms(2) by auto
  then obtain res where r: "r = Some res" by blast
  have "wait_says ctxErrs want (t + timeout) (tally w) (tally w') (time w') res"
    using l r c by (auto intro: wait_says_earlier)
  then show ?thesis using r c by (force simp: wait_says_def split: option.splits)
qed

text \<open>A world with the time and the count; every tick counts one message.\<close>

definition ticking :: "(int \<times> int, goerror option) state" where
  "ticking = State (\<lambda>(t, c). (None, (t + 2 * millisecond, c + 1)))"

definition ticking_counter :: "(int \<times> int) counter" where
  "ticking_counter = \<lparr>counterAdd = \<lambda>n. State (\<lambda>(t, c). ((), (t, c + n))), counterLoad = State (\<lambda>(t, c). (c, (t, c)))\<rparr>"

interpretation ticking: counting_world "State (\<lambda>(t, c). (t, (t, c)))" ticking ticking_counter fst snd "{}"
  by unfold_locales (auto simp: ticking_def ticking_counter_def millisecond_def)

theorem wait_ends_witness:
  "\<exists>res. fst (run (waitForCount 4 (State (\<lambda>(t, c). (t, (t, c)))) ticking ticking_counter 2 (6 * millisecond)) (0, 0)) = Some res"
  using wait_ends[OF ticking.counting_world_axioms _ surjective_pairing, of "6 * millisecond" 3 2 "(0, 0)"]
  by (auto simp: eval_nat_numeral)

section \<open>A report means a drained queue\<close>

text \<open>\<open>sent\<close> counts the messages the broker confirmed, \<open>reports\<close> are those printed.\<close>

locale harness_world = counting_world "hNow H" "hTick H" "hCounter H" time tally ctxErrs
  for H :: "'w harness" and time :: "'w \<Rightarrow> int" and tally :: "'w \<Rightarrow> int" and ctxErrs :: "goerror set" +
  fixes publish :: "('w, goerror option) state" and sent :: "'w \<Rightarrow> nat" and reports :: "'w \<Rightarrow> load_report list"
  assumes publishes: "\<And>w r w'. run publish w = (r, w') \<Longrightarrow>
      sent w' = sent w + (if r = None then 1 else 0) \<and> reports w' = reports w"
    and quiet_now: "\<And>w r w'. run (hNow H) w = (r, w') \<Longrightarrow> sent w' = sent w \<and> reports w' = reports w"
    and quiet_tick: "\<And>w r w'. run (hTick H) w = (r, w') \<Longrightarrow> sent w' = sent w \<and> reports w' = reports w"
    and quiet_load: "\<And>w r w'. run (counterLoad (hCounter H)) w = (r, w') \<Longrightarrow> sent w' = sent w \<and> reports w' = reports w"
    and since: "\<And>t w r w'. run (hSince H t) w = (r, w') \<Longrightarrow> sent w' = sent w \<and> reports w' = reports w \<and> tally w \<le> tally w'"
    and prints: "\<And>x w u w'. run (hReport H x) w = (u, w') \<Longrightarrow>
      sent w' = sent w \<and> reports w' = reports w @ [x] \<and> tally w \<le> tally w'"

context harness_world begin

lemma batch_run:
  assumes "run (for_range k publish) w = (r, w')"
  shows "reports w' = reports w \<and> (r = None \<longrightarrow> sent w' = sent w + nat k)"
proof -
  have "reports w' = reports w \<and> (r = None \<longrightarrow> sent w' = sent w + length xs)"
    if "run (for_err xs (\<lambda>_. publish)) w = (r, w')" for xs :: "nat list" and w r w'
    using that
    by (induction xs arbitrary: w)
       (auto simp: and_then_def split: prod.splits option.splits dest!: publishes)
  from this[OF assms[unfolded for_range_def]] show ?thesis by simp
qed

lemma wait_quiet:
  "run (wait_turns fuel (hNow H) (hTick H) (hCounter H) want deadline) w = (r, w') \<Longrightarrow> sent w' = sent w \<and> reports w' = reports w"
proof (induction fuel arbitrary: w)
  case (Suc fuel)
  then show ?case
    by (auto split: prod.splits if_splits option.splits dest!: quiet_now quiet_tick quiet_load)
qed simp

lemma drained_run:
  assumes "run (drained fuel H publish batch want) w = (r, w')"
  shows "reports w' = reports w \<and> (r = Some None \<longrightarrow> sent w' = sent w + nat batch \<and> want \<le> tally w')"
proof -
  obtain e w1 where 1: "run (for_range batch publish) w = (e, w1)" by (rule prod.exhaust)
  show ?thesis
  proof (cases e)
    case (Some err)
    then show ?thesis using assms 1 batch_run[OF 1] by (auto simp: drained_def)
  next
    case None
    obtain t w2 where 2: "run (hNow H) w1 = (t, w2)" by (rule prod.exhaust)
    have loop: "run (wait_turns fuel (hNow H) (hTick H) (hCounter H) want (t + two_minutes)) w2 = (r, w')"
      using assms 1 None 2 by (simp add: drained_def waitForCount_def)
    show ?thesis
      using None batch_run[OF 1] quiet_now[OF 2] wait_quiet[OF loop] wait_turns_run[OF loop]
      by (auto simp: wait_says_def)
  qed
qed

lemma amqp_run:
  assumes "run (amqp_batches fuel H publish n warmup) w = (res, w')"
  shows "if res = Done None
    then (\<exists>elapsed. reports w' = reports w @ [report ''amqp'' n elapsed []])
      \<and> sent w' = sent w + nat warmup + nat n \<and> warmup + n \<le> tally w'
    else reports w' = reports w"
proof -
  obtain a w1 where 1: "run (if 0 < warmup then drained fuel H publish warmup warmup else ret (Some None)) w = (a, w1)"
    by (rule prod.exhaust)
  have warm: "reports w1 = reports w \<and> (a = Some None \<longrightarrow> sent w1 = sent w + nat warmup)"
  proof (cases "0 < warmup")
    case True
    then show ?thesis using 1 drained_run[of fuel warmup warmup w a w1] by simp
  next
    case False
    then show ?thesis using 1 by simp
  qed
  show ?thesis
  proof (cases "a = Some None")
    case False
    then show ?thesis using assms 1 warm by (cases a) (auto simp: amqp_batches_def split: option.splits)
  next
    case True
    obtain start w2 where 2: "run (hNow H) w1 = (start, w2)" by (rule prod.exhaust)
    obtain b w3 where 3: "run (drained fuel H publish n (warmup + n)) w2 = (b, w3)" by (rule prod.exhaust)
    note d = drained_run[OF 3] and q = quiet_now[OF 2]
    show ?thesis
    proof (cases "b = Some None")
      case False
      then show ?thesis
        using assms 1 True 2 3 warm d q by (cases b) (auto simp: amqp_batches_def split: option.splits)
    next
      case b: True
      obtain el w4 where 4: "run (hSince H start) w3 = (el, w4)" by (rule prod.exhaust)
      obtain u w5 where 5: "run (hReport H (report ''amqp'' n el [])) w4 = (u, w5)" by (rule prod.exhaust)
      have "res = Done None" "w' = w5" using assms 1 True 2 3 b 4 5 by (simp_all add: amqp_batches_def)
      then show ?thesis using True b warm d q since[OF 4] prints[OF 5] by auto
    qed
  qed
qed

end

text \<open>
  C40: The AMQP run prints a report only when it ends without an error, and then exactly one: every
  message of the warm-up and of the timed batch was confirmed by the broker, and the consumer
  has counted at least as many. Any other end, a timeout included, prints none.
\<close>

theorem amqp_reports_after_drain:
  assumes "harness_world H time tally ctxErrs publish sent reports"
    and "run (amqp_batches fuel H publish n warmup) w = (res, w')"
  shows "if res = Done None
    then (\<exists>elapsed. reports w' = reports w @ [report ''amqp'' n elapsed []])
      \<and> sent w' = sent w + nat warmup + nat n \<and> warmup + n \<le> tally w'
    else reports w' = reports w"
  using harness_world.amqp_run[OF assms] .

text \<open>A harness over the time, the count, the confirmed messages and the reports; every confirmed
  message is counted at once.\<close>

record load_world =
  lwTime :: int
  lwCount :: int
  lwSent :: nat
  lwReports :: "load_report list"

definition offline_harness :: "load_world harness" where
  "offline_harness =
     \<lparr>hNow = State (\<lambda>w. (lwTime w, w)), hTick = State (\<lambda>w. (None, w\<lparr>lwTime := lwTime w + 2 * millisecond\<rparr>)),
      hSince = \<lambda>t. State (\<lambda>w. (lwTime w - t, w)),
      hReport = \<lambda>x. State (\<lambda>w. ((), w\<lparr>lwReports := lwReports w @ [x]\<rparr>)), hHeader = \<lambda>_ _ _. ret (),
      hReadFile = \<lambda>_. ret (Inl (Err ''no file'')), hListen = ret (Inl (Err ''offline'')), hServe = \<lambda>_. ret (),
      hStop = ret (), hNewClient = \<lambda>_. ret (Inl (Err ''offline'')), hSendStream = \<lambda>_. ret (Inl (Err ''offline'')),
      hGo = \<lambda>_. ret (), hJoin = ret None,
      hConnection = \<lambda>_ p. \<lparr>dial = ret (Inl (Err ''offline'')), sleep = \<lambda>_. ret (), getConn = ret None,
        setConn = \<lambda>_. ret (), retryPolicy = p\<rparr>,
      hDeliveries = \<lparr>Channel = ret (Inl (Err ''offline'')), dAck = \<lambda>_ _. ret None, dNack = \<lambda>_ _ _. ret None\<rparr>,
      hPid = ret 7, hConsume = \<lambda>_. ret (), hCancel = ret (),
      hCounter = \<lparr>counterAdd = \<lambda>n. State (\<lambda>w. ((), w\<lparr>lwCount := lwCount w + n\<rparr>)), counterLoad = State (\<lambda>w. (lwCount w, w))\<rparr>,
      hWait = \<lambda>_. ret None, hFormat = \<lambda>_. '''', hObserve = \<lambda>_ _. ret ()\<rparr>"

definition counted_publish :: "(load_world, goerror option) state" where
  "counted_publish = State (\<lambda>w. (None, w\<lparr>lwCount := lwCount w + 1, lwSent := Suc (lwSent w)\<rparr>))"

interpretation idle_load: harness_world offline_harness lwTime lwCount "{}" counted_publish lwSent lwReports
  by unfold_locales (auto simp: offline_harness_def counted_publish_def millisecond_def)

definition load_start :: load_world where
  "load_start = \<lparr>lwTime = 0, lwCount = 0, lwSent = 0, lwReports = []\<rparr>"

theorem amqp_reports_after_drain_witness:
  "\<exists>w'. run (amqp_batches 1 offline_harness counted_publish 2 1) load_start = (Done None, w')
     \<and> lwSent w' = 3 \<and> 3 \<le> lwCount w' \<and> length (lwReports w') = 1"
proof -
  obtain res w' where run: "run (amqp_batches 1 offline_harness counted_publish 2 1) load_start = (res, w')"
    by (rule prod.exhaust)
  have "res = Done None"
    using run by (simp add: amqp_batches_def drained_def for_range_def waitForCount_def counted_publish_def offline_harness_def
      load_start_def two_minutes_def second_def upt_rec and_then_def numeral_2_eq_2)
  then show ?thesis using amqp_reports_after_drain[OF idle_load.harness_world_axioms run] run by (auto simp: load_start_def)
qed

end
