(* ===== verification/Spec2Isabelle.thy ===== *)
theory Spec2Isabelle
  imports Lifecycle Main_Programs Loadtest
begin

text \<open>
  \<^bold>\<open>The program.\<close> github-scanner mails the subscribers of a GitHub repository when it has a new
  release. Three services share a broker: \<open>cmd/server\<close> (the HTTP API, the scanner, the onboarding
  saga's orchestrator and reaper, and the outbox relay, over one Postgres database),
  \<open>cmd/notifier\<close> (domain events to email commands, deduplicated in Redis) and \<open>cmd/mailer\<close>
  (commands to SMTP, with the result reported back to the saga). A subscription is stored
  \<open>pending\<close> with a saga and an outbox row in one transaction; the relay publishes
  \<open>subscription.created\<close>, the notifier asks the mailer for a verification mail, and the mailer's
  report completes the saga or makes the orchestrator delete the pending subscription. The scanner
  claims idle repositories, asks GitHub through a cache and a rate limit, and stores a
  \<open>release.detected\<close> or \<open>repository.moved\<close> row per active subscription.

  \<^bold>\<open>How Go is modelled.\<close> An effectful function is a computation \<open>('w, 'a) state\<close> over a world \<open>'w\<close>
  that only the interfaces it is given can inspect (theory \<open>Prelude\<close>). A struct is a record, an
  interface a record of functions, \<open>(T, error)\<close> is \<open>goerror + 'a\<close>, an \<open>error\<close> alone is
  \<open>goerror option\<close>, a \<open>string\<close> is its list of bytes, \<open>int64\<close> a 64-bit word where it can wrap, a
  \<open>float64\<close> a rational that each operation rounds to binary64 (\<open>Float64\<close>). A loop that may not end
  takes the number of turns to unroll and gives \<open>None\<close> when they do not suffice. Log calls have no
  effect. What is not in the repository is a parameter with a contract, stated as a locale:
  GORM (\<open>gorm\<close>, \<open>gorm_clock\<close> in \<open>Db\<close>), the AMQP client (\<open>amqp_history\<close> in \<open>Amqp\<close>), Redis
  (\<open>redis_keys\<close> in \<open>Redis\<close>), HTTP, SMTP, the gRPC runtime (\<open>grpc_link\<close>, \<open>command_stream\<close> in
  \<open>Grpc_Mailer\<close>), gin and the Prometheus client (\<open>measured_gin\<close> in \<open>Http_Server\<close>), the operating
  system (\<open>quiet_process\<close> in \<open>Main_Programs\<close>), \<open>strconv.ParseFloat\<close>, zap's level parser. Every
  contract is interpreted on a world in memory (\<open>Gorm_Mem\<close> and the end of each theory), on which
  the witnesses run.

  \<^bold>\<open>The theories, and what their lemmas show.\<close>

  \<^item> Libraries of Go: \<open>Go_Strings\<close> (\<open>strings\<close>, \<open>strconv\<close>, \<open>hex\<close>), \<open>Json\<close> (printing, parsing and
    their round trip), \<open>Base64\<close>, \<open>Float64\<close> (monotone rounding, exact integers).
  \<^item> \<open>internal/infra/rabbitmq\<close>: \<open>Retry_Policy\<close> (tiers and their wrapping waits), \<open>Topology\<close> (the
    declaration equals a flat plan, queue names are distinct), \<open>Amqp\<close>, \<open>Consumer\<close> (settlement loses
    nothing, retries are bounded), \<open>Publisher\<close> (an answer means a confirm), \<open>Reconnect\<close> (the waits
    of the backoff).
  \<^item> Data: \<open>Db\<close> (the models of \<open>internal/infra/db\<close>, rows under updates), \<open>Gorm_Mem\<close>, \<open>Events\<close>
    (\<open>internal/events\<close>, \<open>internal/infra/mq\<close>: built events decode), \<open>Outbox\<close> (the relay loses nothing
    and is first-in first-out), \<open>Redis\<close>.
  \<^item> The server: \<open>Subscription_Store\<close> and \<open>Handlers\<close> (\<open>internal/transport/http/handlers\<close>: what each
    request changes and reveals, token search), \<open>Http_Server\<close> (metrics, middleware, routes: every
    request is counted once), \<open>Orchestrator\<close> (\<open>internal/worker/orchestrator\<close>: results settle sagas,
    compensation is atomic, the reaper), \<open>Scanner_Store\<close>, \<open>Quota\<close> and \<open>Scanner\<close>
    (\<open>internal/worker/scanner\<close>: claims are exclusive, releases reach the subscribers),
    \<open>Github_Client\<close> and \<open>Github_Cache\<close> (\<open>internal/api/github\<close>).
  \<^item> The other services: \<open>Notifier\<close> (an acked event was sent once), \<open>Mailer\<close> (the verdict on a
    command), \<open>Grpc_Mailer\<close> (\<open>internal/transport/grpc/mailer\<close>).
  \<^item> Composition: \<open>Config\<close> (\<open>internal/config\<close>, \<open>internal/utils\<close>), \<open>Server\<close> (the wiring of the three
    services, the cost of a request through the three GitHub transports), \<open>Main_Programs\<close> (each
    \<open>main\<close>: what is opened is released), \<open>Saga_Flow\<close> (the token's way through the services and
    back), \<open>Table_Steps\<close> (an abstract transition system of the tables with its invariants) and
    \<open>Lifecycle\<close> (the wired server, each call one step in any order, refines it; and what happens when
    a confirmation and a compensation overlap).
  \<^item> \<open>Loadtest\<close> (\<open>cmd/loadtest\<close>): waiting ends, percentiles are order statistics, a report means a
    drained queue.

  \<^bold>\<open>Bounds and fuel.\<close> A number of turns is an argument of the definition that models the loop:
  \<open>free_token\<close> needs one attempt more than there are subscriptions while the random source does not
  repeat (\<open>token_search_ends\<close>); \<open>server_SendStream\<close> one turn more than there are commands;
  \<open>wait_turns\<close> one more than half the milliseconds of its timeout (\<open>wait_ends\<close>); \<open>deliver\<close> has no
  bound while deletes fail (\<open>relay_loops_on_failing_deletes\<close>), and \<open>connect_loop\<close>, \<open>relay_loop\<close>,
  \<open>reaper_loop\<close>, \<open>produce_loop\<close>, \<open>consumer_Start\<close> and \<open>watchAndReconnect\<close> run as long as their
  service does, so their theorems hold for every number of turns.

  \<^bold>\<open>Interleaving.\<close> The steps of \<open>Lifecycle\<close> are whole calls; calls that are one transaction in the
  code are atomic there too. A subscription and an ending are several transactions of which one
  writes; a confirmation reads and writes in two, and \<open>confirm_race_revives\<close> shows what its overlap
  with a compensation does. The exclusive claims of the scanner hold for \<open>SELECT ... FOR UPDATE SKIP
  LOCKED\<close> as GORM's contract states it.

  \<^bold>\<open>Not modelled.\<close> The inside of the libraries above; generated protobuf code, of which the
  messages and enum numbers are modelled; TLS, contexts and deadlines beyond the errors they
  produce; the text of log lines and of the load harness's output; files other than Go sources.
\<close>

end
